(* ===== verification/Gateway_Prelude.thy ===== *)
theory Gateway_Prelude
  imports Main "HOL-Library.Word" "HOL-Library.Monad_Syntax"
begin

unbundle bit_operations_syntax

section \<open>Prelude: machine integers, arrays and C strings\<close>

text \<open>
  What every component of the gateway shares.

  \<^item> Machine integers are \<^typ>\<open>8 word\<close>, \<^typ>\<open>16 word\<close> and so on: \<open>+\<close> wraps as the
    \<open>uint8_t\<close> and \<open>uint16_t\<close> of the sources do.  Values of type \<open>size_t\<close> are \<open>nat\<close>; where
    the code's arithmetic on them can leave the range, the 64-bit wrap-around is written out
    with \<open>sz\<close> and \<open>szsub\<close>.
  \<^item> A result of type \<open>'a option\<close> tells defined from undefined behaviour: \<open>None\<close> is an access
    outside its object, a NULL dereference, a use after free, and so on.  Error codes of the
    program are ordinary values inside \<open>Some\<close>, so that "never \<open>None\<close>" is memory safety and the
    error branches stay visible.
  \<^item> An array is a list; \<open>rd\<close>, \<open>wr\<close>, \<open>rdn\<close> and \<open>wrn\<close> read and write one or several
    elements and are \<open>None\<close> out of bounds.  \<open>memcpy\<close> and \<open>memmove\<close> are a \<open>rdn\<close> followed by a
    \<open>wrn\<close>.
  \<^item> A C string inside an array is read by \<open>cstr\<close>, up to and without its NUL; \<open>None\<close> when the
    array holds no NUL from there on.
\<close>

subsection \<open>Types\<close>

type_synonym u8 = "8 word"
type_synonym u16 = "16 word"
type_synonym u32 = "32 word"
type_synonym u64 = "64 word"

type_synonym addr = nat

text \<open>The result of code that may end the process with \<open>exit\<close>.\<close>

datatype 'a outcome = Exited | Running 'a

text \<open>The 64-bit wrap-around of \<open>size_t\<close>.\<close>

definition sz :: "nat \<Rightarrow> nat" where
  "sz n = n mod 2 ^ 64"

definition szsub :: "nat \<Rightarrow> nat \<Rightarrow> nat" where
  "szsub a b = nat ((int a - int b) mod 2 ^ 64)"

text \<open>Facts about array accesses and C strings that component proofs rewrite with.\<close>

named_theorems c_array \<open>bounds-checked array accesses\<close>
named_theorems c_string \<open>C strings in arrays\<close>
named_theorems bit_field \<open>masks and shifts of machine words as arithmetic on their values\<close>

subsection \<open>Arrays\<close>

definition rd :: "'a list \<Rightarrow> nat \<Rightarrow> 'a option" where
  "rd xs i = (if i < length xs then Some (xs ! i) else None)"

definition wr :: "'a list \<Rightarrow> nat \<Rightarrow> 'a \<Rightarrow> 'a list option" where
  "wr xs i v = (if i < length xs then Some (xs[i := v]) else None)"

definition rdn :: "'a list \<Rightarrow> nat \<Rightarrow> nat \<Rightarrow> 'a list option" where
  "rdn xs i n = (if i + n \<le> length xs then Some (take n (drop i xs)) else None)"

definition wrn :: "'a list \<Rightarrow> nat \<Rightarrow> 'a list \<Rightarrow> 'a list option" where
  "wrn xs i ys =
     (if i + length ys \<le> length xs then Some (take i xs @ ys @ drop (i + length ys) xs)
      else None)"

subsection \<open>C strings\<close>

definition bytes :: "string \<Rightarrow> u8 list" where
  "bytes s = map of_char s"

definition cstr :: "u8 list \<Rightarrow> nat \<Rightarrow> u8 list option" where
  "cstr xs i =
     (if 0 \<in> set (drop i xs) then Some (takeWhile (\<lambda>b. b \<noteq> 0) (drop i xs)) else None)"

text \<open>The offset \<open>strchr\<close> finds, inside the string that starts at the head of the array.\<close>

fun strchr_off :: "u8 list \<Rightarrow> u8 \<Rightarrow> nat option" where
  "strchr_off [] c = None"
| "strchr_off (x # xs) c =
     (if x = c then Some 0 else if x = 0 then None else map_option Suc (strchr_off xs c))"

subsection \<open>Lemmas on arrays\<close>

lemma rd_Some_iff [c_array]: "rd xs i = Some v \<longleftrightarrow> i < length xs \<and> xs ! i = v"
  by (auto simp: rd_def)

lemma rd_None_iff [c_array]: "rd xs i = None \<longleftrightarrow> length xs \<le> i"
  by (auto simp: rd_def)

lemma rd_in [simp]: "i < length xs \<Longrightarrow> rd xs i = Some (xs ! i)"
  by (simp add: rd_def)

lemma wr_in [simp]: "i < length xs \<Longrightarrow> wr xs i v = Some (xs[i := v])"
  by (simp add: wr_def)

lemma wr_Some_iff [c_array]: "wr xs i v = Some ys \<longleftrightarrow> i < length xs \<and> ys = xs[i := v]"
  by (auto simp: wr_def)

lemma rdn_in [simp]: "i + n \<le> length xs \<Longrightarrow> rdn xs i n = Some (take n (drop i xs))"
  by (simp add: rdn_def)

lemma rdn_Some_iff [c_array]:
  "rdn xs i n = Some ys \<longleftrightarrow> i + n \<le> length xs \<and> ys = take n (drop i xs)"
  by (auto simp: rdn_def)

lemma wrn_in [simp]:
  "i + length ys \<le> length xs \<Longrightarrow>
     wrn xs i ys = Some (take i xs @ ys @ drop (i + length ys) xs)"
  by (simp add: wrn_def)

lemma wrn_Some_iff [c_array]:
  "wrn xs i ys = Some zs \<longleftrightarrow>
     i + length ys \<le> length xs \<and> zs = take i xs @ ys @ drop (i + length ys) xs"
  by (auto simp: wrn_def)

lemma length_wrn: "wrn xs i ys = Some zs \<Longrightarrow> length zs = length xs"
  by (auto simp: wrn_Some_iff)

lemma rdn_append: "rdn (xs @ ys @ zs) (length xs) (length ys) = Some ys"
  by (simp add: rdn_def)

text \<open>Reading a field where \<open>drop i xs\<close> is known.\<close>

lemma rd_drop: "drop i xs = y # ys \<Longrightarrow> rd xs i = Some y"
  by (metis drop_eq_Nil list.distinct(1) not_le nth_via_drop rd_in)

lemma drop_add_append: "drop i xs = ys @ zs \<Longrightarrow> drop (i + length ys) xs = zs"
  by (metis add.commute append_eq_conv_conj drop_drop)

lemma drop_take_append:
  "p \<le> fin \<Longrightarrow> fin \<le> length xs \<Longrightarrow> drop p xs = drop p (take fin xs) @ drop fin xs"
  by (metis append_take_drop_id drop_append diff_is_0_eq' drop0 length_take min.absorb2)

text \<open>Overwriting a part of an array; consecutive writes join.\<close>

definition overwrite :: "'a list \<Rightarrow> nat \<Rightarrow> 'a list \<Rightarrow> 'a list" where
  "overwrite xs i ys = take i xs @ ys @ drop (i + length ys) xs"

lemma wrn_overwrite: "i + length ys \<le> length xs \<Longrightarrow> wrn xs i ys = Some (overwrite xs i ys)"
  by (simp add: overwrite_def)

lemma wr_overwrite: "i < length xs \<Longrightarrow> wr xs i y = Some (overwrite xs i [y])"
  by (simp add: overwrite_def upd_conv_take_nth_drop)

lemma length_overwrite [simp]: "i + length ys \<le> length xs \<Longrightarrow> length (overwrite xs i ys) = length xs"
  by (simp add: overwrite_def)

lemma overwrite_nil [simp]: "overwrite xs i [] = xs"
  by (simp add: overwrite_def)

lemma overwrite_overwrite:
  "j = i + length ys \<Longrightarrow> j + length zs \<le> length xs \<Longrightarrow>
     overwrite (overwrite xs i ys) j zs = overwrite xs i (ys @ zs)"
  by (simp add: overwrite_def ac_simps)

lemma overwrite_front:
  "j = i + length ys \<Longrightarrow> j + length zs \<le> length xs \<Longrightarrow>
     overwrite (overwrite xs j zs) i ys = overwrite xs i (ys @ zs)"
  by (simp add: overwrite_def min_def ac_simps)

lemma take_overwrite:
  "i + length ys \<le> length xs \<Longrightarrow> take (i + length ys) (overwrite xs i ys) = take i xs @ ys"
  by (simp add: overwrite_def)

lemma szsub_le: "b \<le> a \<Longrightarrow> a < 2 ^ 64 \<Longrightarrow> szsub a b = a - b"
proof -
  assume "b \<le> a" and "a < 2 ^ 64"
  then have "(int a - int b) mod 2 ^ 64 = int (a - b)"
    by (simp add: of_nat_diff)
  then show ?thesis by (simp add: szsub_def)
qed

lemma sz_id: "n < 2 ^ 64 \<Longrightarrow> sz n = n"
  by (simp add: sz_def)

subsection \<open>Bit fields\<close>

text \<open>Masking and shifting, read on the unsigned value.\<close>

lemma unat_and_mask [bit_field]: "unat (w AND mask k) = unat (w :: 'a::len word) mod 2 ^ k"
  by (simp only: flip: take_bit_eq_mask) (simp only: unsigned_take_bit_eq take_bit_nat_def)

lemma unat_drop [bit_field]: "unat (drop_bit k (w :: 'a::len word)) = unat w div 2 ^ k"
  by (simp only: unsigned_drop_bit_eq)
    (simp add: drop_bit_nat_def take_bit_nat_eq_self unsigned_less)

lemma u8_less: "unat (b :: u8) < 256"
  using unsigned_less [of b] by simp

lemma u16_less: "unat (b :: u16) < 65536"
  using unsigned_less [of b] by simp

lemma u8_and_0F [bit_field]: "unat ((b :: u8) AND 0x0F) = unat b mod 16"
  using unat_and_mask [of b 4] by (simp add: mask_eq_exp_minus_1)

lemma u8_hi_nibble [bit_field]: "unat (drop_bit 4 ((b :: u8) AND 0xF0)) = unat b div 16"
proof -
  have "drop_bit 4 (b AND 0xF0) = drop_bit 4 b AND mask 4"
    by (simp only: drop_bit_and) (simp add: mask_eq_exp_minus_1)
  then have "unat (drop_bit 4 (b AND 0xF0)) = (unat b div 16) mod 16"
    by (simp add: unat_and_mask unat_drop)
  then show ?thesis using u8_less [of b] by simp
qed

lemma u8_top_two [bit_field]: "unat (drop_bit 6 ((b :: u8) AND 0xC0)) = unat b div 64"
proof -
  have "drop_bit 6 (b AND 0xC0) = drop_bit 6 b AND mask 2"
    by (simp only: drop_bit_and) (simp add: mask_eq_exp_minus_1)
  then have "unat (drop_bit 6 (b AND 0xC0)) = (unat b div 64) mod 4"
    by (simp add: unat_and_mask unat_drop)
  then show ?thesis using u8_less [of b] by simp
qed

lemma u8_mid_two [bit_field]: "unat (drop_bit 4 ((b :: u8) AND 0x30)) = (unat b div 16) mod 4"
proof -
  have "drop_bit 4 (b AND 0x30) = drop_bit 4 b AND mask 2"
    by (simp only: drop_bit_and) (simp add: mask_eq_exp_minus_1)
  then show ?thesis by (simp add: unat_and_mask unat_drop)
qed

lemma and_mask_id: "unat (w :: 'a::len word) < 2 ^ k \<Longrightarrow> w AND mask k = w"
  by (simp add: word_unat_eq_iff unat_and_mask)

lemma and_255: "0xFF AND (w :: u8) = w"
  using and_mask_id [of w 8] u8_less [of w] by (simp add: mask_eq_exp_minus_1 and.commute)

lemma nat_or_add: "z < 2 ^ k \<Longrightarrow> push_bit k x OR z = x * 2 ^ k + (z :: nat)"
proof -
  assume z: "z < 2 ^ k"
  have "take_bit k z = z" using z by (simp add: take_bit_nat_eq_self)
  then have "\<not> bit z n" if "k \<le> n" for n
    using that by (metis bit_take_bit_iff leD)
  then have "push_bit k x AND z = 0"
    by (auto simp: bit_eq_iff bit_simps)
  then show ?thesis
    by (simp add: disjunctive_add_eq_or [symmetric] push_bit_eq_mult)
qed

lemma word_or_add:
  "z < 2 ^ k \<Longrightarrow>
     push_bit k (word_of_nat x) OR word_of_nat z = (word_of_nat (x * 2 ^ k + z) :: 'a::len word)"
  by (simp only: nat_or_add [symmetric] of_nat_or_eq push_bit_of_nat)

lemma be16_or: "push_bit 8 (ucast (x :: u8) :: u16) OR ucast (y :: u8) = word_of_nat (unat x * 256 + unat y)"
  using word_or_add [of "unat y" 8 "unat x", where 'a = 16] u8_less [of y]
  by (simp add: unsigned_of_nat of_nat_unat)

lemma unat_of_nat_u8: "n < 256 \<Longrightarrow> unat (word_of_nat n :: u8) = n"
  by (simp add: unat_of_nat)

lemma unat_of_nat_u16: "n < 65536 \<Longrightarrow> unat (word_of_nat n :: u16) = n"
  by (simp add: unat_of_nat)

lemma ucast_of_nat_u8_u16: "n < 256 \<Longrightarrow> (ucast (word_of_nat n :: u8) :: u16) = word_of_nat n"
  by (simp add: word_unat_eq_iff unsigned_ucast_eq unat_of_nat take_bit_nat_eq_self)

lemma ucast_u8_value: "unat (k :: u8) = n \<Longrightarrow> (ucast k :: 'b::len word) = word_of_nat n"
  by auto

lemma word_value: "unat (k :: u8) = n \<Longrightarrow> k = word_of_nat n"
  by auto

lemma ucast_of_nat_narrow: "(ucast (word_of_nat n :: u16) :: u8) = word_of_nat n"
  by (simp add: word_unat_eq_iff unsigned_ucast_eq unat_of_nat take_bit_nat_def mod_mod_cancel)

subsection \<open>Lemmas on C strings\<close>

lemma length_bytes [simp]: "length (bytes s) = length s"
  by (simp add: bytes_def)

lemma takeWhile_nonzero: "0 \<notin> set s \<Longrightarrow> takeWhile (\<lambda>b. b \<noteq> 0) (s @ 0 # post) = s"
  by (induction s) auto

lemma cstr_prefix [c_string]:
  "0 \<notin> set s \<Longrightarrow> cstr (pre @ s @ 0 # post) (length pre) = Some s"
  by (simp add: cstr_def takeWhile_nonzero)

lemma cstr_no_zero: "cstr xs i = Some s \<Longrightarrow> 0 \<notin> set s"
  by (auto simp: cstr_def split: if_splits dest: set_takeWhileD)

lemma length_takeWhile_less: "0 \<in> set xs \<Longrightarrow> length (takeWhile (\<lambda>b. b \<noteq> 0) xs) < length xs"
  by (induction xs) auto

lemma cstr_length: "cstr xs i = Some s \<Longrightarrow> i + length s < length xs"
  using length_takeWhile_less [of "drop i xs"]
  by (auto simp: cstr_def split: if_splits)

lemma strchr_off_SomeD:
  "strchr_off xs c = Some n \<Longrightarrow>
     n < length xs \<and> xs ! n = c \<and> c \<notin> set (take n xs) \<and> 0 \<notin> set (take n xs)"
proof (induction xs arbitrary: n)
  case Nil
  then show ?case by simp
next
  case (Cons x xs)
  then show ?case by (cases n) (auto split: if_splits)
qed

lemma strchr_off_found:
  "c \<notin> set s \<Longrightarrow> 0 \<notin> set s \<Longrightarrow> strchr_off (s @ c # t) c = Some (length s)"
  by (induction s) auto

lemma strchr_off_None:
  "strchr_off xs c = None \<Longrightarrow> c \<noteq> 0 \<Longrightarrow> c \<notin> set (takeWhile (\<lambda>b. b \<noteq> 0) xs)"
  by (induction xs) (auto split: if_splits)

end
