(* ===== verification/Comm_List.thy ===== *)
theory Comm_List
  imports Gateway_Prelude
begin

section \<open>The linked list of comm/list.c\<close>

text \<open>
  The singly linked list with a head and a tail pointer that holds the IP table and, as a queue,
  the messages waiting for the CoAP clients.

  The nodes live in an explicit heap (a partial map from addresses to \<open>ListElmt\<close>), so that
  dangling and NULL dereferences are the value \<open>None\<close>.  The address that \<open>malloc\<close> returned (\<open>None\<close>
  for NULL) is an argument of \<open>list_ins_next\<close>; the lemmas assume that it is fresh.  The
  destructor stored in the list acts on a state \<open>'s\<close> outside the list (the heap of the data).

  \<open>lrep h l xs\<close> says that the heap \<open>h\<close> and the record \<open>l\<close> represent the sequence \<open>xs\<close> of node
  addresses and data; every operation is shown to compute the corresponding operation on
  sequences.
\<close>

record 'a ListElmt =
  e_data :: 'a
  e_next :: "addr option"

type_synonym 'a heap = "addr \<rightharpoonup> 'a ListElmt"

record ('a, 's) List_ =
  l_size :: int
  l_destroy :: "('a \<Rightarrow> 's \<Rightarrow> 's option) option"
  l_head :: "addr option"
  l_tail :: "addr option"

text \<open>Signed 32-bit increment and decrement; overflow is undefined.\<close>

definition inc32 :: "int \<Rightarrow> int option" where
  "inc32 n = (if n < 2147483647 then Some (n + 1) else None)"

definition dec32 :: "int \<Rightarrow> int option" where
  "dec32 n = (if - 2147483648 < n then Some (n - 1) else None)"

subsection \<open>Operations\<close>

definition list_init :: "('a \<Rightarrow> 's \<Rightarrow> 's option) option \<Rightarrow> ('a, 's) List_" where
  "list_init destroy =
     \<lparr>l_size = 0, l_destroy = destroy, l_head = None, l_tail = None\<rparr>"

definition list_ins_next ::
  "addr option \<Rightarrow> 'a heap \<Rightarrow> ('a, 's) List_ \<Rightarrow> addr option \<Rightarrow> 'a
     \<Rightarrow> (int \<times> 'a heap \<times> ('a, 's) List_) option" where
  "list_ins_next mal h l element d =
     (case mal of
        None \<Rightarrow> Some (-1, h, l)
      | Some new \<Rightarrow>
          (case element of
             None \<Rightarrow>
               do {
                 let l1 = (if l_size l = 0 then l\<lparr>l_tail := Some new\<rparr> else l);
                 let h1 = h(new \<mapsto> \<lparr>e_data = d, e_next = l_head l1\<rparr>);
                 n \<leftarrow> inc32 (l_size l);
                 Some (0, h1, l1\<lparr>l_head := Some new, l_size := n\<rparr>)
               }
           | Some e \<Rightarrow>
               do {
                 el \<leftarrow> h e;
                 let l1 = (if e_next el = None then l\<lparr>l_tail := Some new\<rparr> else l);
                 let h1 = h(new \<mapsto> \<lparr>e_data = d, e_next = e_next el\<rparr>,
                            e \<mapsto> el\<lparr>e_next := Some new\<rparr>);
                 n \<leftarrow> inc32 (l_size l);
                 Some (0, h1, l1\<lparr>l_size := n\<rparr>)
               }))"

definition list_append ::
  "addr option \<Rightarrow> 'a heap \<Rightarrow> ('a, 's) List_ \<Rightarrow> 'a
     \<Rightarrow> (int \<times> 'a heap \<times> ('a, 's) List_) option" where
  "list_append mal h l d = list_ins_next mal h l (l_tail l) d"

text \<open>The second component is what the call stores through \<open>data\<close>, if anything.\<close>

definition list_rem_next ::
  "'a heap \<Rightarrow> ('a, 's) List_ \<Rightarrow> addr option
     \<Rightarrow> (int \<times> 'a option \<times> 'a heap \<times> ('a, 's) List_) option" where
  "list_rem_next h l element =
     (if l_size l = 0 then Some (-1, None, h, l)
      else
        (case element of
           None \<Rightarrow>
             do {
               old \<leftarrow> l_head l;
               el \<leftarrow> h old;
               let l1 = l\<lparr>l_head := e_next el\<rparr>;
               let l2 = (if l_size l1 = 1 then l1\<lparr>l_tail := None\<rparr> else l1);
               n \<leftarrow> dec32 (l_size l);
               Some (0, Some (e_data el), h(old := None), l2\<lparr>l_size := n\<rparr>)
             }
         | Some e \<Rightarrow>
             do {
               el \<leftarrow> h e;
               (case e_next el of
                  None \<Rightarrow> Some (-1, None, h, l)
                | Some old \<Rightarrow>
                    do {
                      oel \<leftarrow> h old;
                      let h1 = h(e \<mapsto> el\<lparr>e_next := e_next oel\<rparr>);
                      let l1 = (if e_next oel = None then l\<lparr>l_tail := Some e\<rparr> else l);
                      n \<leftarrow> dec32 (l_size l);
                      Some (0, Some (e_data oel), h1(old := None), l1\<lparr>l_size := n\<rparr>)
                    })
             }))"

lemma list_rem_next_size:
  "list_rem_next h l e = Some (rc, d, h', l') \<Longrightarrow>
     (rc = 0 \<and> l_size l' = l_size l - 1 \<and> l_destroy l' = l_destroy l \<and> d \<noteq> None) \<or>
     (rc = -1 \<and> h' = h \<and> l' = l \<and> d = None)"
  by (auto simp: list_rem_next_def Let_def dec32_def split: if_splits option.splits bind_splits)

lemma list_rem_head_size:
  "list_rem_next h l None = Some (rc, d, h', l') \<Longrightarrow> 0 < l_size l \<Longrightarrow>
     l_size l' = l_size l - 1"
  by (auto simp: list_rem_next_def Let_def dec32_def split: if_splits bind_splits)

text \<open>The nodes an operation may add or drop.\<close>

lemma list_ins_next_dom:
  "list_ins_next (Some n) h l e d = Some (rc, h', l') \<Longrightarrow> dom h' \<subseteq> insert n (dom h)"
  by (auto simp: list_ins_next_def Let_def split: option.splits bind_splits if_splits)

lemma list_rem_next_dom: "list_rem_next h l e = Some (rc, d, h', l') \<Longrightarrow> dom h' \<subseteq> dom h"
  by (auto simp: list_rem_next_def Let_def split: option.splits bind_splits if_splits)

text \<open>The call of the destructor in the loops of \<open>list_clean\<close> and \<open>list_destroy\<close>.\<close>

definition call_destroy :: "('a, 's) List_ \<Rightarrow> int \<Rightarrow> 'a option \<Rightarrow> 's \<Rightarrow> 's option" where
  "call_destroy l rc d s =
     (case (rc = 0, l_destroy l, d) of
        (True, Some f, Some x) \<Rightarrow> f x s
      | _ \<Rightarrow> Some s)"

function list_clean ::
  "'a heap \<Rightarrow> ('a, 's) List_ \<Rightarrow> 's \<Rightarrow> ('a heap \<times> ('a, 's) List_ \<times> 's) option" where
  "list_clean h l s =
     (if 0 < l_size l then
        (case list_rem_next h l None of
           None \<Rightarrow> None
         | Some (rc, d, h', l') \<Rightarrow>
             (case call_destroy l' rc d s of
                None \<Rightarrow> None
              | Some s' \<Rightarrow> list_clean h' l' s'))
      else Some (h, l, s))"
  by pat_completeness auto
termination
  by (relation "measure (\<lambda>(h, l, s). nat (l_size l))") (auto dest: list_rem_head_size)

declare list_clean.simps [simp del]

definition list_destroy ::
  "'a heap \<Rightarrow> ('a, 's) List_ \<Rightarrow> 's \<Rightarrow> ('a heap \<times> ('a, 's) List_ \<times> 's) option" where
  "list_destroy h l s =
     do {
       (h', l', s') \<leftarrow> list_clean h l s;
       Some (h', \<lparr>l_size = 0, l_destroy = None, l_head = None, l_tail = None\<rparr>, s')
     }"

subsection \<open>The sequence a list represents\<close>

fun chain :: "'a heap \<Rightarrow> addr option \<Rightarrow> (addr \<times> 'a) list \<Rightarrow> addr option \<Rightarrow> bool" where
  "chain h p [] q \<longleftrightarrow> p = q"
| "chain h p ((a, d) # xs) q \<longleftrightarrow>
     p = Some a \<and> (\<exists>n. h a = Some \<lparr>e_data = d, e_next = n\<rparr> \<and> chain h n xs q)"

definition lrep :: "'a heap \<Rightarrow> ('a, 's) List_ \<Rightarrow> (addr \<times> 'a) list \<Rightarrow> bool" where
  "lrep h l xs \<longleftrightarrow>
     chain h (l_head l) xs None \<and> distinct (map fst xs) \<and>
     l_tail l = (if xs = [] then None else Some (fst (last xs))) \<and>
     l_size l = int (length xs)"

lemma chain_append [simp]:
  "chain h p (xs @ ys) q \<longleftrightarrow> (\<exists>r. chain h p xs r \<and> chain h r ys q)"
  by (induction xs arbitrary: p) (auto, blast+)

lemma chain_upd [simp]:
  "a \<notin> fst ` set xs \<Longrightarrow> chain (h(a := v)) p xs q = chain h p xs q"
  by (induction xs arbitrary: p) auto

lemma chain_in_heap: "chain h p xs q \<Longrightarrow> fst ` set xs \<subseteq> dom h"
proof (induction xs arbitrary: p)
  case (Cons ad xs)
  then show ?case by (cases ad) force
qed simp

lemma chain_unique: "chain h p xs None \<Longrightarrow> chain h p ys None \<Longrightarrow> xs = ys"
proof (induction xs arbitrary: p ys)
  case Nil
  then show ?case by (cases ys) auto
next
  case (Cons ad xs)
  then show ?case by (cases ad; cases ys) force+
qed

lemma chain_fresh: "chain h p xs q \<Longrightarrow> h a = None \<Longrightarrow> a \<notin> fst ` set xs"
  using chain_in_heap by fastforce

lemma lrep_fresh: "lrep h l xs \<Longrightarrow> h a = None \<Longrightarrow> a \<notin> fst ` set xs"
  by (auto simp: lrep_def dest: chain_fresh)

lemma lrep_empty_iff: "lrep h l xs \<Longrightarrow> (l_size l = 0) = (xs = [])"
  by (auto simp: lrep_def)

subsection \<open>The operations compute on sequences\<close>

lemma lrep_init: "lrep h (list_init destroy) []"
  by (simp add: lrep_def list_init_def)

lemma list_ins_next_nomem: "list_ins_next None h l e d = Some (-1, h, l)"
  by (simp add: list_ins_next_def)

lemma list_ins_next_head:
  assumes "lrep h l xs" and "h new = None" and "length xs < 2147483647"
  shows "\<exists>h' l'. list_ins_next (Some new) h l None d = Some (0, h', l') \<and>
           lrep h' l' ((new, d) # xs) \<and> l_destroy l' = l_destroy l"
  using assms lrep_fresh [OF assms(1,2)]
  by (auto simp: list_ins_next_def lrep_def inc32_def Let_def)

lemma list_ins_next_after:
  assumes rep: "lrep h l (xs @ (a, x) # ys)" and fresh: "h new = None"
    and room: "length (xs @ (a, x) # ys) < 2147483647"
  shows "\<exists>h' l'. list_ins_next (Some new) h l (Some a) d = Some (0, h', l') \<and>
           lrep h' l' (xs @ (a, x) # (new, d) # ys) \<and> l_destroy l' = l_destroy l"
proof -
  have new: "new \<notin> fst ` set xs" "new \<noteq> a" "new \<notin> fst ` set ys"
    using lrep_fresh [OF rep fresh] by auto
  from rep obtain n where ha: "h a = Some \<lparr>e_data = x, e_next = n\<rparr>"
    and c: "chain h (l_head l) xs (Some a)" "chain h n ys None"
    and a: "a \<notin> fst ` set xs" "a \<notin> fst ` set ys"
    by (auto simp: lrep_def)
  have n: "n = None \<longleftrightarrow> ys = []"
    using c(2) by (cases ys) auto
  show ?thesis
    using rep room c a new n
    by (auto simp: list_ins_next_def lrep_def inc32_def Let_def ha)
qed

lemma list_rem_next_head:
  assumes "lrep h l ((a, d) # xs)" and "length xs < 2147483647"
  shows "\<exists>l'. list_rem_next h l None = Some (0, Some d, h(a := None), l') \<and>
           lrep (h(a := None)) l' xs \<and> l_destroy l' = l_destroy l"
  using assms by (auto simp: list_rem_next_def lrep_def dec32_def Let_def)

lemma list_rem_next_empty: "lrep h l [] \<Longrightarrow> list_rem_next h l e = Some (-1, None, h, l)"
  by (simp add: list_rem_next_def lrep_def)

lemma list_rem_next_after:
  assumes rep: "lrep h l (xs @ (a, x) # (b, y) # ys)"
    and room: "length (xs @ (a, x) # (b, y) # ys) < 2147483647"
  shows "\<exists>h' l'. list_rem_next h l (Some a) = Some (0, Some y, h', l') \<and>
           lrep h' l' (xs @ (a, x) # ys) \<and> h' b = None \<and> l_destroy l' = l_destroy l"
proof -
  from rep obtain n where ha: "h a = Some \<lparr>e_data = x, e_next = Some b\<rparr>"
    and hb: "h b = Some \<lparr>e_data = y, e_next = n\<rparr>"
    and c: "chain h (l_head l) xs (Some a)" "chain h n ys None"
    and a: "a \<notin> fst ` set xs" "a \<notin> fst ` set ys" "a \<noteq> b"
      "b \<notin> fst ` set xs" "b \<notin> fst ` set ys"
    by (auto simp: lrep_def)
  have n: "n = None \<longleftrightarrow> ys = []"
    using c(2) by (cases ys) auto
  show ?thesis
    using rep room c a n
    by (auto simp: list_rem_next_def lrep_def dec32_def Let_def ha hb)
qed

lemma list_rem_next_last:
  assumes "lrep h l (xs @ [(a, x)])"
  shows "list_rem_next h l (Some a) = Some (-1, None, h, l)"
  using assms by (auto simp: list_rem_next_def lrep_def)

lemma list_append_lrep:
  assumes rep: "lrep h l xs" and fresh: "h new = None" and room: "length xs < 2147483647"
  shows "\<exists>h' l'. list_append (Some new) h l d = Some (0, h', l') \<and>
           lrep h' l' (xs @ [(new, d)]) \<and> l_destroy l' = l_destroy l"
proof (cases xs rule: rev_cases)
  case Nil
  then show ?thesis
    using list_ins_next_head [OF rep fresh room] rep
    by (simp add: list_append_def lrep_def)
next
  case (snoc ys ax)
  obtain a x where "ax = (a, x)" by fastforce
  with snoc have xs: "xs = ys @ [(a, x)]" by simp
  with rep have "l_tail l = Some a" by (simp add: lrep_def)
  then show ?thesis
    using list_ins_next_after [of h l ys a x "[]" new d] rep fresh room xs
    by (simp add: list_append_def)
qed

subsection \<open>Emptying a list\<close>

fun run_destroy :: "('a \<Rightarrow> 's \<Rightarrow> 's option) option \<Rightarrow> 'a list \<Rightarrow> 's \<Rightarrow> 's option" where
  "run_destroy f [] s = Some s"
| "run_destroy None (d # ds) s = run_destroy None ds s"
| "run_destroy (Some f) (d # ds) s = Option.bind (f d s) (run_destroy (Some f) ds)"

lemma list_clean_empty: "lrep h l [] \<Longrightarrow> list_clean h l s = Some (h, l, s)"
  by (simp add: lrep_def list_clean.simps)

lemma list_clean_Cons:
  assumes rep: "lrep h l ((a, d) # xs)" and room: "length xs < 2147483647"
  shows "\<exists>l'. lrep (h(a := None)) l' xs \<and> l_destroy l' = l_destroy l \<and>
           list_clean h l s =
             Option.bind (call_destroy l' 0 (Some d) s) (list_clean (h(a := None)) l')"
proof -
  obtain l' where l': "list_rem_next h l None = Some (0, Some d, h(a := None), l')"
    "lrep (h(a := None)) l' xs" "l_destroy l' = l_destroy l"
    using list_rem_next_head [OF rep room] by blast
  moreover have "0 < l_size l" using rep by (simp add: lrep_def)
  ultimately have "list_clean h l s =
      Option.bind (call_destroy l' 0 (Some d) s) (list_clean (h(a := None)) l')"
    by (simp add: list_clean.simps [of h l s] split: option.split)
  with l' show ?thesis by blast
qed

lemma list_clean_lrep:
  assumes "lrep h l xs" and "length xs < 2147483647"
  shows "list_clean h l s =
           map_option (\<lambda>s'. (h |` (- (fst ` set xs)),
                            \<lparr>l_size = 0, l_destroy = l_destroy l, l_head = None, l_tail = None\<rparr>, s'))
             (run_destroy (l_destroy l) (map snd xs) s)"
  using assms
proof (induction xs arbitrary: h l s)
  case Nil
  then show ?case by (simp add: list_clean_empty) (auto simp: lrep_def)
next
  case (Cons ad xs)
  obtain a d where ad: "ad = (a, d)" by fastforce
  obtain l' where l': "lrep (h(a := None)) l' xs" "l_destroy l' = l_destroy l"
    "list_clean h l s = Option.bind (call_destroy l' 0 (Some d) s) (list_clean (h(a := None)) l')"
    using list_clean_Cons [of h l a d xs s] Cons.prems ad by auto
  have h: "h(a := None) |` (- (fst ` set xs)) = h |` (- insert a (fst ` set xs))"
    by (auto simp: restrict_map_def)
  have "length xs < 2147483647" using Cons.prems(2) by simp
  note IH = Cons.IH [OF l'(1) this, unfolded h l'(2)]
  show ?case
    unfolding l'(3)
    by (cases "l_destroy l"; cases "call_destroy l' 0 (Some d) s")
      (simp_all add: IH call_destroy_def ad l'(2))
qed

lemma list_destroy_lrep:
  assumes "lrep h l xs" and "length xs < 2147483647"
  shows "list_destroy h l s =
           map_option (\<lambda>s'. (h |` (- (fst ` set xs)), list_init None, s'))
             (run_destroy (l_destroy l) (map snd xs) s)"
  using list_clean_lrep [OF assms]
  by (cases "run_destroy (l_destroy l) (map snd xs) s")
    (simp_all add: list_destroy_def list_init_def)

subsection \<open>Properties\<close>

text \<open>
  Removing from a list, for every position a caller may name: the call removes exactly the
  element after that position and frees its node, or it returns -1 and changes nothing, which
  happens only on an empty list or behind the last element.
\<close>

lemma list_rem_next_outcome:
  assumes rep: "lrep h l xs" and room: "length xs < 2147483647"
    and e: "e = None \<or> e \<in> Some ` fst ` set xs"
  shows "(list_rem_next h l e = Some (-1, None, h, l) \<and> (xs = [] \<or> e = Some (fst (last xs)))) \<or>
         (\<exists>us b y ws h' l'. xs = us @ (b, y) # ws \<and>
            e = (if us = [] then None else Some (fst (last us))) \<and>
            list_rem_next h l e = Some (0, Some y, h', l') \<and>
            lrep h' l' (us @ ws) \<and> h' b = None)"
proof (cases e)
  case None
  show ?thesis
  proof (cases xs)
    case Nil
    with rep show ?thesis by (simp add: list_rem_next_empty)
  next
    case (Cons ad ws)
    obtain b y where ad: "ad = (b, y)" by fastforce
    have "length ws < 2147483647" using room Cons by simp
    from list_rem_next_head [OF rep [unfolded Cons ad] this] None show ?thesis
      by (intro disjI2 exI [of _ "[]"] exI [of _ b] exI [of _ y] exI [of _ ws]) (auto simp: Cons ad)
  qed
next
  case (Some a)
  with e obtain x where "(a, x) \<in> set xs" by auto
  then obtain us ys where xs: "xs = us @ (a, x) # ys" by (meson split_list)
  show ?thesis
  proof (cases ys)
    case Nil
    with rep xs Some show ?thesis by (simp add: list_rem_next_last)
  next
    case (Cons z ws)
    obtain b y where "z = (b, y)" by fastforce
    with xs Cons have xs': "xs = us @ (a, x) # (b, y) # ws" by simp
    from list_rem_next_after [OF rep [unfolded xs'] room [unfolded xs']] Some show ?thesis
      by (intro disjI2 exI [of _ "us @ [(a, x)]"] exI [of _ b] exI [of _ y] exI [of _ ws])
        (auto simp: xs')
  qed
qed

lemma list_rem_next_outcome_witness:
  "\<exists>h' l'. list_rem_next (Map.empty(5 \<mapsto> \<lparr>e_data = ''a'', e_next = Some 6\<rparr>,
        6 \<mapsto> \<lparr>e_data = ''b'', e_next = None\<rparr>))
      \<lparr>l_size = 2, l_destroy = (None :: (string \<Rightarrow> unit \<Rightarrow> unit option) option),
       l_head = Some 5, l_tail = Some 6\<rparr> (Some 5) = Some (0, Some ''b'', h', l') \<and>
    lrep h' l' [(5, ''a'')]"
  using list_rem_next_outcome [of "Map.empty(5 \<mapsto> \<lparr>e_data = ''a'', e_next = Some 6\<rparr>,
        6 \<mapsto> \<lparr>e_data = ''b'', e_next = None\<rparr>)"
      "\<lparr>l_size = 2, l_destroy = (None :: (string \<Rightarrow> unit \<Rightarrow> unit option) option),
       l_head = Some 5, l_tail = Some 6\<rparr>" "[(5, ''a''), (6, ''b'')]" "Some 5"]
  by (auto simp: lrep_def Cons_eq_append_conv)

text \<open>
  Inserting an element behind a given one and removing behind that one again restores the list:
  the removal hands back the inserted datum, and the node is free again.
\<close>

lemma list_ins_rem_next:
  assumes rep: "lrep h l (xs @ (a, x) # ys)" and fresh: "h new = None"
    and room: "length (xs @ (a, x) # ys) < 2147483646"
  shows "\<exists>h1 l1 h2 l2. list_ins_next (Some new) h l (Some a) d = Some (0, h1, l1) \<and>
           lrep h1 l1 (xs @ (a, x) # (new, d) # ys) \<and>
           list_rem_next h1 l1 (Some a) = Some (0, Some d, h2, l2) \<and>
           lrep h2 l2 (xs @ (a, x) # ys) \<and> h2 new = None"
proof -
  obtain h1 l1 where ins: "list_ins_next (Some new) h l (Some a) d = Some (0, h1, l1)"
    "lrep h1 l1 (xs @ (a, x) # (new, d) # ys)"
    using list_ins_next_after [OF rep fresh, of d] room by auto
  moreover have "length (xs @ (a, x) # (new, d) # ys) < 2147483647" using room by simp
  ultimately show ?thesis using list_rem_next_after [OF ins(2)] by blast
qed

lemma list_ins_rem_next_witness:
  "\<exists>h1 l1 h2 l2. list_ins_next (Some 9) (Map.empty(5 \<mapsto> \<lparr>e_data = ''a'', e_next = None\<rparr>))
      \<lparr>l_size = 1, l_destroy = (None :: (string \<Rightarrow> unit \<Rightarrow> unit option) option),
       l_head = Some 5, l_tail = Some 5\<rparr> (Some 5) ''b'' = Some (0, h1, l1) \<and>
    list_rem_next h1 l1 (Some 5) = Some (0, Some ''b'', h2, l2) \<and> lrep h2 l2 [(5, ''a'')]"
  using list_ins_rem_next [of "Map.empty(5 \<mapsto> \<lparr>e_data = ''a'', e_next = None\<rparr>)"
      "\<lparr>l_size = 1, l_destroy = (None :: (string \<Rightarrow> unit \<Rightarrow> unit option) option),
       l_head = Some 5, l_tail = Some 5\<rparr>" "[]" 5 "''a''" "[]" 9 "''b''"]
  by (force simp: lrep_def)

text \<open>
  C36. Destroying a list returns: the destructor runs once on every datum in list order, every node
  of the list is freed and no other, and the list record is cleared.
\<close>

theorem list_destroy_frees:
  assumes "lrep h l xs" and "length xs < 2147483647"
    and "run_destroy (l_destroy l) (map snd xs) s = Some s'"
  shows "\<exists>h'. list_destroy h l s = Some (h', list_init None, s') \<and>
           (\<forall>a. h' a = (if a \<in> fst ` set xs then None else h a))"
  using list_destroy_lrep [OF assms(1,2)] assms(3) by (auto simp: restrict_map_def)

theorem list_destroy_frees_witness:
  "\<exists>h'. list_destroy (Map.empty(5 \<mapsto> \<lparr>e_data = ''a'', e_next = Some 6\<rparr>,
        6 \<mapsto> \<lparr>e_data = ''b'', e_next = None\<rparr>))
      \<lparr>l_size = 2, l_destroy = Some (\<lambda>d log. Some (log @ [d])), l_head = Some 5, l_tail = Some 6\<rparr> []
      = Some (h', list_init None, [''a'', ''b'']) \<and> h' 5 = None \<and> h' 6 = None"
  using list_destroy_frees [of "Map.empty(5 \<mapsto> \<lparr>e_data = ''a'', e_next = Some 6\<rparr>,
        6 \<mapsto> \<lparr>e_data = ''b'', e_next = None\<rparr>)"
      "\<lparr>l_size = 2, l_destroy = Some (\<lambda>d log. Some (log @ [d])), l_head = Some 5, l_tail = Some 6\<rparr>"
      "[(5, ''a''), (6, ''b'')]" "[]" "[''a'', ''b'']"]
  by (auto simp: lrep_def)

end
