(* ===== verification/Iptable.thy ===== *)
theory Iptable
  imports Comm_List
begin

section \<open>The device table: iptable/coap_iptable.c\<close>

text \<open>
  \<open>ParsTxt\<close> reads the file IPtable.cont, one device per line as \<open>ip/path#\<close>, into the list \<open>iplist\<close>.
  The list holds pointers to \<open>coapIP\<close> blocks; both the list nodes and the blocks come from
  \<open>malloc\<close>, so the state has a heap of nodes, a store of blocks and a count of the calls of
  \<open>malloc\<close>: \<open>mal i\<close> is what the \<open>i\<close>-th call returns.  Fields that \<open>malloc\<close> leaves uninitialised are
  \<open>None\<close>.
\<close>

definition COAP_PATH_LEN :: nat where
  "COAP_PATH_LEN = 128"

definition COAP_IP_LEN :: nat where
  "COAP_IP_LEN = 64"

record coapIP =
  coapSocket :: "int option"
  ci_path :: "u8 list"
  ci_ip :: "u8 list"
  ci_pid :: "int option"
  ci_fifo_fd :: "int option"

type_synonym ipstore = "addr \<Rightarrow> coapIP option"

record iptab =
  t_heap :: "addr heap"
  t_list :: "(addr, ipstore) List_"
  t_store :: ipstore
  t_calls :: nat

definition free_ip :: "addr \<Rightarrow> ipstore \<Rightarrow> ipstore option" where
  "free_ip a s = (if s a = None then None else Some (s(a := None)))"

subsection \<open>Reading a line\<close>

text \<open>
  \<open>fgets\<close> on a file whose unread bytes are \<open>rest\<close>: the bytes stored (\<open>None\<close> for NULL), the unread
  rest, and whether the end-of-file indicator is set.
\<close>

definition fgets_chars :: "nat \<Rightarrow> u8 list \<Rightarrow> u8 list" where
  "fgets_chars n rest =
     (let t = take (n - 1) rest; pre = takeWhile (\<lambda>c. c \<noteq> 10) t
      in if length pre < length t then pre @ [10] else t)"

definition fgets :: "nat \<Rightarrow> u8 list \<Rightarrow> u8 list option \<times> u8 list \<times> bool" where
  "fgets n rest =
     (let cs = fgets_chars n rest
      in if cs = [] then (None, [], True)
         else (Some cs, drop (length cs) rest, length cs < n - 1 \<and> last cs \<noteq> 10))"

lemma length_fgets_chars: "length (fgets_chars n rest) \<le> n - 1 \<and> length (fgets_chars n rest) \<le> length rest"
  by (simp add: fgets_chars_def Let_def)

lemma fgets_advances:
  "fgets n rest = (Some cs, rest', eof') \<Longrightarrow> length rest' < length rest"
proof -
  assume f: "fgets n rest = (Some cs, rest', eof')"
  then have "cs = fgets_chars n rest" "rest' = drop (length cs) rest" "cs \<noteq> []"
    by (auto simp: fgets_def Let_def split: if_splits)
  moreover from this have "0 < length cs" "length cs \<le> length rest"
    using length_fgets_chars [of n rest] by auto
  ultimately show ?thesis by (simp del: length_greater_0_conv)
qed

lemma fgets_measure:
  "(r, rest', eof') = fgets n rest \<Longrightarrow>
     2 * length rest' + (if eof' then 0 else 1) < 2 * length rest + (1 :: nat)"
proof (cases r)
  case None
  assume "(r, rest', eof') = fgets n rest"
  with None show ?thesis by (auto simp: fgets_def Let_def split: if_splits)
next
  case (Some cs)
  assume "(r, rest', eof') = fgets n rest"
  with Some have "fgets n rest = (Some cs, rest', eof')" by simp
  from fgets_advances [OF this] show ?thesis by simp
qed

subsection \<open>Parsing the file\<close>

definition fresh_ip :: coapIP where
  "fresh_ip = \<lparr>coapSocket = Some 0, ci_path = replicate COAP_PATH_LEN 0, ci_ip = replicate COAP_IP_LEN 0,
     ci_pid = None, ci_fifo_fd = None\<rparr>"

text \<open>
  The body of the loop after \<open>fgets\<close> stored \<open>cs\<close> into \<open>buff\<close>: the table, the buffer.  \<open>a\<close> is the new
  block.  A copy behind the end of \<open>ip\<close> or \<open>path\<close> is undefined.
\<close>

definition pars_line ::
  "(nat \<Rightarrow> addr option) \<Rightarrow> iptab \<Rightarrow> addr \<Rightarrow> u8 list \<Rightarrow> u8 list \<Rightarrow> (iptab \<times> u8 list) option" where
  "pars_line mal t a buff cs =
     do {
       b \<leftarrow> wrn buff 0 (cs @ [0]);
       (case strchr_off b 0x2F of
          None \<Rightarrow> Some (t, b)
        | Some p \<Rightarrow>
            do {
              d \<leftarrow> t_store t a;
              ip \<leftarrow> wrn (ci_ip d) 0 (take p b);
              let t1 = t\<lparr>t_store := (t_store t)(a \<mapsto> d\<lparr>ci_ip := ip\<rparr>)\<rparr>;
              (case strchr_off (drop (p + 1) b) 0x23 of
                 None \<Rightarrow> Some (t1, b)
               | Some e \<Rightarrow>
                   do {
                     path \<leftarrow> wrn (ci_path d) 0 (take e (drop (p + 1) b));
                     let s2 = (t_store t)(a \<mapsto> d\<lparr>ci_ip := ip, ci_path := path\<rparr>);
                     (rc, h, l) \<leftarrow> list_append (mal (t_calls t)) (t_heap t) (t_list t) a;
                     Some (t\<lparr>t_store := s2, t_heap := h, t_list := l, t_calls := t_calls t + 1\<rparr>,
                           replicate (length b) 0)
                   })
            })
     }"

function pars_loop ::
  "(nat \<Rightarrow> addr option) \<Rightarrow> iptab \<Rightarrow> u8 list \<Rightarrow> u8 list \<Rightarrow> bool \<Rightarrow> iptab outcome option" where
  "pars_loop mal t buff rest eof =
     (if eof then Some (Running t)
      else
        (case mal (t_calls t) of
           None \<Rightarrow> Some Exited
         | Some a \<Rightarrow>
             let t1 = t\<lparr>t_store := (t_store t)(a \<mapsto> fresh_ip), t_calls := t_calls t + 1\<rparr> in
             (case fgets 128 rest of
                (None, rest', eof') \<Rightarrow> pars_loop mal t1 buff rest' eof'
              | (Some cs, rest', eof') \<Rightarrow>
                  (case pars_line mal t1 a buff cs of
                     None \<Rightarrow> None
                   | Some (t2, b2) \<Rightarrow> pars_loop mal t2 b2 rest' eof'))))"
  by pat_completeness auto
termination
  by (relation "measure (\<lambda>(mal, t, buff, rest, eof). 2 * length rest + (if eof then 0 else 1))")
    (auto dest!: fgets_measure fgets_measure [OF sym])

declare pars_loop.simps [simp del]

text \<open>
  \<open>file\<close> is the content of IPtable.cont, \<open>None\<close> when it cannot be opened; \<open>buff0\<close> is what the local
  array holds at the start.
\<close>

definition ParsTxt ::
  "(nat \<Rightarrow> addr option) \<Rightarrow> iptab \<Rightarrow> u8 list \<Rightarrow> u8 list option \<Rightarrow> iptab outcome option" where
  "ParsTxt mal t buff0 file =
     do {
       t1 \<leftarrow> (if l_size (t_list t) > 0 then
               map_option (\<lambda>(h, l, s). t\<lparr>t_heap := h, t_list := l, t_store := s\<rparr>)
                 (list_clean (t_heap t) (t_list t) (t_store t))
             else Some t);
       (case file of
          None \<Rightarrow> Some Exited
        | Some text \<Rightarrow> pars_loop mal t1 buff0 text False)
     }"

text \<open>
  The lines \<open>PrintIPtable\<close> prints: the address and path strings of every entry.  On a damaged list
  the walk may not end, which is \<open>None\<close> too.
\<close>

partial_function (option) print_from :: "iptab \<Rightarrow> addr option \<Rightarrow> (u8 list \<times> u8 list) list option" where
  "print_from t ptr =
     (case ptr of
        None \<Rightarrow> Some []
      | Some a \<Rightarrow>
          Option.bind (t_heap t a) (\<lambda>el.
          Option.bind (t_store t (e_data el)) (\<lambda>d.
          Option.bind (cstr (ci_ip d) 0) (\<lambda>i.
          Option.bind (cstr (ci_path d) 0) (\<lambda>p.
          Option.bind (print_from t (e_next el)) (\<lambda>ps. Some ((i, p) # ps)))))))"

definition PrintIPtable :: "iptab \<Rightarrow> (u8 list \<times> u8 list) list option" where
  "PrintIPtable t = print_from t (l_head (t_list t))"

subsection \<open>What a file says\<close>

lemma fgets_chars_Nil: "fgets_chars 128 text = [] \<longleftrightarrow> text = []"
  by (auto simp: fgets_chars_def Let_def)

text \<open>The pieces \<open>fgets\<close> cuts a text into: lines, and pieces of 127 bytes of longer lines.\<close>

function chunks :: "u8 list \<Rightarrow> u8 list list" where
  "chunks text =
     (if text = [] then [] else fgets_chars 128 text # chunks (drop (length (fgets_chars 128 text)) text))"
  by pat_completeness auto
termination
  by (relation "measure length") (auto simp: fgets_chars_Nil)

declare chunks.simps [simp del]

definition parse_line :: "u8 list \<Rightarrow> (u8 list \<times> u8 list) option" where
  "parse_line cs =
     (case strchr_off (cs @ [0]) 0x2F of
        None \<Rightarrow> None
      | Some p \<Rightarrow>
          (case strchr_off (drop (p + 1) cs @ [0]) 0x23 of
             None \<Rightarrow> None
           | Some e \<Rightarrow> Some (take p cs, take e (drop (p + 1) cs))))"

definition safe_line :: "u8 list \<Rightarrow> bool" where
  "safe_line cs \<longleftrightarrow> (case strchr_off (cs @ [0]) 0x2F of None \<Rightarrow> True | Some p \<Rightarrow> p \<le> 64)"

definition ip_entry :: "u8 list \<times> u8 list \<Rightarrow> coapIP" where
  "ip_entry ips = \<lparr>coapSocket = Some 0, ci_path = snd ips @ replicate (128 - length (snd ips)) 0,
     ci_ip = fst ips @ replicate (64 - length (fst ips)) 0, ci_pid = None, ci_fifo_fd = None\<rparr>"

definition line_entries :: "u8 list \<Rightarrow> coapIP list" where
  "line_entries cs = (case parse_line cs of None \<Rightarrow> [] | Some ips \<Rightarrow> [ip_entry ips])"

definition file_entries :: "u8 list \<Rightarrow> coapIP list" where
  "file_entries text = concat (map line_entries (chunks text))"

text \<open>The table \<open>t\<close> holds the entries \<open>es\<close>, in the nodes and blocks \<open>xs\<close>.\<close>

definition tab :: "iptab \<Rightarrow> (addr \<times> addr) list \<Rightarrow> coapIP list \<Rightarrow> bool" where
  "tab t xs es \<longleftrightarrow>
     lrep (t_heap t) (t_list t) xs \<and> distinct (map snd xs) \<and>
     map (\<lambda>x. t_store t (snd x)) xs = map Some es"

text \<open>\<open>malloc\<close> never fails and returns new addresses.\<close>

definition mallocs :: "(nat \<Rightarrow> addr) \<Rightarrow> nat \<Rightarrow> addr option" where
  "mallocs f i = Some (f i)"

lemma mallocs_Some: "mallocs f i = Some (f i)"
  by (simp add: mallocs_def)

definition new_from :: "(nat \<Rightarrow> addr) \<Rightarrow> iptab \<Rightarrow> bool" where
  "new_from f t \<longleftrightarrow> inj f \<and> (\<forall>i \<ge> t_calls t. t_heap t (f i) = None \<and> t_store t (f i) = None)"

subsection \<open>One line\<close>

lemma strchr_off_nul: "c \<noteq> 0 \<Longrightarrow> strchr_off (xs @ 0 # ys) c = strchr_off (xs @ [0]) c"
  by (induction xs) auto

lemma strchr_off_le: "c \<noteq> 0 \<Longrightarrow> strchr_off (xs @ [0]) c = Some p \<Longrightarrow> p < length xs"
  using strchr_off_SomeD [of "xs @ [0]" c p] by (auto simp: nth_append split: if_splits)

lemma pad_write: "length xs \<le> n \<Longrightarrow> wrn (replicate n 0) 0 xs = Some (xs @ replicate (n - length xs) (0 :: u8))"
  by (simp add: wrn_def)

lemma map_store_other:
  "a \<notin> snd ` set xs \<Longrightarrow> map (\<lambda>x. (s(a := v)) (snd x)) xs = map (\<lambda>x. s (snd x)) xs"
  by (intro map_cong) auto

lemma tab_store_other:
  assumes "tab t xs es" and "a \<notin> snd ` set xs"
  shows "tab (t\<lparr>t_store := (t_store t)(a := v), t_calls := k\<rparr>) xs es"
  using assms map_store_other [OF assms(2), of "t_store t" v] by (simp add: tab_def del: fun_upd_apply)

lemma tab_append:
  assumes t: "tab t xs es" and a: "a \<notin> snd ` set xs" and n: "t_heap t n = None"
    and room: "length xs < 2147483647"
  shows "\<exists>h l. list_append (Some n) (t_heap t) (t_list t) a = Some (0, h, l) \<and> l_destroy l = l_destroy (t_list t) \<and>
     dom h \<subseteq> insert n (dom (t_heap t)) \<and>
     tab (t\<lparr>t_store := (t_store t)(a \<mapsto> e), t_heap := h, t_list := l, t_calls := k\<rparr>) (xs @ [(n, a)]) (es @ [e])"
proof -
  have rep: "lrep (t_heap t) (t_list t) xs" using t by (simp add: tab_def)
  obtain h l where hl: "list_append (Some n) (t_heap t) (t_list t) a = Some (0, h, l)"
    "lrep h l (xs @ [(n, a)])" "l_destroy l = l_destroy (t_list t)"
    using list_append_lrep [OF rep n room] by blast
  moreover have "dom h \<subseteq> insert n (dom (t_heap t))"
    by (rule list_ins_next_dom [OF hl(1) [unfolded list_append_def]])
  moreover have "tab (t\<lparr>t_store := (t_store t)(a \<mapsto> e), t_heap := h, t_list := l, t_calls := k\<rparr>)
      (xs @ [(n, a)]) (es @ [e])"
  proof -
    have "map (\<lambda>x. ((t_store t)(a \<mapsto> e)) (snd x)) xs = map (\<lambda>x. t_store t (snd x)) xs"
      by (rule map_store_other [OF a])
    also have "\<dots> = map Some es" using t unfolding tab_def by blast
    finally have "map (\<lambda>x. ((t_store t)(a \<mapsto> e)) (snd x)) (xs @ [(n, a)]) = map Some (es @ [e])"
      by (simp only: map_append) simp
    with t a hl(2) show ?thesis by (simp add: tab_def del: fun_upd_apply map_append) simp
  qed
  ultimately show ?thesis by blast
qed

text \<open>The line in its buffer, with the terminating zero and old bytes behind it.\<close>

lemma line_buffer:
  assumes "length buff = 128" and "length cs \<le> 127"
  defines "b \<equiv> cs @ 0 # drop (Suc (length cs)) buff"
  shows "wrn buff 0 (cs @ [0]) = Some b" "length b = 128" "strchr_off b 0x2F = strchr_off (cs @ [0]) 0x2F"
    "p < length cs \<Longrightarrow> take p b = take p cs"
    "p < length cs \<Longrightarrow> strchr_off (drop (p + 1) b) 0x23 = strchr_off (drop (p + 1) cs @ [0]) 0x23"
    "p < length cs \<Longrightarrow> e < length (drop (p + 1) cs) \<Longrightarrow> take e (drop (p + 1) b) = take e (drop (p + 1) cs)"
proof -
  show "wrn buff 0 (cs @ [0]) = Some b" "length b = 128" using assms by (simp_all add: wrn_def)
  show "strchr_off b 0x2F = strchr_off (cs @ [0]) 0x2F" unfolding b_def by (rule strchr_off_nul) simp
  assume p: "p < length cs"
  then show "take p b = take p cs" by (simp add: b_def)
  have d: "drop (p + 1) b = drop (p + 1) cs @ 0 # drop (Suc (length cs)) buff" using p by (simp add: b_def)
  show "strchr_off (drop (p + 1) b) 0x23 = strchr_off (drop (p + 1) cs @ [0]) 0x23"
    unfolding d by (rule strchr_off_nul) simp
  show "take e (drop (p + 1) b) = take e (drop (p + 1) cs)" if "e < length (drop (p + 1) cs)"
    unfolding d using that by simp
qed

text \<open>A line whose address part is not too long: what becomes of the block of this turn.\<close>

lemma pars_line_skips:
  assumes buff: "length buff = 128" and cs: "length cs \<le> 127" "safe_line cs" and a: "t_store t a = Some fresh_ip"
    and line: "parse_line cs = None"
  shows "\<exists>b' c. pars_line mal t a buff cs = Some (t\<lparr>t_store := (t_store t)(a \<mapsto> c)\<rparr>, b') \<and> length b' = 128"
proof -
  note b = line_buffer [OF buff cs(1)]
  show ?thesis
  proof (cases "strchr_off (cs @ [0]) 0x2F")
    case None
    then have "pars_line mal t a buff cs = Some (t, cs @ 0 # drop (Suc (length cs)) buff)"
      using b(1,3) by (simp add: pars_line_def)
    moreover have "t\<lparr>t_store := (t_store t)(a \<mapsto> fresh_ip)\<rparr> = t" using a by (simp add: fun_upd_idem)
    ultimately show ?thesis using b(2) by metis
  next
    case (Some p)
    then have p: "p < length cs" "p \<le> 64" using strchr_off_le [of "0x2F" cs p] cs(2) by (auto simp: safe_line_def)
    then have "wrn (ci_ip fresh_ip) 0 (take p cs) = Some (take p cs @ replicate (64 - p) 0)"
      using pad_write [of "take p cs" 64] by (simp add: fresh_ip_def COAP_IP_LEN_def min_def)
    with b p Some line a show ?thesis
      by (auto simp: pars_line_def parse_line_def Let_def split: option.splits)
  qed
qed

lemma pars_line_adds:
  assumes buff: "length buff = 128" and cs: "length cs \<le> 127" "safe_line cs" and a: "t_store t a = Some fresh_ip"
    and line: "parse_line cs = Some ips" and app: "list_append (mal (t_calls t)) (t_heap t) (t_list t) a = Some (0, h, l)"
  shows "pars_line mal t a buff cs =
     Some (t\<lparr>t_store := (t_store t)(a \<mapsto> ip_entry ips), t_heap := h, t_list := l, t_calls := t_calls t + 1\<rparr>,
       replicate 128 0)"
proof -
  note b = line_buffer [OF buff cs(1)]
  obtain p e where pe: "strchr_off (cs @ [0]) 0x2F = Some p" "strchr_off (drop (p + 1) cs @ [0]) 0x23 = Some e"
    "ips = (take p cs, take e (drop (p + 1) cs))"
    using line by (auto simp: parse_line_def split: option.splits)
  then have p: "p < length cs" "p \<le> 64" and e: "e < length (drop (p + 1) cs)"
    using strchr_off_le [of "0x2F" cs p] strchr_off_le [of "0x23" "drop (p + 1) cs" e] cs(2)
    by (auto simp: safe_line_def)
  have "wrn (ci_ip fresh_ip) 0 (take p cs) = Some (take p cs @ replicate (64 - p) 0)"
    using p pad_write [of "take p cs" 64] by (simp add: fresh_ip_def COAP_IP_LEN_def min_def)
  moreover have "wrn (ci_path fresh_ip) 0 (take e (drop (p + 1) cs)) =
      Some (take e (drop (p + 1) cs) @ replicate (128 - e) 0)"
    using e cs(1) pad_write [of "take e (drop (p + 1) cs)" 128] by (simp add: fresh_ip_def COAP_PATH_LEN_def min_def)
  ultimately show ?thesis
    using b(1-3) b(4,5) [OF p(1)] b(6) [OF p(1) e] pe a app p e
    by (simp add: pars_line_def ip_entry_def fresh_ip_def Let_def min_def)
qed

lemma pars_line_spec:
  assumes buff: "length buff = 128" and cs: "length cs \<le> 127" "safe_line cs"
    and t: "tab t xs es" and a: "a \<notin> snd ` set xs" "t_store t a = Some fresh_ip"
    and n: "mal (t_calls t) = Some n" "t_heap t n = None" and room: "length xs < 2147483647"
  shows "\<exists>t' b' xs'. pars_line mal t a buff cs = Some (t', b') \<and> length b' = 128 \<and>
     tab t' xs' (es @ line_entries cs) \<and> length xs' \<le> Suc (length xs) \<and> t_calls t \<le> t_calls t' \<and>
     dom (t_store t') = dom (t_store t) \<and> l_destroy (t_list t') = l_destroy (t_list t) \<and>
     (t_heap t' = t_heap t \<or> t_calls t' = Suc (t_calls t) \<and> dom (t_heap t') \<subseteq> insert n (dom (t_heap t)))"
proof (cases "parse_line cs")
  case None
  obtain b' c where r: "pars_line mal t a buff cs = Some (t\<lparr>t_store := (t_store t)(a \<mapsto> c)\<rparr>, b')" "length b' = 128"
    using pars_line_skips [OF buff cs a(2) None] by blast
  have "tab (t\<lparr>t_store := (t_store t)(a \<mapsto> c)\<rparr>) xs es"
    using tab_store_other [OF t a(1), where v = "Some c" and k = "t_calls t"] by simp
  with r None a(2) show ?thesis
    by (intro exI [of _ "t\<lparr>t_store := (t_store t)(a \<mapsto> c)\<rparr>"] exI [of _ b'] exI [of _ xs]) (auto simp: line_entries_def)
next
  case (Some ips)
  obtain h l where hl: "list_append (Some n) (t_heap t) (t_list t) a = Some (0, h, l)"
    "l_destroy l = l_destroy (t_list t)" "dom h \<subseteq> insert n (dom (t_heap t))"
    "tab (t\<lparr>t_store := (t_store t)(a \<mapsto> ip_entry ips), t_heap := h, t_list := l, t_calls := t_calls t + 1\<rparr>)
       (xs @ [(n, a)]) (es @ [ip_entry ips])"
    using tab_append [OF t a(1) n(2) room] by blast
  from pars_line_adds [OF buff cs a(2) Some, of mal h l] hl n(1) Some a(2) show ?thesis
    by (auto simp: line_entries_def)
qed

subsection \<open>The whole file\<close>

lemma fgets_last:
  assumes "length (fgets_chars 128 rest) < 127" and "last (fgets_chars 128 rest) \<noteq> 10"
  shows "drop (length (fgets_chars 128 rest)) rest = []"
  using assms by (auto simp: fgets_chars_def Let_def min_def split: if_splits)

lemma tab_lengths: "tab t xs es \<Longrightarrow> length xs = length es"
  unfolding tab_def by (metis length_map)

lemma tab_live: "tab t xs es \<Longrightarrow> snd ` set xs \<subseteq> dom (t_store t)"
proof
  fix a assume t: "tab t xs es" and "a \<in> snd ` set xs"
  then obtain i where "i < length xs" "a = snd (xs ! i)" by (auto simp: in_set_conv_nth)
  moreover have "map (\<lambda>x. t_store t (snd x)) xs ! i = map Some es ! i" using t by (simp add: tab_def)
  ultimately show "a \<in> dom (t_store t)" using tab_lengths [OF t] by auto
qed

text \<open>What one turn needs and keeps: \<open>k\<close> bytes are still to be read.\<close>

definition tab_inv :: "(nat \<Rightarrow> addr) \<Rightarrow> iptab \<Rightarrow> (addr \<times> addr) list \<Rightarrow> coapIP list \<Rightarrow> nat \<Rightarrow> bool" where
  "tab_inv f t xs es k \<longleftrightarrow> tab t xs es \<and> new_from f t \<and> length xs + k < 2147483647"

lemma tab_inv_alloc:
  assumes "tab_inv f t xs es k"
  defines "t1 \<equiv> t\<lparr>t_store := (t_store t)(f (t_calls t) \<mapsto> fresh_ip), t_calls := t_calls t + 1\<rparr>"
  shows "tab_inv f t1 xs es k" and "f (t_calls t) \<notin> snd ` set xs"
    and "t_store t1 (f (t_calls t)) = Some fresh_ip" and "t_heap t1 (f (t_calls t1)) = None"
proof -
  have t: "tab t xs es" and n: "inj f" "\<forall>i \<ge> t_calls t. t_heap t (f i) = None \<and> t_store t (f i) = None"
    using assms(1) by (auto simp: tab_inv_def new_from_def)
  show new: "f (t_calls t) \<notin> snd ` set xs" using tab_live [OF t] n(2) by auto
  show "tab_inv f t1 xs es k"
    using tab_store_other [OF t new, where v = "Some fresh_ip" and k = "t_calls t + 1"] assms(1) n
    by (auto simp: tab_inv_def new_from_def t1_def dest: injD)
  show "t_store t1 (f (t_calls t)) = Some fresh_ip" "t_heap t1 (f (t_calls t1)) = None"
    using n(2) by (simp_all add: t1_def)
qed

lemma pars_line_inv:
  assumes inv: "tab_inv f t xs es (Suc k)" and a: "a \<notin> snd ` set xs" "t_store t a = Some fresh_ip"
    and h: "t_heap t (f (t_calls t)) = None"
    and buff: "length buff = 128" and cs: "length cs \<le> 127" "safe_line cs"
  shows "\<exists>t' b' xs'. pars_line (mallocs f) t a buff cs = Some (t', b') \<and> length b' = 128 \<and>
     tab_inv f t' xs' (es @ line_entries cs) k \<and> l_destroy (t_list t') = l_destroy (t_list t)"
proof -
  have t: "tab t xs es" and n: "new_from f t" and room: "length xs < 2147483647" "length xs + Suc k < 2147483647"
    using inv by (auto simp: tab_inv_def)
  have m: "(mallocs f) (t_calls t) = Some (f (t_calls t))" by (rule mallocs_Some)
  obtain t' b' xs' where r: "pars_line (mallocs f) t a buff cs = Some (t', b')" "length b' = 128"
    "tab t' xs' (es @ line_entries cs)" "length xs' \<le> Suc (length xs)" "t_calls t \<le> t_calls t'"
    "dom (t_store t') = dom (t_store t)" "l_destroy (t_list t') = l_destroy (t_list t)"
    "t_heap t' = t_heap t \<or> t_calls t' = Suc (t_calls t) \<and> dom (t_heap t') \<subseteq> insert (f (t_calls t)) (dom (t_heap t))"
    using pars_line_spec [where mal = "mallocs f", OF buff cs t a m h room(1)] by blast
  have "t_heap t' (f i) = None \<and> t_store t' (f i) = None" if i: "i \<ge> t_calls t'" for i
  proof
    have old: "t_heap t (f i) = None" "t_store t (f i) = None" "inj f"
      using n i r(5) by (auto simp: new_from_def)
    then show "t_store t' (f i) = None" using r(6) by (metis domIff)
    have "t_calls t' = Suc (t_calls t) \<Longrightarrow> f i \<noteq> f (t_calls t)" using i old(3) by (simp add: inj_eq)
    then show "t_heap t' (f i) = None" using r(8) old(1) by auto
  qed
  then have "new_from f t'" using n by (simp add: new_from_def)
  then have "tab_inv f t' xs' (es @ line_entries cs) k" using r(3,4) room(2) by (auto simp: tab_inv_def)
  with r(1,2,7) show ?thesis by blast
qed

lemma pars_loop_spec:
  assumes "tab_inv f t xs es (length rest)" and "length buff = 128" and "\<forall>cs \<in> set (chunks rest). safe_line cs"
  shows "\<exists>t' xs'. pars_loop (mallocs f) t buff rest False = Some (Running t') \<and>
     tab_inv f t' xs' (es @ file_entries rest) 0 \<and> l_destroy (t_list t') = l_destroy (t_list t)"
  using assms
proof (induction rest arbitrary: t xs es buff rule: chunks.induct)
  case (1 rest)
  let ?a = "f (t_calls t)"
  define t1 where "t1 = t\<lparr>t_store := (t_store t)(?a \<mapsto> fresh_ip), t_calls := t_calls t + 1\<rparr>"
  note alloc = tab_inv_alloc [OF "1.prems"(1), folded t1_def]
  have d1: "l_destroy (t_list t1) = l_destroy (t_list t)" by (simp add: t1_def)
  have eof: "pars_loop (mallocs f) u b r True = Some (Running u)" for u b r by (simp add: pars_loop.simps)
  define cs where "cs = fgets_chars 128 rest"
  show ?case
  proof (cases "rest = []")
    case True
    then have "pars_loop (mallocs f) t buff rest False = Some (Running t1)"
      by (simp add: pars_loop.simps [of _ t] mallocs_Some fgets_def fgets_chars_def eof t1_def)
    moreover have "file_entries rest = []" using True by (simp add: file_entries_def chunks.simps)
    ultimately show ?thesis using alloc(1) d1 True by (auto simp: tab_inv_def)
  next
    case False
    define rest' where "rest' = drop (length cs) rest"
    have ne: "cs \<noteq> []" "length cs \<le> 127" "length cs \<le> length rest"
      using False fgets_chars_Nil [of rest] length_fgets_chars [of 128 rest] by (auto simp: cs_def)
    have ch: "chunks rest = cs # chunks rest'" using False by (simp add: chunks.simps [of rest] cs_def rest'_def)
    have "Suc (length rest') \<le> length rest" using ne by (cases cs) (auto simp: rest'_def)
    then have inv: "tab_inv f t1 xs es (Suc (length rest'))" using alloc(1) by (auto simp: tab_inv_def)
    obtain t2 b2 xs2 where l: "pars_line (mallocs f) t1 ?a buff cs = Some (t2, b2)" "length b2 = 128"
      "tab_inv f t2 xs2 (es @ line_entries cs) (length rest')" "l_destroy (t_list t2) = l_destroy (t_list t)"
      using pars_line_inv [OF inv alloc(2-4) "1.prems"(2) ne(2)] "1.prems"(3) ch d1 by auto
    have fe: "file_entries rest = line_entries cs @ file_entries rest'" by (simp add: file_entries_def ch)
    let ?eof = "length cs < 127 \<and> last cs \<noteq> 10"
    have step: "pars_loop (mallocs f) t buff rest False = pars_loop (mallocs f) t2 b2 rest' ?eof"
      using l(1) ne(1) by (simp add: pars_loop.simps [of _ t] mallocs_Some fgets_def cs_def [symmetric] rest'_def t1_def)
    show ?thesis
    proof (cases ?eof)
      case True
      then have "rest' = []" unfolding rest'_def cs_def by (intro fgets_last) auto
      then have "file_entries rest' = []" by (simp add: file_entries_def chunks.simps)
      with True step eof l(3,4) fe \<open>rest' = []\<close> show ?thesis by (auto simp: tab_inv_def)
    next
      case no: False
      have "\<forall>cs \<in> set (chunks rest'). safe_line cs" using "1.prems"(3) ch by simp
      from "1.IH" [OF False, folded cs_def rest'_def, OF l(3,2) this] no step l(4) fe show ?thesis
        by auto
    qed
  qed
qed

text \<open>Nodes come from \<open>malloc\<close> only.\<close>

lemma pars_line_nodes:
  assumes "pars_line (mallocs f) t a buff cs = Some (t', b')"
  shows "dom (t_heap t') \<subseteq> dom (t_heap t) \<union> f ` {t_calls t..} \<and> t_calls t \<le> t_calls t'"
  using assms
  by (auto simp: pars_line_def mallocs_def list_append_def list_ins_next_def Let_def
      split: option.splits bind_splits if_splits)

lemma pars_loop_nodes:
  "pars_loop (mallocs f) t buff rest eof = Some (Running t') \<Longrightarrow>
     dom (t_heap t') \<subseteq> dom (t_heap t) \<union> f ` {t_calls t..}"
proof (induction "mallocs f" t buff rest eof rule: pars_loop.induct)
  case (1 t buff rest eof)
  show ?case
  proof (cases eof)
    case True
    with "1.prems" show ?thesis by (simp add: pars_loop.simps [of _ t])
  next
    case False
    let ?t1 = "t\<lparr>t_store := (t_store t)(f (t_calls t) \<mapsto> fresh_ip), t_calls := t_calls t + 1\<rparr>"
    obtain r rest' eof' where fg: "fgets 128 rest = (r, rest', eof')" by (metis prod_cases3)
    show ?thesis
    proof (cases r)
      case None
      have "pars_loop (mallocs f) ?t1 buff rest' eof' = Some (Running t')"
        using "1.prems" False fg None by (simp add: pars_loop.simps [of _ t] mallocs_Some)
      from "1.hyps"(1) [OF False mallocs_Some refl fg [symmetric] None refl this] show ?thesis by auto
    next
      case (Some cs)
      obtain t2 b2 where l: "pars_line (mallocs f) ?t1 (f (t_calls t)) buff cs = Some (t2, b2)"
        "pars_loop (mallocs f) t2 b2 rest' eof' = Some (Running t')"
        using "1.prems" False fg Some by (auto simp: pars_loop.simps [of _ t] mallocs_Some split: option.splits)
      have n: "dom (t_heap t2) \<subseteq> dom (t_heap t) \<union> f ` {t_calls t + 1..}" "t_calls t + 1 \<le> t_calls t2"
        using pars_line_nodes [OF l(1)] by simp_all
      have "f ` {t_calls t + 1..} \<subseteq> f ` {t_calls t..}" "f ` {t_calls t2..} \<subseteq> f ` {t_calls t..}"
        using n(2) by (auto intro!: image_mono)
      with "1.hyps"(2) [OF False mallocs_Some refl fg [symmetric] Some refl l(1) refl l(2)] n(1)
      show ?thesis by blast
    qed
  qed
qed

subsection \<open>Reading the table anew\<close>

lemma run_free:
  "distinct bs \<Longrightarrow> set bs \<subseteq> dom s \<Longrightarrow> run_destroy (Some free_ip) bs s = Some (s |` (- set bs))"
proof (induction bs arbitrary: s)
  case (Cons a bs)
  then obtain v where v: "s a = Some v" by auto
  have "run_destroy (Some free_ip) bs (s(a := None)) = Some (s(a := None) |` (- set bs))"
    using Cons by (intro Cons.IH) auto
  moreover have "s(a := None) |` (- set bs) = s |` (- set (a # bs))" by (auto simp: restrict_map_def)
  moreover have "run_destroy (Some free_ip) (a # bs) s = run_destroy (Some free_ip) bs (s(a := None))"
    using v by (simp add: free_ip_def [of a])
  ultimately show ?case by simp
qed (simp add: restrict_map_def)

text \<open>The table after \<open>list_clean\<close>.\<close>

definition cleaned :: "iptab \<Rightarrow> (addr \<times> addr) list \<Rightarrow> iptab" where
  "cleaned t xs =
     (if xs = [] then t
      else t\<lparr>t_heap := t_heap t |` (- (fst ` set xs)),
        t_list := \<lparr>l_size = 0, l_destroy = Some free_ip, l_head = None, l_tail = None\<rparr>,
        t_store := t_store t |` (- (snd ` set xs))\<rparr>)"

lemma table_cleaned:
  assumes t: "tab t xs es" "l_destroy (t_list t) = Some free_ip" and size: "length xs < 2147483647"
  shows "(if l_size (t_list t) > 0 then
      map_option (\<lambda>(h, l, s). t\<lparr>t_heap := h, t_list := l, t_store := s\<rparr>)
        (list_clean (t_heap t) (t_list t) (t_store t)) else Some t) = Some (cleaned t xs)"
proof -
  have rep: "lrep (t_heap t) (t_list t) xs" and dist: "distinct (map snd xs)" using t(1) by (auto simp: tab_def)
  show ?thesis
  proof (cases "xs = []")
    case True
    with rep show ?thesis by (simp add: lrep_def cleaned_def)
  next
    case False
    with rep have "0 < l_size (t_list t)" by (simp add: lrep_def)
    moreover have "run_destroy (Some free_ip) (map snd xs) (t_store t) = Some (t_store t |` (- (snd ` set xs)))"
      using run_free [OF dist, of "t_store t"] tab_live [OF t(1)] by simp
    ultimately show ?thesis
      using list_clean_lrep [OF rep size, of "t_store t"] t(2) False by (simp add: cleaned_def)
  qed
qed

lemma ParsTxt_cleans:
  assumes "tab t xs es" "l_destroy (t_list t) = Some free_ip" and "length xs < 2147483647"
  shows "ParsTxt mal t buff (Some cont) = pars_loop mal (cleaned t xs) buff cont False"
  using table_cleaned [OF assms] by (simp add: ParsTxt_def)

lemma ParsTxt_spec:
  assumes t: "tab t xs es" "l_destroy (t_list t) = Some free_ip" "new_from f t"
    and buff: "length buff = 128" and safe: "\<forall>cs \<in> set (chunks cont). safe_line cs"
    and size: "length xs < 2147483647" "length cont < 2147483647"
  shows "\<exists>t' xs'. ParsTxt (mallocs f) t buff (Some cont) = Some (Running t') \<and>
     tab t' xs' (file_entries cont) \<and> l_destroy (t_list t') = Some free_ip \<and> new_from f t' \<and>
     length xs' < 2147483647"
proof -
  have "lrep (t_heap t) (t_list t) xs" using t(1) by (simp add: tab_def)
  then have "tab_inv f (cleaned t xs) [] [] (length cont)"
    using t size(2)
    by (auto simp: tab_inv_def tab_def cleaned_def new_from_def lrep_def restrict_map_def)
  from pars_loop_spec [OF this buff safe] have
    "\<exists>t' xs'. pars_loop (mallocs f) (cleaned t xs) buff cont False = Some (Running t') \<and>
       tab_inv f t' xs' (file_entries cont) 0 \<and> l_destroy (t_list t') = l_destroy (t_list (cleaned t xs))" by simp
  moreover have "l_destroy (t_list (cleaned t xs)) = Some free_ip" using t(2) by (simp add: cleaned_def)
  ultimately show ?thesis by (auto simp: ParsTxt_cleans [OF t(1,2) size(1)] tab_inv_def)
qed

text \<open>The nodes of the old table are gone.\<close>

lemma ParsTxt_frees:
  assumes "tab t xs es" "l_destroy (t_list t) = Some free_ip" "new_from f t" "length xs < 2147483647"
    and "ParsTxt (mallocs f) t buff (Some cont) = Some (Running t')" and "p \<in> fst ` set xs"
  shows "t_heap t' p = None"
proof -
  have "pars_loop (mallocs f) (cleaned t xs) buff cont False = Some (Running t')"
    using ParsTxt_cleans [OF assms(1,2,4)] assms(5) by simp
  from pars_loop_nodes [OF this] have "dom (t_heap t') \<subseteq> dom (t_heap (cleaned t xs)) \<union> f ` {t_calls t..}"
    by (simp add: cleaned_def split: if_splits)
  moreover have "p \<notin> dom (t_heap (cleaned t xs))" 
    using assms(6) by (cases "xs = []") (simp_all add: cleaned_def restrict_map_def domIff)
  moreover have "t_heap t p \<noteq> None"
    using assms(1,6) chain_in_heap by (fastforce simp: tab_def lrep_def)
  then have "p \<notin> f ` {t_calls t..}" using assms(3) by (auto simp: new_from_def)
  ultimately show ?thesis by auto
qed

subsection \<open>Files of device lines\<close>

definition dev_line :: "u8 list \<times> u8 list \<Rightarrow> u8 list" where
  "dev_line d = fst d @ 0x2F # snd d @ [0x23, 10]"

definition dev_ok :: "u8 list \<times> u8 list \<Rightarrow> bool" where
  "dev_ok d \<longleftrightarrow>
     set (fst d) \<inter> {0, 10, 0x2F} = {} \<and> set (snd d) \<inter> {0, 10, 0x23} = {} \<and> length (fst d) < 64 \<and>
     length (fst d) + length (snd d) \<le> 124"

lemma chunks_line:
  assumes "10 \<notin> set pre" and "length pre < 127"
  shows "chunks (pre @ 10 # rest) = (pre @ [10]) # chunks rest"
proof -
  have t: "take 127 (pre @ 10 # rest) = pre @ 10 # take (126 - length pre) rest"
    using assms(2) by (simp add: take_Cons' Suc_diff_Suc)
  have "takeWhile (\<lambda>c. c \<noteq> 10) (pre @ 10 # take (126 - length pre) rest) = pre"
    using assms(1) by (subst takeWhile_append2) auto
  moreover have "take (128 - 1) (pre @ 10 # rest) = pre @ 10 # take (126 - length pre) rest" using t by simp
  ultimately have "fgets_chars 128 (pre @ 10 # rest) = pre @ [10]"
    unfolding fgets_chars_def Let_def by (simp only:) simp
  then show ?thesis by (simp add: chunks.simps [of "pre @ 10 # rest"])
qed

lemma dev_line_parse:
  assumes "dev_ok d"
  shows "parse_line (dev_line d) = Some d" "safe_line (dev_line d)"
proof -
  obtain i p where d: "d = (i, p)" by fastforce
  have "strchr_off (i @ 0x2F # p @ [0x23, 10, 0]) 0x2F = Some (length i)"
    using assms by (intro strchr_off_found) (auto simp: dev_ok_def d)
  moreover have "strchr_off (p @ 0x23 # [10, 0]) 0x23 = Some (length p)"
    using assms by (intro strchr_off_found) (auto simp: dev_ok_def d)
  ultimately show "parse_line (dev_line d) = Some d" "safe_line (dev_line d)"
    using assms by (simp_all add: parse_line_def safe_line_def dev_line_def d dev_ok_def)
qed

lemma chunks_devs:
  "\<forall>d \<in> set devs. dev_ok d \<Longrightarrow> chunks (concat (map dev_line devs)) = map dev_line devs"
proof (induction devs)
  case Nil
  then show ?case by (simp add: chunks.simps)
next
  case (Cons d devs)
  let ?pre = "fst d @ 0x2F # snd d @ [0x23]"
  have "10 \<notin> set ?pre" "length ?pre < 127" using Cons.prems by (auto simp: dev_ok_def)
  from chunks_line [OF this, of "concat (map dev_line devs)"]
  have "chunks (dev_line d @ concat (map dev_line devs)) = dev_line d # chunks (concat (map dev_line devs))"
    by (simp add: dev_line_def [of d])
  with Cons show ?case by simp
qed

lemma file_entries_devs:
  assumes "\<forall>d \<in> set devs. dev_ok d"
  shows "file_entries (concat (map dev_line devs)) = map ip_entry devs"
proof -
  have "concat (map line_entries (map dev_line devs)) = map ip_entry devs"
    using assms by (induction devs) (simp_all add: line_entries_def dev_line_parse)
  then show ?thesis by (simp only: file_entries_def chunks_devs [OF assms])
qed

lemma cstr_padded:
  assumes "0 \<notin> set s" and "length s < n"
  shows "cstr (s @ replicate (n - length s) 0) 0 = Some s"
proof -
  obtain k where "n - length s = Suc k" using assms(2) by (metis Suc_diff_Suc)
  then show ?thesis using cstr_prefix [OF assms(1), of "[]" "replicate k 0"] by simp
qed

lemma print_entries:
  assumes "chain (t_heap t) p xs None" and "map (\<lambda>x. t_store t (snd x)) xs = map Some (map ip_entry devs)"
    and "\<forall>d \<in> set devs. dev_ok d"
  shows "print_from t p = Some devs"
  using assms
proof (induction xs arbitrary: p devs)
  case Nil
  then show ?case by (auto simp: print_from.simps)
next
  case (Cons x xs)
  obtain a b where x: "x = (a, b)" by fastforce
  from Cons.prems(2) obtain d ds where devs: "devs = d # ds" by (cases devs) auto
  from Cons.prems(1) x obtain n where n: "p = Some a" "t_heap t a = Some \<lparr>e_data = b, e_next = n\<rparr>"
    "chain (t_heap t) n xs None" by auto
  have "t_store t b = Some (ip_entry d)" using Cons.prems(2) x devs by simp
  moreover have "print_from t n = Some ds"
    using Cons.prems devs by (intro Cons.IH [OF n(3)]) auto
  moreover have "cstr (ci_ip (ip_entry d)) 0 = Some (fst d)" "cstr (ci_path (ip_entry d)) 0 = Some (snd d)"
    using Cons.prems(3) devs by (auto simp: ip_entry_def dev_ok_def intro!: cstr_padded)
  ultimately show ?case using n(1,2) devs by (subst print_from.simps) simp
qed

text \<open>
  C27. Reading the device file.  Whatever the table held before, \<open>ParsTxt\<close> returns, frees the old
  entries, and leaves a table with exactly the entries the text says, in order: one for every line
  (of at most 127 bytes) that has a \<open>/\<close> and a \<open>#\<close> behind it; the other lines add nothing.  The
  conditions are that no address part is longer than the field of 64 bytes, and that \<open>malloc\<close> succeeds.\<close>

theorem ParsTxt_reads_file:
  assumes "tab t xs es" and "l_destroy (t_list t) = Some free_ip" and "new_from f t"
    and "length buff = 128" and "\<forall>cs \<in> set (chunks cont). safe_line cs"
    and "length xs < 2147483647" and "length cont < 2147483647"
  shows "\<exists>t' xs'. ParsTxt (mallocs f) t buff (Some cont) = Some (Running t') \<and>
     tab t' xs' (file_entries cont) \<and> l_destroy (t_list t') = Some free_ip"
  using ParsTxt_spec [OF assms] by blast

definition empty_iptab :: iptab where
  "empty_iptab = \<lparr>t_heap = Map.empty, t_list = list_init (Some free_ip), t_store = Map.empty, t_calls = 0\<rparr>"

lemma empty_iptab:
  "tab empty_iptab [] []" "l_destroy (t_list empty_iptab) = Some free_ip" "inj f \<Longrightarrow> new_from f empty_iptab"
  by (simp_all add: empty_iptab_def tab_def list_init_def lrep_def new_from_def)

text \<open>A line with an entry, a line without \<open>#\<close>, and an empty one.\<close>

definition sample_file :: "u8 list" where
  "sample_file = [0x31, 0x2F, 0x61, 0x23, 10, 0x32, 0x2F, 10, 10]"

lemma sample_chunks: "chunks sample_file = [[0x31, 0x2F, 0x61, 0x23, 10], [0x32, 0x2F, 10], [10]]"
  by (simp add: sample_file_def chunks.simps fgets_chars_def Let_def)

lemma sample_entries: "file_entries sample_file = [ip_entry ([0x31], [0x61])]"
  by (simp add: file_entries_def sample_chunks line_entries_def parse_line_def)

theorem ParsTxt_reads_file_witness:
  "\<exists>t' xs'. ParsTxt (mallocs id) empty_iptab (replicate 128 7) (Some sample_file) = Some (Running t') \<and>
     tab t' xs' [ip_entry ([0x31], [0x61])] \<and> l_destroy (t_list t') = Some free_ip"
proof -
  have "file_entries sample_file = [ip_entry ([0x31], [0x61])]"
    by (rule sample_entries)
  moreover have "\<forall>cs \<in> set (chunks sample_file). safe_line cs"
    by (simp add: sample_chunks safe_line_def)
  ultimately show ?thesis
    using ParsTxt_reads_file [OF empty_iptab(1,2) empty_iptab(3) [OF inj_on_id], of "replicate 128 7" sample_file]
    by (simp add: sample_file_def)
qed

text \<open>
  C28. Printing what was read.  A file of device lines \<open>ip/path#\<close>, with addresses shorter than the
  field, is read into a table that \<open>PrintIPtable\<close> prints as the same devices in the same order.\<close>

theorem iptable_roundtrip:
  assumes "tab t xs es" and "l_destroy (t_list t) = Some free_ip" and "new_from f t"
    and "length buff = 128" and ok: "\<forall>d \<in> set devs. dev_ok d"
    and "length xs < 2147483647" and "length (concat (map dev_line devs)) < 2147483647"
  shows "\<exists>t'. ParsTxt (mallocs f) t buff (Some (concat (map dev_line devs))) = Some (Running t') \<and>
     PrintIPtable t' = Some devs"
proof -
  let ?cont = "concat (map dev_line devs)"
  have "\<forall>cs \<in> set (chunks ?cont). safe_line cs" using ok by (auto simp: chunks_devs dev_line_parse)
  then obtain t' xs' where t': "ParsTxt (mallocs f) t buff (Some ?cont) = Some (Running t')"
    "tab t' xs' (file_entries ?cont)"
    using ParsTxt_spec [OF assms(1-4) _ assms(6,7)] by blast
  then have "chain (t_heap t') (l_head (t_list t')) xs' None"
    "map (\<lambda>x. t_store t' (snd x)) xs' = map Some (map ip_entry devs)"
    by (auto simp: tab_def lrep_def file_entries_devs [OF ok])
  from print_entries [OF this ok] t'(1) show ?thesis by (auto simp: PrintIPtable_def)
qed

theorem iptable_roundtrip_witness:
  "\<exists>t'. ParsTxt (mallocs id) empty_iptab (replicate 128 7)
       (Some (concat (map dev_line [([0x31, 0x2E, 0x32], [0x61]), ([0x33], [0x62, 0x63])]))) = Some (Running t') \<and>
     PrintIPtable t' = Some [([0x31, 0x2E, 0x32], [0x61]), ([0x33], [0x62, 0x63])]"
  by (rule iptable_roundtrip [OF empty_iptab(1,2) empty_iptab(3) [OF inj_on_id]])
    (simp_all add: dev_ok_def dev_line_def)

subsection \<open>Addresses that do not fit\<close>

lemma pars_line_overflow:
  assumes "length buff = 128" "length cs \<le> 127" "\<not> safe_line cs" "t_store t a = Some fresh_ip"
  shows "pars_line mal t a buff cs = None"
proof -
  obtain p where p: "strchr_off (cs @ [0]) 0x2F = Some p" "64 < p"
    using assms(3) by (auto simp: safe_line_def split: option.splits)
  let ?b = "cs @ 0 # drop (Suc (length cs)) buff"
  have b: "wrn buff 0 (cs @ [0]) = Some ?b" using assms by (simp add: wrn_def)
  have "strchr_off ?b 0x2F = Some p" unfolding p(1) [symmetric] by (rule strchr_off_nul) simp
  moreover have "p < length cs" using strchr_off_le [OF _ p(1)] by simp
  then have "wrn (ci_ip fresh_ip) 0 (take p ?b) = None"
    using p(2) by (simp add: wrn_def fresh_ip_def COAP_IP_LEN_def)
  ultimately show ?thesis using b assms(4) by (simp add: pars_line_def)
qed

text \<open>
  An address part that does not fit.  When the first line of the file has its first \<open>/\<close> behind
  position 64, the copy into the 64-byte field writes behind its end: the code checks no bound.\<close>

lemma ParsTxt_long_address_undefined:
  assumes "tab t xs es" and "l_destroy (t_list t) = Some free_ip" and "length xs < 2147483647"
    and "length buff = 128" and "cont \<noteq> []" and "\<not> safe_line (hd (chunks cont))"
  shows "ParsTxt (mallocs f) t buff (Some cont) = None"
proof -
  have "pars_loop (mallocs f) u buff cont False = None" for u
  proof -
    let ?cs = "fgets_chars 128 cont"
    have cs: "hd (chunks cont) = ?cs" "?cs \<noteq> []" "length ?cs \<le> 127"
      using assms(5) length_fgets_chars [of 128 cont] by (simp_all add: chunks.simps [of cont] fgets_chars_Nil)
    have "pars_line (mallocs f) (u\<lparr>t_store := (t_store u)(f (t_calls u) \<mapsto> fresh_ip), t_calls := t_calls u + 1\<rparr>)
        (f (t_calls u)) buff ?cs = None"
      using pars_line_overflow [OF assms(4) cs(3)] assms(6) cs(1) by simp
    then show ?thesis using cs(2) by (simp add: pars_loop.simps [of _ u] mallocs_Some fgets_def Let_def)
  qed
  then show ?thesis by (simp add: ParsTxt_def bind_eq_None_conv)
qed

lemma ParsTxt_long_address_undefined_witness:
  "ParsTxt (mallocs id) empty_iptab (replicate 128 7) (Some (replicate 65 0x31 @ [0x2F, 0x61, 0x23, 10])) = None"
proof (rule ParsTxt_long_address_undefined [OF empty_iptab(1,2)])
  have "strchr_off (replicate 65 0x31 @ 0x2F # [0x61, 0x23, 10, 0]) 0x2F = Some (length (replicate 65 (0x31 :: u8)))"
    by (rule strchr_off_found) auto
  moreover have "hd (chunks (replicate 65 0x31 @ [0x2F, 0x61, 0x23, 10])) = replicate 65 0x31 @ [0x2F, 0x61, 0x23, 10]"
    using chunks_line [of "replicate 65 0x31 @ [0x2F, 0x61, 0x23]" "[]"] by simp
  ultimately show "\<not> safe_line (hd (chunks (replicate 65 0x31 @ [0x2F, 0x61, 0x23, 10])))"
    by (simp add: safe_line_def)
qed simp_all

end
