(* ===== verification/Printf.thy ===== *)
theory Printf
  imports Gateway_Prelude
begin

section \<open>Conversions of \<open>printf\<close>\<close>

text \<open>
  The conversions the program uses, as the bytes they print: decimal and hexadecimal numbers, and
  strings with a precision.
\<close>

definition nl :: "u8 list" where
  "nl = [0x0A]"

subsection \<open>Decimal numbers\<close>

text \<open>The conversion \<open>%d\<close> of \<open>sprintf\<close>.\<close>

fun dec_digits :: "nat \<Rightarrow> u8 list" where
  "dec_digits n =
     (if n < 10 then [word_of_nat (48 + n)] else dec_digits (n div 10) @ [word_of_nat (48 + n mod 10)])"

declare dec_digits.simps [simp del]

definition sprintf_d :: "int \<Rightarrow> u8 list" where
  "sprintf_d k = (if k < 0 then 0x2D # dec_digits (nat (- k)) else dec_digits (nat k))"

definition is_digit :: "u8 \<Rightarrow> bool" where
  "is_digit b \<longleftrightarrow> 48 \<le> unat b \<and> unat b \<le> 57"

lemma digit_byte: "k < 10 \<Longrightarrow> unat (word_of_nat (48 + k) :: u8) = 48 + k"
  by (rule unat_of_nat_u8) simp

lemma dec_digits_digits: "b \<in> set (dec_digits n) \<Longrightarrow> is_digit b"
proof (induction n rule: dec_digits.induct)
  case (1 n)
  show ?case
  proof (cases "n < 10")
    case True
    with 1 have "b = word_of_nat (48 + n)" by (simp add: dec_digits.simps [of n])
    with True show ?thesis by (simp add: is_digit_def digit_byte del: of_nat_add)
  next
    case False
    with "1.prems" have "b \<in> set (dec_digits (n div 10)) \<or> b = word_of_nat (48 + n mod 10)"
      by (auto simp: dec_digits.simps [of n])
    with False 1 show ?thesis
      using digit_byte [of "n mod 10"] by (auto simp: is_digit_def simp del: of_nat_add)
  qed
qed

definition dec_val :: "u8 list \<Rightarrow> nat" where
  "dec_val bs = foldl (\<lambda>v b. 10 * v + (unat b - 48)) 0 bs"

lemma dec_val_digits: "dec_val (dec_digits n) = n"
proof (induction n rule: dec_digits.induct)
  case (1 n)
  show ?case
  proof (cases "n < 10")
    case True
    then show ?thesis
      using digit_byte [of n] by (simp add: dec_digits.simps [of n] dec_val_def del: of_nat_add)
  next
    case False
    with 1 digit_byte [of "n mod 10"] show ?thesis
      by (simp add: dec_digits.simps [of n] dec_val_def del: of_nat_add)
  qed
qed

lemma length_dec_digits: "0 < k \<Longrightarrow> n < 10 ^ k \<Longrightarrow> length (dec_digits n) \<le> k"
proof (induction k arbitrary: n)
  case (Suc k)
  show ?case
  proof (cases "n < 10")
    case True
    then show ?thesis by (simp add: dec_digits.simps [of n])
  next
    case False
    then have "n div 10 < 10 ^ k" "0 < k" using Suc.prems by (auto intro: Suc_lessI gr0I)
    with Suc.IH [of "n div 10"] False show ?thesis by (simp add: dec_digits.simps [of n])
  qed
qed simp

definition int32 :: "int \<Rightarrow> bool" where
  "int32 k \<longleftrightarrow> - 2147483648 \<le> k \<and> k < 2147483648"

lemma length_sprintf_d:
  assumes "int32 k"
  shows "length (sprintf_d k) \<le> 11"
proof -
  have "nat k < 10 ^ 10" "nat (- k) < 10 ^ 10" using assms by (auto simp: int32_def)
  then have "length (dec_digits (nat k)) \<le> 10" "length (dec_digits (nat (- k))) \<le> 10"
    using length_dec_digits [of 10] by auto
  then show ?thesis by (simp add: sprintf_d_def)
qed

lemma sprintf_d_inj: "sprintf_d j = sprintf_d k \<longleftrightarrow> j = k"
proof -
  have no_sign: "dec_digits n \<noteq> 0x2D # ds" for n ds
    using dec_digits_digits [of "0x2D" n] by (auto simp: is_digit_def)
  have "dec_digits m = dec_digits n \<longleftrightarrow> m = n" for m n by (metis dec_val_digits)
  then show ?thesis using no_sign no_sign [symmetric] by (auto simp: sprintf_d_def)
qed

subsection \<open>Hexadecimal numbers\<close>

definition hex_digit :: "bool \<Rightarrow> nat \<Rightarrow> u8" where
  "hex_digit upper d = word_of_nat (if d < 10 then 48 + d else if upper then 55 + d else 87 + d)"

fun hex_num :: "bool \<Rightarrow> nat \<Rightarrow> u8 list" where
  "hex_num upper n =
     (if n < 16 then [hex_digit upper n] else hex_num upper (n div 16) @ [hex_digit upper (n mod 16)])"

declare hex_num.simps [simp del]

definition pad :: "nat \<Rightarrow> u8 \<Rightarrow> u8 list \<Rightarrow> u8 list" where
  "pad k c s = replicate (k - length s) c @ s"

text \<open>\<open>%02X\<close> and \<open>%02hhx\<close> of a byte.\<close>

definition hex2 :: "bool \<Rightarrow> u8 \<Rightarrow> u8 list" where
  "hex2 upper b = pad 2 0x30 (hex_num upper (unat b))"

definition hex_val :: "u8 \<Rightarrow> nat" where
  "hex_val c =
     (if 48 \<le> unat c \<and> unat c \<le> 57 then unat c - 48
      else if 65 \<le> unat c \<and> unat c \<le> 70 then unat c - 55
      else unat c - 87)"

lemma hex_val_digit: "d < 16 \<Longrightarrow> hex_val (hex_digit upper d) = d"
proof -
  assume d: "d < 16"
  have "unat (word_of_nat n :: u8) = n" if "n < 256" for n by (rule unat_of_nat_u8 [OF that])
  with d show ?thesis by (auto simp: hex_val_def hex_digit_def simp del: of_nat_add unat_of_nat)
qed

lemma hex2_digits: "hex2 upper b = [hex_digit upper (unat b div 16), hex_digit upper (unat b mod 16)]"
proof -
  have "unat b div 16 < 16" using u8_less [of b] by (simp add: div_less_iff_less_mult)
  moreover have "hex_digit upper 0 = 0x30" by (simp add: hex_digit_def)
  ultimately show ?thesis
    by (simp add: hex2_def pad_def hex_num.simps [of upper "unat b"] hex_num.simps [of upper "unat b div 16"])
qed

lemma length_hex2 [simp]: "length (hex2 upper b) = 2"
  by (simp add: hex2_digits)

text \<open>Reading two digits back.\<close>

definition read_hex2 :: "u8 \<Rightarrow> u8 \<Rightarrow> u8" where
  "read_hex2 x y = word_of_nat (16 * hex_val x + hex_val y)"

lemma read_hex2: "hex2 upper b = [x, y] \<Longrightarrow> read_hex2 x y = b"
proof -
  assume "hex2 upper b = [x, y]"
  then have x: "x = hex_digit upper (unat b div 16)" and y: "y = hex_digit upper (unat b mod 16)"
    by (simp_all add: hex2_digits)
  have "unat b div 16 < 16" using u8_less [of b] by (simp add: div_less_iff_less_mult)
  then have "16 * hex_val x + hex_val y = unat b" by (simp add: x y hex_val_digit)
  then show ?thesis by (simp add: read_hex2_def)
qed

subsection \<open>Strings with a precision\<close>

text \<open>
  \<open>%.*s\<close> of the array \<open>b\<close> from offset \<open>p\<close>, with the precision \<open>(int) n\<close>: up to a zero byte or \<open>n\<close> bytes.  A
  precision that converts to a negative number counts as none.  Running off the array is undefined.
\<close>

definition prec_s :: "u8 list \<Rightarrow> nat \<Rightarrow> nat \<Rightarrow> u8 list option" where
  "prec_s b p n =
     (let k = n mod 2 ^ 32; s = takeWhile (\<lambda>c. c \<noteq> 0) (if k < 2 ^ 31 then take k (drop p b) else drop p b) in
      if p > length b \<or> (length s = length b - p \<and> (k \<ge> 2 ^ 31 \<or> length s < k)) then None else Some s)"

lemma prec_s_inside:
  assumes "p + n \<le> length b" and "n < 2 ^ 31"
  shows "prec_s b p n = Some (takeWhile (\<lambda>c. c \<noteq> 0) (take n (drop p b)))"
proof -
  have k: "n mod 2 ^ 32 = n" using assms(2) by simp
  have "length (takeWhile (\<lambda>c. c \<noteq> 0) (take n (drop p b))) \<le> n"
    by (rule order_trans [OF length_takeWhile_le]) simp
  with assms k show ?thesis by (auto simp: prec_s_def Let_def)
qed

text \<open>\<open>%zi\<close> of a \<open>size_t\<close>, which is printed as a signed number.\<close>

definition sprintf_zi :: "nat \<Rightarrow> u8 list" where
  "sprintf_zi n = sprintf_d (if n mod 2 ^ 64 < 2 ^ 63 then int (n mod 2 ^ 64) else int (n mod 2 ^ 64) - 2 ^ 64)"

end
