(* ===== verification/Clients.thy ===== *)
theory Clients
  imports Iptable Printf
begin

section \<open>Starting and restarting the clients: user/main.c\<close>

text \<open>
  \<open>CreatCoapclient\<close> reads the device table and forks one client process per device; parent and child
  agree on a fifo named after the child's pid.  \<open>UpdateCoapclient\<close>, run by the signal handler
  \<open>Tftp_Sig\<close> after a new table has arrived, stops all clients and starts over.  The results of the
  system calls are arguments, one record per turn of the loop.  A process may go on (\<open>Cont\<close>), end
  (\<open>Exit\<close>) or, in the child of a fork, become the client of a device (\<open>Client\<close>), which never returns.
\<close>

subsection \<open>The name of a fifo\<close>

definition fifo_name :: "int \<Rightarrow> u8 list" where
  "fifo_name key = bytes ''/tmp/'' @ sprintf_d key @ bytes ''_fifo''"

definition GetfifoName :: "u8 list \<Rightarrow> nat \<Rightarrow> int \<Rightarrow> u8 list option" where
  "GetfifoName nameBuf bufLen key =
     do {
       b \<leftarrow> wrn nameBuf 0 (replicate bufLen 0);
       wrn b 0 (fifo_name key @ [0])
     }"

subsection \<open>Creating the clients\<close>

record fork_env =
  fe_pid :: int
  fe_exists :: bool
  fe_mkfifo :: int
  fe_open :: int

datatype proc_event = Kill_client int | Wait_child | Make_fifo "u8 list" | Open_fifo "u8 list"

datatype 'a proc = Exit | Client addr | Cont 'a

text \<open>The body of the loop for the device block at \<open>d\<close>.\<close>

definition creat_one ::
  "fork_env \<Rightarrow> iptab \<Rightarrow> u8 list \<Rightarrow> addr \<Rightarrow> (iptab \<times> u8 list \<times> proc_event list) proc option" where
  "creat_one e t fifo d =
     (if fe_pid e = 0 then Some (Client d)
      else if fe_pid e < 0 then Some (Cont (t, fifo, []))
      else
        do {
          fifo1 \<leftarrow> GetfifoName fifo 64 (fe_pid e);
          blk \<leftarrow> t_store t d;
          let blk1 = blk\<lparr>ci_pid := Some (fe_pid e)\<rparr>;
          name \<leftarrow> cstr fifo1 0;
          if \<not> fe_exists e \<and> fe_mkfifo e \<noteq> 0 then Some Exit
          else if fe_open e = -1 then Some Exit
          else
            Some (Cont (t\<lparr>t_store := (t_store t)(d \<mapsto> blk1\<lparr>ci_fifo_fd := Some (fe_open e)\<rparr>)\<rparr>, fifo1,
              (if fe_exists e then [] else [Make_fifo name]) @ [Open_fifo name]))
        })"

definition prepend :: "proc_event list \<Rightarrow> (iptab \<times> proc_event list) proc \<Rightarrow> (iptab \<times> proc_event list) proc" where
  "prepend evs r = (case r of Exit \<Rightarrow> Exit | Client d \<Rightarrow> Client d | Cont (t, evs') \<Rightarrow> Cont (t, evs @ evs'))"

partial_function (option) creat_from ::
  "(nat \<Rightarrow> fork_env) \<Rightarrow> nat \<Rightarrow> iptab \<Rightarrow> u8 list \<Rightarrow> addr option \<Rightarrow> (iptab \<times> proc_event list) proc option" where
  "creat_from env i t fifo ptr =
     (case ptr of
        None \<Rightarrow> Some (Cont (t, []))
      | Some a \<Rightarrow>
          Option.bind (t_heap t a) (\<lambda>el.
          Option.bind (creat_one (env i) t fifo (e_data el)) (\<lambda>r.
            (case r of
               Exit \<Rightarrow> Some Exit
             | Client d \<Rightarrow> Some (Client d)
             | Cont (t1, fifo1, evs) \<Rightarrow>
                 Option.bind (creat_from env (Suc i) t1 fifo1 (e_next el)) (\<lambda>r'. Some (prepend evs r'))))))"

definition CreatCoapclient ::
  "(nat \<Rightarrow> addr option) \<Rightarrow> u8 list \<Rightarrow> u8 list option \<Rightarrow> (nat \<Rightarrow> fork_env) \<Rightarrow> iptab
     \<Rightarrow> (iptab \<times> proc_event list) proc option" where
  "CreatCoapclient mal buff0 file env t =
     (case ParsTxt mal t buff0 file of
        None \<Rightarrow> None
      | Some Exited \<Rightarrow> Some Exit
      | Some (Running t1) \<Rightarrow> creat_from env 0 t1 (replicate 64 0) (l_head (t_list t1)))"

subsection \<open>Restarting the clients\<close>

text \<open>The loop that stops the clients; a \<open>pid\<close> that was never set is undefined.\<close>

partial_function (option) kill_from :: "iptab \<Rightarrow> addr option \<Rightarrow> proc_event list option" where
  "kill_from t ptr =
     (case ptr of
        None \<Rightarrow> Some []
      | Some a \<Rightarrow>
          Option.bind (t_heap t a) (\<lambda>el.
          Option.bind (t_store t (e_data el)) (\<lambda>blk.
          Option.bind (ci_pid blk) (\<lambda>pid.
          Option.bind (kill_from t (e_next el)) (\<lambda>evs. Some (Kill_client pid # Wait_child # evs))))))"

definition UpdateCoapclient ::
  "(nat \<Rightarrow> addr option) \<Rightarrow> u8 list \<Rightarrow> u8 list option \<Rightarrow> (nat \<Rightarrow> fork_env) \<Rightarrow> iptab
     \<Rightarrow> (iptab \<times> proc_event list) proc option" where
  "UpdateCoapclient mal buff0 file env t =
     do {
       evs \<leftarrow> (if l_size (t_list t) > 0 then kill_from t (l_head (t_list t)) else Some []);
       r \<leftarrow> CreatCoapclient mal buff0 file env t;
       Some (prepend evs r)
     }"

definition Tftp_Sig ::
  "(nat \<Rightarrow> addr option) \<Rightarrow> u8 list \<Rightarrow> u8 list option \<Rightarrow> (nat \<Rightarrow> fork_env) \<Rightarrow> iptab
     \<Rightarrow> (iptab \<times> proc_event list) proc option" where
  "Tftp_Sig mal buff0 file env t = UpdateCoapclient mal buff0 file env t"

subsection \<open>Names of fifos are distinct and fit\<close>

lemma fifo_name_nonzero: "0 \<notin> set (fifo_name k)"
  using dec_digits_digits [of 0] by (auto simp: fifo_name_def sprintf_d_def bytes_def is_digit_def split: if_splits)

lemma GetfifoName_ok:
  assumes "length buf = 64" and "int32 key"
  shows "\<exists>b. GetfifoName buf 64 key = Some b \<and> length b = 64 \<and> cstr b 0 = Some (fifo_name key)"
proof -
  have l: "length (fifo_name key) \<le> 21" using length_sprintf_d [OF assms(2)] by (simp add: fifo_name_def)
  let ?b = "fifo_name key @ 0 # drop (Suc (length (fifo_name key))) (replicate 64 0)"
  have "GetfifoName buf 64 key = Some ?b" using assms(1) l by (simp add: GetfifoName_def wrn_def)
  moreover have "cstr ?b 0 = Some (fifo_name key)" using cstr_prefix [OF fifo_name_nonzero, of "[]"] by simp
  ultimately show ?thesis using l by simp
qed

text \<open>
  C37. The name of a fifo.  For every process id \<open>GetfifoName\<close> writes, inside the array of 64 bytes
  that parent and client both pass, the name of that process, and two processes never share a name.\<close>

theorem GetfifoName_fits:
  assumes "length buf = 64" and "int32 key"
  shows "\<exists>b. GetfifoName buf 64 key = Some b \<and> length b = 64 \<and> cstr b 0 = Some (fifo_name key) \<and>
     (\<forall>key'. fifo_name key' = fifo_name key \<longleftrightarrow> key' = key)"
  using GetfifoName_ok [OF assms] sprintf_d_inj by (auto simp: fifo_name_def)

theorem GetfifoName_fits_witness:
  "\<exists>b. GetfifoName (replicate 64 0) 64 (- 2147483648) = Some b \<and> cstr b 0 = Some (bytes ''/tmp/-2147483648_fifo'')"
proof -
  have "fifo_name (- 2147483648) = bytes ''/tmp/-2147483648_fifo''"
    by (simp add: fifo_name_def sprintf_d_def dec_digits.simps bytes_def)
  then show ?thesis using GetfifoName_fits [of "replicate 64 0" "- 2147483648"] by (auto simp: int32_def)
qed

subsection \<open>The clients of a table\<close>

definition env_ok :: "fork_env \<Rightarrow> bool" where
  "env_ok e \<longleftrightarrow> 0 < fe_pid e \<and> fe_pid e < 2147483648 \<and> (fe_exists e \<or> fe_mkfifo e = 0) \<and> fe_open e \<noteq> -1"

definition client_entry :: "fork_env \<Rightarrow> coapIP \<Rightarrow> coapIP" where
  "client_entry e c = c\<lparr>ci_pid := Some (fe_pid e), ci_fifo_fd := Some (fe_open e)\<rparr>"

definition fifo_events :: "fork_env \<Rightarrow> proc_event list" where
  "fifo_events e =
     (if fe_exists e then [] else [Make_fifo (fifo_name (fe_pid e))]) @ [Open_fifo (fifo_name (fe_pid e))]"

lemma creat_one_ok:
  assumes "env_ok e" and "length fifo = 64" and "t_store t d = Some c"
  shows "\<exists>fifo'. creat_one e t fifo d =
     Some (Cont (t\<lparr>t_store := (t_store t)(d \<mapsto> client_entry e c)\<rparr>, fifo', fifo_events e)) \<and> length fifo' = 64"
proof -
  have "int32 (fe_pid e)" using assms(1) by (simp add: env_ok_def int32_def)
  from GetfifoName_ok [OF assms(2) this] assms show ?thesis
    by (auto simp: creat_one_def env_ok_def client_entry_def fifo_events_def)
qed

text \<open>A fork may fail: then the entry stays as it was read.\<close>

definition fork_result :: "fork_env \<Rightarrow> coapIP \<Rightarrow> coapIP" where
  "fork_result e c = (if fe_pid e < 0 then c else client_entry e c)"

definition fork_events :: "fork_env \<Rightarrow> proc_event list" where
  "fork_events e = (if fe_pid e < 0 then [] else fifo_events e)"

definition env_or_failed :: "fork_env \<Rightarrow> bool" where
  "env_or_failed e \<longleftrightarrow> env_ok e \<or> fe_pid e < 0"

lemma creat_one_any:
  assumes "env_or_failed e" and "length fifo = 64" and "t_store t d = Some c"
  shows "\<exists>fifo'. creat_one e t fifo d =
     Some (Cont (t\<lparr>t_store := (t_store t)(d \<mapsto> fork_result e c)\<rparr>, fifo', fork_events e)) \<and> length fifo' = 64"
proof (cases "fe_pid e < 0")
  case True
  have "(t_store t)(d \<mapsto> c) = t_store t" using assms(3) by auto
  with True assms(2) show ?thesis by (simp add: creat_one_def fork_result_def fork_events_def)
next
  case False
  with assms(1) have "env_ok e" by (simp add: env_or_failed_def)
  from creat_one_ok [OF this assms(2,3)] False show ?thesis by (simp add: fork_result_def fork_events_def)
qed

lemma creat_from_any:
  assumes "chain (t_heap t) p xs None" and "distinct (map snd xs)"
    and "map (\<lambda>x. t_store t (snd x)) xs = map Some es" and "length fifo = 64"
    and "\<forall>j < length es. env_or_failed (env (i + j))"
  shows "\<exists>s'. creat_from env i t fifo p =
       Some (Cont (t\<lparr>t_store := s'\<rparr>, concat (map (\<lambda>j. fork_events (env j)) [i..<i + length es]))) \<and>
     map (\<lambda>x. s' (snd x)) xs = map Some (map2 (\<lambda>j c. fork_result (env j) c) [i..<i + length es] es) \<and>
     (\<forall>a. a \<notin> snd ` set xs \<longrightarrow> s' a = t_store t a)"
  using assms
proof (induction xs arbitrary: i t fifo p es)
  case Nil
  then have "p = None" "es = []" by auto
  then show ?case by (intro exI [of _ "t_store t"]) (subst creat_from.simps, simp)
next
  case (Cons x xs)
  obtain a d where x: "x = (a, d)" by fastforce
  obtain c es' where es: "es = c # es'" using Cons.prems(3) by (cases es) auto
  obtain n where n: "p = Some a" "t_heap t a = Some \<lparr>e_data = d, e_next = n\<rparr>" "chain (t_heap t) n xs None"
    using Cons.prems(1) x by auto
  have c: "t_store t d = Some c" using Cons.prems(3) x es by simp
  have e: "env_or_failed (env i)" using Cons.prems(5) es by fastforce
  let ?s = "(t_store t)(d \<mapsto> fork_result (env i) c)"
  let ?t = "t\<lparr>t_store := ?s\<rparr>"
  obtain fifo' where f: "creat_one (env i) t fifo d = Some (Cont (?t, fifo', fork_events (env i)))" "length fifo' = 64"
    using creat_one_any [OF e Cons.prems(4) c] by blast
  have d: "d \<notin> snd ` set xs" using Cons.prems(2) x by auto
  then have m: "map (\<lambda>x. t_store ?t (snd x)) xs = map Some es'"
    using map_store_other [OF d, of "t_store t"] Cons.prems(3) es by (simp del: map_eq_conv fun_upd_apply)
  have "chain (t_heap ?t) n xs None" "distinct (map snd xs)" using n(3) Cons.prems(2) by simp_all
  moreover have "\<forall>j < length es'. env_or_failed (env (Suc i + j))"
    using Cons.prems(5) es by (metis add_Suc_shift Suc_less_eq length_Cons)
  ultimately obtain s' where s': "creat_from env (Suc i) ?t fifo' n =
       Some (Cont (?t\<lparr>t_store := s'\<rparr>, concat (map (\<lambda>j. fork_events (env j)) [Suc i..<Suc i + length es'])))"
     "map (\<lambda>x. s' (snd x)) xs = map Some (map2 (\<lambda>j c. fork_result (env j) c) [Suc i..<Suc i + length es'] es')"
     "\<forall>a. a \<notin> snd ` set xs \<longrightarrow> s' a = t_store ?t a"
    using Cons.IH [OF _ _ m f(2)] by blast
  have up: "[i..<i + length es] = i # [Suc i..<Suc i + length es']" using es upt_conv_Cons [of i "i + length es"] by (simp del: upt_Suc)
  have "creat_from env i t fifo p =
      Some (Cont (t\<lparr>t_store := s'\<rparr>, concat (map (\<lambda>j. fork_events (env j)) [i..<i + length es])))"
    unfolding up using n(1,2) f(1) s'(1) by (subst creat_from.simps) (simp add: prepend_def)
  moreover have "map (\<lambda>x. s' (snd x)) (x # xs) =
      map Some (map2 (\<lambda>j c. fork_result (env j) c) [i..<i + length es] es)"
    unfolding up using s'(2,3) d x es by (simp del: map_eq_conv)
  moreover have "\<forall>a. a \<notin> snd ` set (x # xs) \<longrightarrow> s' a = t_store t a" using s'(3) x by auto
  ultimately show ?case by blast
qed

lemma CreatCoapclient_any:
  assumes "tab t xs es0" and "l_destroy (t_list t) = Some free_ip" and "new_from f t"
    and "length buff = 128" and "\<forall>cs \<in> set (chunks file). safe_line cs"
    and "length xs < 2147483647" and "length file < 2147483647"
    and env: "\<forall>j < length (file_entries file). env_or_failed (env j)"
  defines "n \<equiv> length (file_entries file)"
  shows "\<exists>t' xs'. CreatCoapclient (mallocs f) buff (Some file) env t =
       Some (Cont (t', concat (map (\<lambda>j. fork_events (env j)) [0..<n]))) \<and>
     tab t' xs' (map2 (\<lambda>j c. fork_result (env j) c) [0..<n] (file_entries file)) \<and>
     l_destroy (t_list t') = Some free_ip \<and> new_from f t' \<and> length xs' < 2147483647"
proof -
  obtain t1 xs1 where t1: "ParsTxt (mallocs f) t buff (Some file) = Some (Running t1)"
    "tab t1 xs1 (file_entries file)" "l_destroy (t_list t1) = Some free_ip" "new_from f t1"
    "length xs1 < 2147483647"
    using ParsTxt_spec [OF assms(1-7)] by blast
  then have c: "chain (t_heap t1) (l_head (t_list t1)) xs1 None" "distinct (map snd xs1)"
    "map (\<lambda>x. t_store t1 (snd x)) xs1 = map Some (file_entries file)"
    unfolding tab_def lrep_def by blast+
  obtain s' where s': "creat_from env 0 t1 (replicate 64 0) (l_head (t_list t1)) =
       Some (Cont (t1\<lparr>t_store := s'\<rparr>, concat (map (\<lambda>j. fork_events (env j)) [0..<n])))"
     "map (\<lambda>x. s' (snd x)) xs1 = map Some (map2 (\<lambda>j c. fork_result (env j) c) [0..<n] (file_entries file))"
     "\<forall>a. a \<notin> snd ` set xs1 \<longrightarrow> s' a = t_store t1 a"
    using creat_from_any [OF c, of "replicate 64 0" env 0] env by (auto simp: n_def)
  have "tab (t1\<lparr>t_store := s'\<rparr>) xs1 (map2 (\<lambda>j c. fork_result (env j) c) [0..<n] (file_entries file))"
    using t1(2) s'(2) unfolding tab_def by simp
  moreover have "new_from f (t1\<lparr>t_store := s'\<rparr>)"
  proof -
    have "s' (f i) = None" if "i \<ge> t_calls t1" for i
    proof -
      have "t_store t1 (f i) = None" using t1(4) that by (simp add: new_from_def)
      moreover from this have "f i \<notin> snd ` set xs1" using tab_live [OF t1(2)] by auto
      ultimately show ?thesis using s'(3) by simp
    qed
    with t1(4) show ?thesis by (simp add: new_from_def)
  qed
  ultimately show ?thesis using t1 s'(1) by (fastforce simp: CreatCoapclient_def)
qed

lemma CreatCoapclient_ok:
  assumes "tab t xs es0" and "l_destroy (t_list t) = Some free_ip" and "new_from f t"
    and "length buff = 128" and "\<forall>cs \<in> set (chunks file). safe_line cs"
    and "length xs < 2147483647" and "length file < 2147483647"
    and env: "\<forall>j < length (file_entries file). env_ok (env j)"
  defines "n \<equiv> length (file_entries file)"
  shows "\<exists>t' xs'. CreatCoapclient (mallocs f) buff (Some file) env t =
       Some (Cont (t', concat (map (\<lambda>j. fifo_events (env j)) [0..<n]))) \<and>
     tab t' xs' (map2 (\<lambda>j c. client_entry (env j) c) [0..<n] (file_entries file)) \<and>
     l_destroy (t_list t') = Some free_ip \<and> new_from f t' \<and> length xs' < 2147483647"
proof -
  have all: "\<not> fe_pid (env j) < 0" if "j < n" for j
    using env [rule_format, of j] that by (simp add: n_def env_ok_def)
  have 1: "map (\<lambda>j. fork_events (env j)) [0..<n] = map (\<lambda>j. fifo_events (env j)) [0..<n]"
    using all by (simp add: fork_events_def)
  have 2: "map2 (\<lambda>j c. fork_result (env j) c) [0..<n] (file_entries file) =
      map2 (\<lambda>j c. client_entry (env j) c) [0..<n] (file_entries file)"
    by (rule map_cong) (auto simp: fork_result_def set_zip all)
  have "\<forall>j < length (file_entries file). env_or_failed (env j)" using env by (simp add: env_or_failed_def)
  from CreatCoapclient_any [OF assms(1-7) this] show ?thesis
    unfolding 1 [unfolded n_def] 2 [unfolded n_def] n_def .
qed

lemma creat_one_heap: "creat_one e t fifo d = Some (Cont (t1, fifo1, evs)) \<Longrightarrow> t_heap t1 = t_heap t"
  by (auto simp: creat_one_def Let_def split: if_splits bind_splits)

lemma prepend_Cont: "prepend evs r = Cont (t, evs') \<Longrightarrow> \<exists>evs''. r = Cont (t, evs'')"
  by (auto simp: prepend_def split: proc.splits)

lemma creat_from_heap:
  assumes "creat_from env i t fifo p = Some (Cont (t', evs))"
  shows "t_heap t' = t_heap t"
proof -
  let ?P = "\<lambda>env i t fifo p r. \<forall>t' evs. r = Cont (t', evs) \<longrightarrow> t_heap t' = t_heap t"
  have "?P env i t fifo p (Cont (t', evs))"
  proof (rule creat_from.raw_induct [where P = ?P, OF _ assms])
    fix rec env i t fifo p r
    assume IH: "\<And>env i t fifo p r. rec env i t fifo p = Some r \<Longrightarrow> ?P env i t fifo p r"
      and eq: "(case p of None \<Rightarrow> Some (Cont (t, []))
        | Some a \<Rightarrow> t_heap t a \<bind> (\<lambda>el. creat_one (env i) t fifo (e_data el) \<bind>
            (\<lambda>r. case r of Exit \<Rightarrow> Some Exit | Client d \<Rightarrow> Some (Client d)
               | Cont (t1, fifo1, evs) \<Rightarrow>
                   rec env (Suc i) t1 fifo1 (e_next el) \<bind> (\<lambda>r'. Some (prepend evs r'))))) = Some r"
    show "?P env i t fifo p r"
    proof (intro allI impI)
      fix t' evs assume r: "r = Cont (t', evs)"
      show "t_heap t' = t_heap t"
      proof (cases p)
        case None
        with eq r show ?thesis by simp
      next
        case (Some a)
        with eq r obtain el :: "addr ListElmt" and t1 fifo1 evs1 r' where c: "creat_one (env i) t fifo (e_data el) = Some (Cont (t1, fifo1, evs1))"
          "rec env (Suc i) t1 fifo1 (e_next el) = Some r'" "prepend evs1 r' = Cont (t', evs)"
          by (auto split: bind_splits proc.splits)
        obtain evs'' where "r' = Cont (t', evs'')" using prepend_Cont [OF c(3)] by blast
        with IH [OF c(2)] creat_one_heap [OF c(1)] show ?thesis by simp
      qed
    qed
  qed
  then show ?thesis by blast
qed

lemma kill_from_ok:
  assumes "chain (t_heap t) p xs None" and "map (\<lambda>x. t_store t (snd x)) xs = map Some es"
    and "\<forall>c \<in> set es. ci_pid c \<noteq> None"
  shows "kill_from t p = Some (concat (map (\<lambda>c. [Kill_client (the (ci_pid c)), Wait_child]) es))"
  using assms
proof (induction xs arbitrary: p es)
  case Nil
  then show ?case by (auto simp: kill_from.simps)
next
  case (Cons x xs)
  obtain a d where x: "x = (a, d)" by fastforce
  obtain c es' where es: "es = c # es'" using Cons.prems(2) by (cases es) auto
  obtain n where n: "p = Some a" "t_heap t a = Some \<lparr>e_data = d, e_next = n\<rparr>" "chain (t_heap t) n xs None"
    using Cons.prems(1) x by auto
  have "t_store t d = Some c" using Cons.prems(2) x es by simp
  moreover have "kill_from t n = Some (concat (map (\<lambda>c. [Kill_client (the (ci_pid c)), Wait_child]) es'))"
    using Cons.prems es by (intro Cons.IH [OF n(3)]) auto
  moreover obtain k where "ci_pid c = Some k" using Cons.prems(3) es by auto
  ultimately show ?case using n(1,2) es by (subst kill_from.simps) simp
qed

lemma Tftp_Sig_ok:
  assumes "tab t xs es" and "l_destroy (t_list t) = Some free_ip" and "new_from f t"
    and "length buff = 128" and "\<forall>cs \<in> set (chunks file). safe_line cs"
    and "length xs < 2147483647" and "length file < 2147483647"
    and "\<forall>j < length (file_entries file). env_ok (env j)"
    and pids: "\<forall>c \<in> set es. ci_pid c \<noteq> None"
  shows "\<exists>t' xs'. Tftp_Sig (mallocs f) buff (Some file) env t =
       Some (Cont (t', concat (map (\<lambda>c. [Kill_client (the (ci_pid c)), Wait_child]) es) @
         concat (map (\<lambda>j. fifo_events (env j)) [0..<length (file_entries file)]))) \<and>
     tab t' xs' (map2 (\<lambda>j c. client_entry (env j) c) [0..<length (file_entries file)] (file_entries file)) \<and>
     l_destroy (t_list t') = Some free_ip \<and> new_from f t' \<and> length xs' < 2147483647"
proof -
  have l: "chain (t_heap t) (l_head (t_list t)) xs None" "map (\<lambda>x. t_store t (snd x)) xs = map Some es"
    "l_size (t_list t) = int (length xs)" "length xs = length es"
    using assms(1) tab_lengths [OF assms(1)] unfolding tab_def lrep_def by blast+
  have "(if l_size (t_list t) > 0 then kill_from t (l_head (t_list t)) else Some []) =
      Some (concat (map (\<lambda>c. [Kill_client (the (ci_pid c)), Wait_child]) es))"
    using kill_from_ok [OF l(1,2) pids] l(3,4) by auto
  with CreatCoapclient_ok [OF assms(1-8)] show ?thesis
    by (fastforce simp: Tftp_Sig_def UpdateCoapclient_def prepend_def)
qed

text \<open>
  C25. A new device table.  The signal handler stops and awaits every client of the old table, once
  and in order, and then starts exactly one client per entry of the new file: afterwards the table
  holds the new entries in order, each with the pid of its client and the descriptor of the fifo
  that carries that client's name.  This is for forks, fifos and allocations that succeed, and a
  file without over-long addresses.\<close>

theorem Tftp_Sig_restarts:
  assumes "tab t xs es" and "l_destroy (t_list t) = Some free_ip" and "new_from f t"
    and "length buff = 128" and "\<forall>cs \<in> set (chunks file). safe_line cs"
    and "length xs < 2147483647" and "length file < 2147483647"
    and "\<forall>j < length (file_entries file). env_ok (env j)"
    and "\<forall>c \<in> set es. ci_pid c \<noteq> None"
  shows "\<exists>t' xs'. Tftp_Sig (mallocs f) buff (Some file) env t =
       Some (Cont (t', concat (map (\<lambda>c. [Kill_client (the (ci_pid c)), Wait_child]) es) @
         concat (map (\<lambda>j. fifo_events (env j)) [0..<length (file_entries file)]))) \<and>
     tab t' xs' (map2 (\<lambda>j c. client_entry (env j) c) [0..<length (file_entries file)] (file_entries file))"
  using Tftp_Sig_ok [OF assms] by blast

definition ex_env :: "nat \<Rightarrow> fork_env" where
  "ex_env i = \<lparr>fe_pid = 100 + int i, fe_exists = False, fe_mkfifo = 0, fe_open = 5 + int i\<rparr>"

theorem Tftp_Sig_restarts_witness:
  "\<exists>t' xs'. Tftp_Sig (mallocs id) (replicate 128 7) (Some sample_file) ex_env empty_iptab =
       Some (Cont (t', [Make_fifo (bytes ''/tmp/100_fifo''), Open_fifo (bytes ''/tmp/100_fifo'')])) \<and>
     tab t' xs' [client_entry (ex_env 0) (ip_entry ([0x31], [0x61]))]"
proof -
  have e: "file_entries sample_file = [ip_entry ([0x31], [0x61])]"
    by (rule sample_entries)
  have "\<forall>cs \<in> set (chunks sample_file). safe_line cs" by (simp add: sample_chunks safe_line_def)
  moreover have "length sample_file < 2147483647" by (simp add: sample_file_def)
  moreover have "fifo_name 100 = bytes ''/tmp/100_fifo''"
    by (simp add: fifo_name_def sprintf_d_def dec_digits.simps bytes_def)
  moreover have "\<forall>j < length (file_entries sample_file). env_ok (ex_env j)"
    by (simp add: e ex_env_def env_ok_def)
  ultimately show ?thesis
    using Tftp_Sig_restarts [OF empty_iptab(1,2) empty_iptab(3) [OF inj_on_id], of "replicate 128 7" sample_file ex_env]
    by (simp add: e) (simp add: fifo_events_def ex_env_def)
qed

end
