(* ===== verification/Sqlite.thy ===== *)
theory Sqlite
  imports Gateway_Prelude
begin

section \<open>The message database: sqlite/sqlite.c\<close>

text \<open>
  \<open>Insert_db\<close> formats an SQL statement into a local array of 512 bytes and hands it to the database.
  The text of \<open>ctime\<close> and the result code of the database calls are arguments; the statement handed
  to \<open>sqlite3_exec\<close> is the output.  Writing behind the array is undefined.
\<close>

datatype db_event = Sqlite_exec "u8 list" | Sql_error

definition SQLITE_OK :: int where
  "SQLITE_OK = 0"

text \<open>What \<open>callback\<close> prints for one row: column names and values, \<open>None\<close> for a NULL value.\<close>

definition callback :: "(u8 list \<times> u8 list option) list \<Rightarrow> u8 list" where
  "callback row =
     concat (map (\<lambda>(name, v). name @ bytes '' = '' @ (case v of None \<Rightarrow> bytes ''NULL'' | Some s \<Rightarrow> s) @ [10]) row)
       @ [10]"

definition Open_db :: "int \<Rightarrow> unit outcome" where
  "Open_db rc = (if rc \<noteq> 0 then Exited else Running ())"

text \<open>The text \<open>sprintf\<close> produces; 0x27 is the quotation mark of SQL.\<close>

definition insert_sql :: "u8 list \<Rightarrow> u8 list \<Rightarrow> u8 list" where
  "insert_sql now msg =
     bytes ''INSERT INTO COAPMSG (TIME,ID,MSG) VALUES ('' @ [0x27] @ now @ [0x27] @
     bytes '', NULL, '' @ [0x27] @ msg @ [0x27] @ bytes ''); ''"

definition Insert_db :: "u8 list \<Rightarrow> int \<Rightarrow> u8 list \<Rightarrow> db_event list option" where
  "Insert_db now rc msg =
     do {
       m \<leftarrow> cstr msg 0;
       sql \<leftarrow> wrn (replicate 512 0) 0 (insert_sql now m @ [0]);
       stmt \<leftarrow> cstr sql 0;
       Some (Sqlite_exec stmt # (if rc \<noteq> SQLITE_OK then [Sql_error] else []))
     }"

text \<open>\<open>test\<close> opens a database and inserts one message.\<close>

definition sqlite_test :: "int \<Rightarrow> u8 list \<Rightarrow> int \<Rightarrow> (db_event list outcome) option" where
  "sqlite_test rc now rc' =
     (case Open_db rc of
        Exited \<Rightarrow> Some Exited
      | Running _ \<Rightarrow> map_option Running (Insert_db now rc' (bytes ''hello'' @ [0])))"

subsection \<open>Room for the message\<close>

text \<open>\<open>ctime\<close> yields a text of 25 characters, a newline at its end.\<close>

definition ctime_text :: "u8 list \<Rightarrow> bool" where
  "ctime_text now \<longleftrightarrow> length now = 25 \<and> 0 \<notin> set now"

definition MSG_LIMIT :: nat where
  "MSG_LIMIT = 429"

lemma length_insert_sql: "length (insert_sql now msg) = 57 + length now + length msg"
  by (simp add: insert_sql_def)

lemma insert_sql_nonzero: "0 \<notin> set now \<Longrightarrow> 0 \<notin> set msg \<Longrightarrow> 0 \<notin> set (insert_sql now msg)"
  by (simp add: insert_sql_def bytes_def)

lemma Insert_db_limit:
  assumes "ctime_text now" and "cstr msg 0 = Some m"
  shows "Insert_db now rc msg =
     (if length m \<le> MSG_LIMIT
      then Some (Sqlite_exec (insert_sql now m) # (if rc \<noteq> 0 then [Sql_error] else [])) else None)"
proof -
  have nz: "0 \<notin> set (insert_sql now m)"
    using assms(1) cstr_no_zero [OF assms(2)] by (intro insert_sql_nonzero) (auto simp: ctime_text_def)
  have l: "length (insert_sql now m) = 82 + length m" using assms(1) by (simp add: length_insert_sql ctime_text_def)
  show ?thesis
  proof (cases "length m \<le> MSG_LIMIT")
    case True
    let ?rest = "drop (length (insert_sql now m @ [0])) (replicate 512 0)"
    have "wrn (replicate 512 0) 0 (insert_sql now m @ [0]) = Some (insert_sql now m @ 0 # ?rest)"
      using True l by (simp add: wrn_def MSG_LIMIT_def)
    moreover have "cstr (insert_sql now m @ 0 # ?rest) 0 = Some (insert_sql now m)"
      using cstr_prefix [OF nz, of "[]" ?rest] by simp
    ultimately show ?thesis using True assms(2) by (simp add: Insert_db_def SQLITE_OK_def)
  next
    case False
    then have "wrn (replicate 512 0) 0 (insert_sql now m @ [0]) = None"
      using l by (simp add: wrn_def MSG_LIMIT_def)
    then show ?thesis using False assms(2) by (simp add: Insert_db_def)
  qed
qed

subsection \<open>Property\<close>

text \<open>
  C38. Storing a message.  For every time text and every message of at most 429 bytes \<open>Insert_db\<close> hands
  exactly one statement to the database: the time and the message between quotation marks.  The message
  is put in byte for byte, so that quotation marks in it are not escaped.  For every longer message
  \<open>sprintf\<close> writes behind the statement array, which is undefined.  The result of the database only
  decides whether an error is printed.\<close>

theorem Insert_db_bound:
  assumes "ctime_text now" and "0 \<notin> set m"
  shows "Insert_db now rc (m @ 0 # rest) =
       (if length m \<le> 429
        then Some (Sqlite_exec (bytes ''INSERT INTO COAPMSG (TIME,ID,MSG) VALUES ('' @ [0x27] @ now @ [0x27] @
            bytes '', NULL, '' @ [0x27] @ m @ [0x27] @ bytes ''); '') # (if rc \<noteq> 0 then [Sql_error] else []))
        else None)"
proof -
  have "cstr (m @ 0 # rest) 0 = Some m" using cstr_prefix [OF assms(2), of "[]" rest] by simp
  from Insert_db_limit [OF assms(1) this] show ?thesis by (simp add: MSG_LIMIT_def insert_sql_def)
qed

theorem Insert_db_bound_witness:
  "Insert_db (replicate 25 0x20) 0 (bytes ''a'' @ [0x27] @ bytes ''); DROP TABLE COAPMSG; --'' @ 0 # []) =
     Some [Sqlite_exec (bytes ''INSERT INTO COAPMSG (TIME,ID,MSG) VALUES ('' @ [0x27] @ replicate 25 0x20 @ [0x27] @
       bytes '', NULL, '' @ [0x27] @ bytes ''a'' @ [0x27] @ bytes ''); DROP TABLE COAPMSG; --'' @ [0x27] @ bytes ''); '')] \<and>
   Insert_db (replicate 25 0x20) 0 (replicate 430 0x61 @ 0 # []) = None"
proof -
  have t: "ctime_text (replicate 25 0x20)" by (simp add: ctime_text_def)
  let ?m = "bytes ''a'' @ [0x27] @ bytes ''); DROP TABLE COAPMSG; --''"
  have z: "0 \<notin> set ?m" "length ?m \<le> 429" "0 \<notin> set (replicate 430 (0x61 :: u8))" "length (replicate 430 (0x61 :: u8)) = 430"
    by (simp_all add: bytes_def)
  show ?thesis
    using Insert_db_bound [OF t z(1), of 0 "[]"] Insert_db_bound [OF t z(3), of 0 "[]"] z(2,4)
    by (simp only: append_assoc) simp
qed

end
