(* ===== verification/Comm_Queue.thy ===== *)
theory Comm_Queue
  imports Comm_List
begin

section \<open>The message queue of comm/queue.c\<close>

text \<open>
  The queue is the linked list used at both ends.  The locale \<open>fifo_queue\<close> states what the users of
  the queue rely on (the UART thread that enqueues, the dispatch thread that dequeues): a queue
  represents a list of data, \<open>enq\<close> appends, \<open>deq\<close> takes the first.  A client lemma shows that any
  sequence of calls behaves as on a functional list.  The interpretation \<open>cq\<close> discharges the laws
  for \<open>queue_enqueue\<close> and \<open>queue_dequeue\<close> over the heap.
\<close>

definition queue_init :: "('a \<Rightarrow> 's \<Rightarrow> 's option) option \<Rightarrow> ('a, 's) List_" where
  "queue_init = list_init"

definition queue_destroy ::
  "'a heap \<Rightarrow> ('a, 's) List_ \<Rightarrow> 's \<Rightarrow> ('a heap \<times> ('a, 's) List_ \<times> 's) option" where
  "queue_destroy = list_destroy"

definition queue_enqueue ::
  "addr option \<Rightarrow> 'a heap \<Rightarrow> ('a, 's) List_ \<Rightarrow> 'a
     \<Rightarrow> (int \<times> 'a heap \<times> ('a, 's) List_) option" where
  "queue_enqueue mal h q d = list_ins_next mal h q (l_tail q) d"

definition queue_dequeue ::
  "'a heap \<Rightarrow> ('a, 's) List_ \<Rightarrow> (int \<times> 'a option \<times> 'a heap \<times> ('a, 's) List_) option" where
  "queue_dequeue h q = list_rem_next h q None"

text \<open>\<open>queue_peek\<close> is a macro; its inner \<open>None\<close> is the NULL it yields on an empty queue.\<close>

definition queue_peek :: "'a heap \<Rightarrow> ('a, 's) List_ \<Rightarrow> 'a option option" where
  "queue_peek h q =
     (case l_head q of
        None \<Rightarrow> Some None
      | Some a \<Rightarrow> map_option (\<lambda>el. Some (e_data el)) (h a))"

definition queue_size :: "('a, 's) List_ \<Rightarrow> int" where
  "queue_size q = l_size q"

subsection \<open>Sequences of calls\<close>

datatype ('m, 'a) qop = Enq 'm 'a | Deq

text \<open>The data delivered by the successful dequeues of a run, and the queue it leaves.\<close>

fun run_ops ::
  "('m \<Rightarrow> 'q \<Rightarrow> 'a \<Rightarrow> (int \<times> 'q) option) \<Rightarrow> ('q \<Rightarrow> (int \<times> 'a option \<times> 'q) option)
     \<Rightarrow> 'q \<Rightarrow> ('m, 'a) qop list \<Rightarrow> ('a list \<times> 'q) option" where
  "run_ops enq deq q [] = Some ([], q)"
| "run_ops enq deq q (Enq m x # ops) =
     (case enq m q x of
        None \<Rightarrow> None
      | Some (rc, q') \<Rightarrow> run_ops enq deq q' ops)"
| "run_ops enq deq q (Deq # ops) =
     (case deq q of
        None \<Rightarrow> None
      | Some (rc, d, q') \<Rightarrow>
          (case run_ops enq deq q' ops of
             None \<Rightarrow> None
           | Some (out, q'') \<Rightarrow> Some ((if rc = 0 then the d # out else out), q'')))"

text \<open>Every enqueue of a run is given a fresh node.\<close>

fun ops_fresh ::
  "('m \<Rightarrow> 'q \<Rightarrow> bool) \<Rightarrow> ('m \<Rightarrow> 'q \<Rightarrow> 'a \<Rightarrow> (int \<times> 'q) option)
     \<Rightarrow> ('q \<Rightarrow> (int \<times> 'a option \<times> 'q) option) \<Rightarrow> 'q \<Rightarrow> ('m, 'a) qop list \<Rightarrow> bool" where
  "ops_fresh fresh enq deq q [] = True"
| "ops_fresh fresh enq deq q (Enq m x # ops) =
     (fresh m q \<and>
      (case enq m q x of None \<Rightarrow> True | Some (rc, q') \<Rightarrow> ops_fresh fresh enq deq q' ops))"
| "ops_fresh fresh enq deq q (Deq # ops) =
     (case deq q of None \<Rightarrow> True | Some (rc, d, q') \<Rightarrow> ops_fresh fresh enq deq q' ops)"

text \<open>The same run on a functional list.\<close>

fun fifo_ops :: "'a list \<Rightarrow> ('m, 'a) qop list \<Rightarrow> 'a list \<times> 'a list" where
  "fifo_ops xs [] = ([], xs)"
| "fifo_ops xs (Enq m x # ops) = fifo_ops (xs @ [x]) ops"
| "fifo_ops [] (Deq # ops) = fifo_ops [] ops"
| "fifo_ops (x # xs) (Deq # ops) = (let (out, ys) = fifo_ops xs ops in (x # out, ys))"

fun enqueued :: "('m, 'a) qop list \<Rightarrow> 'a list" where
  "enqueued [] = []"
| "enqueued (Enq m x # ops) = x # enqueued ops"
| "enqueued (Deq # ops) = enqueued ops"

lemma fifo_ops_conserves: "fifo_ops xs ops = (out, ys) \<Longrightarrow> out @ ys = xs @ enqueued ops"
  by (induction xs ops arbitrary: out ys rule: fifo_ops.induct) (auto split: prod.splits)

subsection \<open>The interface\<close>

locale fifo_queue =
  fixes rep :: "'q \<Rightarrow> 'a list \<Rightarrow> bool"
    and fresh :: "'m \<Rightarrow> 'q \<Rightarrow> bool"
    and enq :: "'m \<Rightarrow> 'q \<Rightarrow> 'a \<Rightarrow> (int \<times> 'q) option"
    and deq :: "'q \<Rightarrow> (int \<times> 'a option \<times> 'q) option"
    and cap :: nat
  assumes enq_rep: "rep q xs \<Longrightarrow> fresh m q \<Longrightarrow> length xs < cap \<Longrightarrow>
      \<exists>q'. enq m q x = Some (0, q') \<and> rep q' (xs @ [x])"
    and deq_rep: "rep q (x # xs) \<Longrightarrow> length xs < cap \<Longrightarrow>
      \<exists>q'. deq q = Some (0, Some x, q') \<and> rep q' xs"
    and deq_none: "rep q [] \<Longrightarrow> deq q = Some (-1, None, q)"
    and rep_unique: "rep q xs \<Longrightarrow> rep q ys \<Longrightarrow> xs = ys"
begin

lemma run_refines:
  assumes "rep q xs" and "ops_fresh fresh enq deq q ops"
    and "length xs + length ops \<le> cap"
  shows "\<exists>q'. run_ops enq deq q ops = Some (fst (fifo_ops xs ops), q') \<and>
           rep q' (snd (fifo_ops xs ops))"
  using assms
proof (induction xs ops arbitrary: q rule: fifo_ops.induct)
  case (2 xs m x ops)
  obtain q' where "enq m q x = Some (0, q')" "rep q' (xs @ [x])"
    using enq_rep [of q xs m x] 2 by auto
  with 2 show ?case by auto
next
  case (3 ops)
  then obtain q' where "run_ops enq deq q ops = Some (fst (fifo_ops [] ops), q')"
    "rep q' (snd (fifo_ops [] ops))"
    using deq_none [of q] by fastforce
  with 3 show ?case using deq_none [of q] by simp
next
  case (4 x xs ops)
  obtain q' where "deq q = Some (0, Some x, q')" "rep q' xs"
    using deq_rep [of q x xs] 4 by auto
  with 4 show ?case by (fastforce split: prod.splits)
qed auto

end

subsection \<open>The heap queue implements the interface\<close>

definition qrep :: "'a heap \<times> ('a, 's) List_ \<Rightarrow> 'a list \<Rightarrow> bool" where
  "qrep hq xs \<longleftrightarrow> (\<exists>as. lrep (fst hq) (snd hq) as \<and> map snd as = xs)"

definition qfresh :: "addr option \<Rightarrow> 'a heap \<times> ('a, 's) List_ \<Rightarrow> bool" where
  "qfresh m hq \<longleftrightarrow> (case m of None \<Rightarrow> False | Some a \<Rightarrow> fst hq a = None)"

definition qenq ::
  "addr option \<Rightarrow> 'a heap \<times> ('a, 's) List_ \<Rightarrow> 'a
     \<Rightarrow> (int \<times> 'a heap \<times> ('a, 's) List_) option" where
  "qenq m hq x = queue_enqueue m (fst hq) (snd hq) x"

definition qdeq ::
  "'a heap \<times> ('a, 's) List_ \<Rightarrow> (int \<times> 'a option \<times> 'a heap \<times> ('a, 's) List_) option" where
  "qdeq hq = queue_dequeue (fst hq) (snd hq)"

lemma lrep_unique: "lrep h l xs \<Longrightarrow> lrep h l ys \<Longrightarrow> xs = ys"
  by (auto simp: lrep_def dest: chain_unique)

lemma qrep_init: "qrep (Map.empty, queue_init f) []"
  by (simp add: qrep_def queue_init_def lrep_init)

interpretation cq: fifo_queue qrep qfresh qenq qdeq 2147483647
proof unfold_locales
  fix q :: "'a heap \<times> ('a, 's) List_" and xs m x
  assume rep: "qrep q xs" and m: "qfresh m q" and room: "length xs < 2147483647"
  obtain as where as: "lrep (fst q) (snd q) as" "map snd as = xs"
    using rep by (auto simp: qrep_def)
  obtain a where a: "m = Some a" "fst q a = None"
    using m by (auto simp: qfresh_def split: option.splits)
  have "length as < 2147483647" using as room by auto
  from list_append_lrep [OF as(1) a(2) this, of x] as(2)
  show "\<exists>q'. qenq m q x = Some (0, q') \<and> qrep q' (xs @ [x])"
    by (fastforce simp: qenq_def queue_enqueue_def list_append_def qrep_def a(1))
next
  fix q :: "'a heap \<times> ('a, 's) List_" and x xs
  assume rep: "qrep q (x # xs)" and room: "length xs < 2147483647"
  obtain a as where as: "lrep (fst q) (snd q) ((a, x) # as)" "map snd as = xs"
    using rep by (auto simp: qrep_def)
  have "length as < 2147483647" using as room by auto
  from list_rem_next_head [OF as(1) this] as(2)
  show "\<exists>q'. qdeq q = Some (0, Some x, q') \<and> qrep q' xs"
    by (fastforce simp: qdeq_def queue_dequeue_def qrep_def)
next
  fix q :: "'a heap \<times> ('a, 's) List_"
  assume "qrep q []"
  then show "qdeq q = Some (-1, None, q)"
    by (auto simp: qrep_def qdeq_def queue_dequeue_def list_rem_next_empty)
next
  fix q :: "'a heap \<times> ('a, 's) List_" and xs ys
  assume "qrep q xs" "qrep q ys"
  then show "xs = ys"
    by (auto simp: qrep_def dest: lrep_unique)
qed

lemma queue_peek_rep: "qrep (h, q) xs \<Longrightarrow> queue_peek h q = Some (if xs = [] then None else Some (hd xs))"
  by (cases xs) (auto simp: qrep_def lrep_def queue_peek_def)

lemma queue_size_rep: "qrep (h, q) xs \<Longrightarrow> queue_size q = int (length xs)"
  by (auto simp: qrep_def lrep_def queue_size_def)

subsection \<open>Properties\<close>

text \<open>
  C12. First in, first out, without loss: in every sequence of calls on a fresh queue, with a fresh
  node for each enqueue, no call is undefined, and the data handed out so far, followed by what
  the queue still holds, is the data put in, in that order.  The count the queue keeps is the
  number of data still held, and peek shows the next one.
\<close>

theorem queue_run_fifo:
  fixes f :: "('a \<Rightarrow> 's \<Rightarrow> 's option) option"
  assumes "ops_fresh qfresh qenq qdeq (Map.empty, queue_init f) ops"
    and "length ops \<le> 2147483647"
  shows "\<exists>out h q held. run_ops qenq qdeq (Map.empty, queue_init f) ops = Some (out, h, q) \<and>
           qrep (h, q) held \<and> out @ held = enqueued ops \<and>
           queue_size q = int (length held) \<and>
           queue_peek h q = Some (if held = [] then None else Some (hd held))"
proof -
  obtain q' where q': "run_ops qenq qdeq (Map.empty, queue_init f) ops = Some (fst (fifo_ops [] ops), q')"
    "qrep q' (snd (fifo_ops [] ops))"
    using cq.run_refines [OF qrep_init assms(1)] assms(2) by auto
  obtain h q where hq: "q' = (h, q)" by fastforce
  have "fst (fifo_ops [] ops) @ snd (fifo_ops [] ops) = [] @ enqueued ops"
    by (rule fifo_ops_conserves) simp
  with q' hq queue_size_rep [of h q] queue_peek_rep [of h q] show ?thesis by auto
qed

theorem queue_run_fifo_witness:
  "\<exists>h q. run_ops qenq qdeq (Map.empty, queue_init (None :: (string \<Rightarrow> unit \<Rightarrow> unit option) option))
      [Enq (Some 1) ''a'', Enq (Some 2) ''b'', Deq, Enq (Some 1) ''c'', Deq]
      = Some ([''a'', ''b''], h, q) \<and> queue_size q = 1"
proof -
  let ?ops = "[Enq (Some 1) ''a'', Enq (Some 2) ''b'', Deq, Enq (Some 1) ''c'', Deq]
    :: (addr option, string) qop list"
  let ?q = "(Map.empty, queue_init (None :: (string \<Rightarrow> unit \<Rightarrow> unit option) option))"
  have "ops_fresh qfresh qenq qdeq ?q ?ops"
    by (simp add: qfresh_def qenq_def qdeq_def queue_enqueue_def queue_dequeue_def queue_init_def
        list_init_def list_ins_next_def list_rem_next_def inc32_def dec32_def)
  from queue_run_fifo [OF this] obtain out h q held where
    r: "run_ops qenq qdeq ?q ?ops = Some (out, h, q)" "out @ held = [''a'', ''b'', ''c'']"
    "queue_size q = int (length held)" by auto
  moreover have "map_option fst (run_ops qenq qdeq ?q ?ops) = Some [''a'', ''b'']"
    by (simp add: qenq_def qdeq_def queue_enqueue_def queue_dequeue_def queue_init_def
        list_init_def list_ins_next_def list_rem_next_def inc32_def dec32_def)
  ultimately show ?thesis by auto
qed

end
