(* ===== verification/Uart.thy ===== *)
theory Uart
  imports Sqlite Comm_Queue
begin

section \<open>The serial port thread: uart/uart.c\<close>

text \<open>
  \<open>Uart_ReadThread\<close> collects the bytes of the serial port in \<open>uartRdBuf\<close>.  A \<open>&\<close> ends a piece; a piece
  that starts with \<open>$\<close> is a message: it is stored in the database, copied into a block of its own,
  and the block is put into the queue \<open>coapMsgQ\<close> and announced by the semaphore \<open>msgQSem\<close>.

  The record \<open>shared\<close> is what the threads share.  The body of the loop is split where another
  thread can run in between: receiving a byte (with everything local to the thread), the enqueue
  under the mutex, \<open>sem_post\<close>, and clearing the buffer.  \<open>Uart_turn\<close> is their sequence, the body as
  written.
\<close>

subsection \<open>Setting up the port\<close>

text \<open>
  \<open>Uart_Init\<close> calls the mraa library; the record says which calls succeed (for the first: whether it
  returns a context).  A failure is logged and the set-up goes on.
\<close>

record mraa_env =
  mr_init :: bool
  mr_flush :: bool
  mr_baud :: bool
  mr_mode :: bool
  mr_flow :: bool

datatype mraa_call = Mraa_init int | Mraa_flush | Mraa_baudrate int | Mraa_mode int int | Mraa_flowcontrol int int | Mraa_stop

datatype uart_event = Mraa mraa_call | Uart_log string

definition mraa_check :: "mraa_call \<Rightarrow> bool \<Rightarrow> string \<Rightarrow> uart_event list" where
  "mraa_check c ok msg = Mraa c # (if ok then [] else [Uart_log msg])"

definition Uart_Init :: "mraa_env \<Rightarrow> int \<Rightarrow> uart_event list" where
  "Uart_Init e baud =
     mraa_check (Mraa_init 0) (mr_init e) ''UART failed to setup!'' @
     mraa_check Mraa_flush (mr_flush e) ''UART failed to flush!'' @
     mraa_check (Mraa_baudrate baud) (mr_baud e) ''UART failed to set baudrate!'' @
     mraa_check (Mraa_mode 8 1) (mr_mode e) ''UART failed to set mode!'' @
     mraa_check (Mraa_flowcontrol 0 0) (mr_flow e) ''UART failed to set flowcontrol!''"

definition Uart_Stop :: "uart_event list" where
  "Uart_Stop = [Mraa Mraa_stop]"

subsection \<open>Receiving\<close>

definition UART_RD_BUF_SIZE :: nat where
  "UART_RD_BUF_SIZE = 512"

definition UART_START_FLAG :: u8 where
  "UART_START_FLAG = 0x24"

definition UART_END_FLAG :: u8 where
  "UART_END_FLAG = 0x26"

type_synonym msgs = "addr \<Rightarrow> u8 list option"

record shared =
  sh_heap :: "addr heap"
  sh_queue :: "(addr, msgs) List_"
  sh_msgs :: msgs
  sh_sem :: nat
  sh_calls :: nat
  sh_db :: "db_event list"

record uart =
  u_buf :: "u8 list"
  u_count :: nat

definition uart_clear :: "uart \<Rightarrow> uart" where
  "uart_clear u = u\<lparr>u_count := 0, u_buf := replicate UART_RD_BUF_SIZE 0\<rparr>"

text \<open>The third component is the block of a complete message.\<close>

definition uart_recv ::
  "(nat \<Rightarrow> addr option) \<Rightarrow> u8 list \<Rightarrow> int \<Rightarrow> shared \<Rightarrow> uart \<Rightarrow> u8
     \<Rightarrow> (shared \<times> uart \<times> addr option) outcome option" where
  "uart_recv mal now rc sh u ch =
     do {
       b \<leftarrow> wr (u_buf u) (u_count u) ch;
       let u1 = u\<lparr>u_buf := b, u_count := u_count u + 1\<rparr>;
       e \<leftarrow> rd b (u_count u1 - 1);
       if e = UART_END_FLAG
       then do {
         s \<leftarrow> rd b 0;
         if s = UART_START_FLAG
         then do {
           evs \<leftarrow> Insert_db now rc b;
           (case mal (sh_calls sh) of
              None \<Rightarrow> Some Exited
            | Some a \<Rightarrow>
                Some (Running (sh\<lparr>sh_db := sh_db sh @ evs, sh_msgs := (sh_msgs sh)(a \<mapsto> b),
                  sh_calls := sh_calls sh + 1\<rparr>, u1, Some a)))
         }
         else Some (Running (sh, uart_clear u1, None))
       }
       else Some (Running (sh, u1, None))
     }"

definition uart_enqueue :: "(nat \<Rightarrow> addr option) \<Rightarrow> shared \<Rightarrow> addr \<Rightarrow> shared option" where
  "uart_enqueue mal sh a =
     do {
       (rc, h, q) \<leftarrow> queue_enqueue (mal (sh_calls sh)) (sh_heap sh) (sh_queue sh) a;
       Some (sh\<lparr>sh_heap := h, sh_queue := q, sh_calls := sh_calls sh + 1\<rparr>)
     }"

text \<open>A semaphore at its greatest value stays there; \<open>sem_post\<close> then returns -1, which is not looked at.\<close>

definition uart_post :: "shared \<Rightarrow> shared" where
  "uart_post sh = (if sh_sem sh < 2147483647 then sh\<lparr>sh_sem := sh_sem sh + 1\<rparr> else sh)"

definition Uart_turn ::
  "(nat \<Rightarrow> addr option) \<Rightarrow> u8 list \<Rightarrow> int \<Rightarrow> shared \<Rightarrow> uart \<Rightarrow> u8 \<Rightarrow> (shared \<times> uart) outcome option" where
  "Uart_turn mal now rc sh u ch =
     (case uart_recv mal now rc sh u ch of
        None \<Rightarrow> None
      | Some Exited \<Rightarrow> Some Exited
      | Some (Running (sh1, u1, None)) \<Rightarrow> Some (Running (sh1, u1))
      | Some (Running (sh1, u1, Some a)) \<Rightarrow>
          do {
            sh2 \<leftarrow> uart_enqueue mal sh1 a;
            Some (Running (uart_post sh2, uart_clear u1))
          })"

text \<open>The loop on a sequence of bytes, each with the time text and database result of its turn.\<close>

fun Uart_run ::
  "(nat \<Rightarrow> addr option) \<Rightarrow> shared \<Rightarrow> uart \<Rightarrow> (u8 list \<times> int \<times> u8) list \<Rightarrow> (shared \<times> uart) outcome option" where
  "Uart_run mal sh u [] = Some (Running (sh, u))"
| "Uart_run mal sh u ((now, rc, ch) # inp) =
     (case Uart_turn mal now rc sh u ch of
        None \<Rightarrow> None
      | Some Exited \<Rightarrow> Some Exited
      | Some (Running (sh', u')) \<Rightarrow> Uart_run mal sh' u' inp)"

subsection \<open>The messages in a stream of bytes\<close>

text \<open>The pieces that an end flag closes, and the bytes behind the last one.\<close>

definition cut1 :: "u8 list list \<times> u8 list \<Rightarrow> u8 \<Rightarrow> u8 list list \<times> u8 list" where
  "cut1 p ch = (if ch = UART_END_FLAG then (fst p @ [snd p @ [ch]], []) else (fst p, snd p @ [ch]))"

definition cut :: "u8 list \<Rightarrow> u8 list list \<times> u8 list" where
  "cut bs = foldl cut1 ([], []) bs"

definition msg_text :: "u8 list \<Rightarrow> u8 list" where
  "msg_text s = takeWhile (\<lambda>b. b \<noteq> 0) s"

definition frames :: "u8 list \<Rightarrow> u8 list list" where
  "frames bs = filter (\<lambda>s. hd s = UART_START_FLAG) (fst (cut bs))"

text \<open>Pieces that fit: into the buffer, and, for messages, into the SQL statement.\<close>

definition ok_piece :: "u8 list \<Rightarrow> bool" where
  "ok_piece s \<longleftrightarrow> length s \<le> 512 \<and> (hd s = UART_START_FLAG \<longrightarrow> length (msg_text s) \<le> MSG_LIMIT)"

definition ok_input :: "u8 list \<Rightarrow> bool" where
  "ok_input bs \<longleftrightarrow> (\<forall>s \<in> set (fst (cut bs)). ok_piece s) \<and> length (snd (cut bs)) \<le> 512"

lemma cut_Nil [simp]: "cut [] = ([], [])"
  by (simp add: cut_def)

lemma cut_snoc [simp]: "cut (bs @ [ch]) = cut1 (cut bs) ch"
  by (simp add: cut_def)

lemma ok_input_snoc: "ok_input (bs @ [ch]) \<Longrightarrow> ok_input bs"
  by (auto simp: ok_input_def ok_piece_def cut1_def split: if_splits)

lemma frames_Nil [simp]: "frames [] = []"
  by (simp add: frames_def)

lemma frames_snoc:
  "frames (bs @ [ch]) = frames bs @
     (if ch = UART_END_FLAG \<and> hd (snd (cut bs) @ [ch]) = UART_START_FLAG then [snd (cut bs) @ [ch]] else [])"
  by (simp add: frames_def cut1_def)

text \<open>What \<open>cut\<close> means: the pieces are the stream, and each has the end flag at its end only.\<close>

lemma cut_pieces:
  "concat (fst (cut bs)) @ snd (cut bs) = bs \<and> UART_END_FLAG \<notin> set (snd (cut bs)) \<and>
   (\<forall>s \<in> set (fst (cut bs)). \<exists>s'. s = s' @ [UART_END_FLAG] \<and> UART_END_FLAG \<notin> set s')"
  by (induction bs rule: rev_induct) (auto simp: cut1_def)

subsection \<open>One byte\<close>

definition uart_holds :: "uart \<Rightarrow> u8 list \<Rightarrow> bool" where
  "uart_holds u cur \<longleftrightarrow>
     length cur \<le> 512 \<and> u_count u = length cur \<and> u_buf u = cur @ replicate (512 - length cur) 0"

lemma uart_clear_holds: "uart_holds (uart_clear u) []"
  by (simp add: uart_holds_def uart_clear_def UART_RD_BUF_SIZE_def)

text \<open>The block of a message holds its text as a string when the text is shorter than the block.\<close>

definition msg_block :: "u8 list \<Rightarrow> u8 list" where
  "msg_block s = s @ replicate (512 - length s) 0"

lemma cstr_msg_block:
  assumes "length s \<le> 512" and "length (msg_text s) < 512"
  shows "cstr (msg_block s) 0 = Some (msg_text s)"
proof (cases "0 \<in> set s")
  case True
  then show ?thesis by (auto simp: cstr_def msg_block_def msg_text_def takeWhile_append1)
next
  case False
  then have t: "msg_text s = s" by (auto simp: msg_text_def takeWhile_eq_all_conv)
  obtain k where "512 - length s = Suc k" using assms(2) t by (metis Suc_diff_Suc)
  then show ?thesis using cstr_prefix [OF False, of "[]" "replicate k 0"] t by (simp add: msg_block_def)
qed

lemma uart_write:
  assumes "uart_holds u cur" and "length cur < 512"
  shows "wr (u_buf u) (u_count u) ch = Some (msg_block (cur @ [ch]))"
proof -
  obtain k where k: "512 - length cur = Suc k" using assms(2) by (metis Suc_diff_Suc)
  then have "512 - length (cur @ [ch]) = k" by simp
  with k assms show ?thesis by (simp add: uart_holds_def wr_def msg_block_def list_update_append)
qed

text \<open>What receiving the last byte of the message \<open>s\<close> does to the shared state.\<close>

definition stored_message :: "u8 list \<Rightarrow> int \<Rightarrow> shared \<Rightarrow> addr \<Rightarrow> u8 list \<Rightarrow> shared" where
  "stored_message now rc sh a s =
     sh\<lparr>sh_db := sh_db sh @ Sqlite_exec (insert_sql now (msg_text s)) # (if rc \<noteq> 0 then [Sql_error] else []),
        sh_msgs := (sh_msgs sh)(a \<mapsto> msg_block s), sh_calls := sh_calls sh + 1\<rparr>"

lemma uart_recv_piece:
  assumes u: "uart_holds u cur" and c: "length cur < 512"
    and m: "ch = UART_END_FLAG \<and> hd (cur @ [ch]) = UART_START_FLAG \<longrightarrow> length (msg_text (cur @ [ch])) \<le> MSG_LIMIT"
    and now: "ctime_text now" and mal: "mal (sh_calls sh) = Some a"
  defines "full \<equiv> ch = UART_END_FLAG \<and> hd (cur @ [ch]) = UART_START_FLAG"
  shows "\<exists>u'. uart_recv mal now rc sh u ch = Some (Running
     (if full then stored_message now rc sh a (cur @ [ch]) else sh, u', if full then Some a else None)) \<and>
     (if ch = UART_END_FLAG then hd (cur @ [ch]) = UART_START_FLAG \<or> uart_holds u' []
      else uart_holds u' (cur @ [ch]))"
proof -
  let ?s = "cur @ [ch]"
  have w: "wr (u_buf u) (u_count u) ch = Some (msg_block ?s)" by (rule uart_write [OF u c])
  have l: "length (msg_block ?s) = 512" "u_count u = length cur"
    using u c by (simp_all add: msg_block_def uart_holds_def)
  have r: "rd (msg_block ?s) (length cur) = Some ch" "rd (msg_block ?s) 0 = Some (hd ?s)"
    by (auto simp: msg_block_def rd_def nth_append hd_conv_nth)
  show ?thesis
  proof (cases "ch = UART_END_FLAG")
    case False
    then show ?thesis using w r l c by (simp add: uart_recv_def uart_holds_def msg_block_def full_def)
  next
    case end_flag: True
    show ?thesis
    proof (cases "hd ?s = UART_START_FLAG")
      case False
      then show ?thesis using w r l end_flag uart_clear_holds by (simp add: uart_recv_def full_def)
    next
      case True
      have "cstr (msg_block ?s) 0 = Some (msg_text ?s)"
        using c m end_flag True by (intro cstr_msg_block) (auto simp: MSG_LIMIT_def)
      from Insert_db_limit [OF now this] m end_flag True
      have "Insert_db now rc (msg_block ?s) =
          Some (Sqlite_exec (insert_sql now (msg_text ?s)) # (if rc \<noteq> 0 then [Sql_error] else []))" by simp
      then show ?thesis using w r l end_flag True mal by (simp add: uart_recv_def full_def stored_message_def)
    qed
  qed
qed

subsection \<open>Input without an end flag\<close>

lemma Uart_run_append:
  "Uart_run mal sh u (xs @ ys) =
     (case Uart_run mal sh u xs of
        None \<Rightarrow> None
      | Some Exited \<Rightarrow> Some Exited
      | Some (Running (sh', u')) \<Rightarrow> Uart_run mal sh' u' ys)"
  by (induction xs arbitrary: sh u) (auto split: option.splits outcome.splits prod.splits)

lemma uart_recv_plain:
  assumes "uart_holds u cur" and "length cur < 512" and "ch \<noteq> UART_END_FLAG"
  shows "\<exists>u'. uart_recv mal now rc sh u ch = Some (Running (sh, u', None)) \<and> uart_holds u' (cur @ [ch])"
  using uart_write [OF assms(1,2), of ch] assms
  by (auto simp: uart_recv_def uart_holds_def msg_block_def rd_def nth_append)

lemma Uart_run_plain:
  assumes "uart_holds u cur" and "length cur + length inp \<le> 512" and "UART_END_FLAG \<notin> (snd \<circ> snd) ` set inp"
  shows "\<exists>u'. Uart_run mal sh u inp = Some (Running (sh, u')) \<and> uart_holds u' (cur @ map (snd \<circ> snd) inp)"
  using assms
proof (induction inp arbitrary: u cur)
  case (Cons x inp)
  obtain now rc ch where x: "x = (now, rc, ch)" by (metis prod_cases3)
  obtain u1 where u1: "uart_recv mal now rc sh u ch = Some (Running (sh, u1, None))" "uart_holds u1 (cur @ [ch])"
    using uart_recv_plain [OF Cons.prems(1), of ch mal now rc sh] Cons.prems(2,3) x by auto
  from Cons.IH [OF u1(2)] Cons.prems u1(1) x show ?case by (auto simp: Uart_turn_def)
qed auto

lemma Uart_turn_full: "uart_holds u cur \<Longrightarrow> length cur = 512 \<Longrightarrow> Uart_turn mal now rc sh u ch = None"
  by (simp add: Uart_turn_def uart_recv_def uart_holds_def wr_def)

text \<open>
  The bound of the serial buffer.  The thread checks no bound: any 513 bytes or more without an
  end flag among the first 513 run over the buffer, whatever they are, which is undefined.\<close>

lemma Uart_run_overflow:
  assumes "uart_holds u []" and "512 < length inp"
    and "UART_END_FLAG \<notin> set (map (snd \<circ> snd) (take 512 inp))"
  shows "Uart_run mal sh u inp = None"
proof -
  obtain now rc ch rest where d: "drop 512 inp = (now, rc, ch) # rest"
    using assms(2) by (metis drop_eq_Nil list.exhaust not_le prod_cases3)
  obtain u' where u': "Uart_run mal sh u (take 512 inp) = Some (Running (sh, u'))"
    "uart_holds u' (map (snd \<circ> snd) (take 512 inp))"
    using Uart_run_plain [OF assms(1), of "take 512 inp" mal sh] assms(3) by (auto simp: image_comp)
  have "length (map (snd \<circ> snd) (take 512 inp)) = 512" using assms(2) by simp
  note full = Uart_turn_full [OF u'(2) this]
  have "inp = take 512 inp @ (now, rc, ch) # rest" using d by (metis append_take_drop_id)
  then show ?thesis by (rule ssubst) (simp add: Uart_run_append u'(1) full)
qed

definition ex_shared :: shared where
  "ex_shared = \<lparr>sh_heap = Map.empty, sh_queue = queue_init None, sh_msgs = Map.empty, sh_sem = 0, sh_calls = 0,
     sh_db = []\<rparr>"

lemma Uart_run_overflow_witness:
  "Uart_run (\<lambda>i. Some i) ex_shared \<lparr>u_buf = replicate 512 0, u_count = 0\<rparr> (replicate 513 ([], 0, 0x24)) = None"
  by (rule Uart_run_overflow) (simp_all add: uart_holds_def UART_END_FLAG_def)

end
