(* ===== verification/Systems.thy ===== *)
theory Systems
  imports Main
begin

section \<open>Systems of steps\<close>

text \<open>
  The interfaces of the step relations of the program: threads, processes, and both together.  One
  gives an invariant of the reachable states, the other shows that a system comes to rest.
\<close>

subsection \<open>An invariant under an assumption on the input\<close>

text \<open>
  A system whose steps keep an invariant as long as a guard on the history holds; the guard is such
  that it held before when it holds now.
\<close>

locale guarded_system =
  fixes step :: "'g \<Rightarrow> 'g \<Rightarrow> bool"
    and guard :: "'g \<Rightarrow> bool"
    and inv :: "'g \<Rightarrow> bool"
  assumes guard_back: "step g g' \<Longrightarrow> guard g' \<Longrightarrow> guard g"
    and inv_step: "inv g \<Longrightarrow> step g g' \<Longrightarrow> guard g' \<Longrightarrow> inv g'"
begin

lemma inv_reach: "step\<^sup>*\<^sup>* g0 g \<Longrightarrow> inv g0 \<Longrightarrow> guard g \<Longrightarrow> inv g"
  by (induction rule: rtranclp_induct) (auto intro: guard_back inv_step)

end

subsection \<open>Coming to rest\<close>

text \<open>A system whose steps keep an invariant and use up work.\<close>

locale draining =
  fixes step :: "'g \<Rightarrow> 'g \<Rightarrow> bool"
    and inv :: "'g \<Rightarrow> bool"
    and work :: "'g \<Rightarrow> nat"
  assumes inv_step: "inv g \<Longrightarrow> step g g' \<Longrightarrow> inv g'"
    and work_step: "inv g \<Longrightarrow> step g g' \<Longrightarrow> work g' < work g"
begin

lemma inv_run: "step\<^sup>*\<^sup>* g g' \<Longrightarrow> inv g \<Longrightarrow> inv g'"
  by (induction rule: rtranclp_induct) (auto intro: inv_step)

lemma comes_to_rest: "inv g \<Longrightarrow> \<exists>g'. step\<^sup>*\<^sup>* g g' \<and> inv g' \<and> (\<forall>g''. \<not> step g' g'')"
proof (induction "work g" arbitrary: g rule: less_induct)
  case less
  show ?case
  proof (cases "\<exists>g1. step g g1")
    case True
    then obtain g1 where g1: "step g g1" by blast
    from less.hyps [OF work_step [OF less.prems g1] inv_step [OF less.prems g1]] obtain g' where
      "step\<^sup>*\<^sup>* g1 g'" "inv g'" "\<forall>g''. \<not> step g' g''" by blast
    with g1 show ?thesis by (blast intro: converse_rtranclp_into_rtranclp)
  next
    case False
    with less.prems show ?thesis by blast
  qed
qed

lemma no_infinite_run: "inv (r 0) \<Longrightarrow> \<not> (\<forall>i. step (r i) (r (Suc i)))"
proof
  assume start: "inv (r 0)" and run: "\<forall>i. step (r i) (r (Suc i))"
  have inv: "inv (r i)" for i by (induction i) (use start run in \<open>auto intro: inv_step\<close>)
  have "work (r i) + i \<le> work (r 0)" for i
  proof (induction i)
    case (Suc i)
    then show ?case using work_step [OF inv, of i "r (Suc i)"] run by fastforce
  qed simp
  from this [of "Suc (work (r 0))"] show False by simp
qed

end

end
