(* ===== verification/Dispatch.thy ===== *)
theory Dispatch
  imports Clients Uart Systems "HOL-Library.Sublist"
begin

section \<open>The threads of the gateway process: user/main.c and uart/uart.c\<close>

text \<open>
  \<open>TransMsgThread\<close> takes the messages out of the queue and writes each to the fifo of every client.
  It runs beside \<open>Uart_ReadThread\<close>; the signal handler \<open>Tftp_Sig\<close> may replace the device table at any
  moment.  Each thread is a program counter and a step function.  A step is what runs without
  another thread observing or changing it: a critical section of the mutex, a semaphore operation,
  a system call.  \<open>g_writes\<close> is the sequence of writes to fifos; \<open>g_in\<close> is the history of the bytes
  that arrived, and no step depends on it.
\<close>

datatype uart_pc = U_read | U_enqueue addr | U_post | U_clear

datatype trans_pc = T_wait | T_dequeue | T_check | T_write "addr option"

record gateway =
  g_sh :: shared
  g_uart :: uart
  g_upc :: uart_pc
  g_tab :: iptab
  g_msg :: "addr option"
  g_tpc :: trans_pc
  g_writes :: "(int \<times> u8 list) list"
  g_in :: "u8 list"

datatype gw_result = Undefined | Blocked | Ended | Next gateway

subsection \<open>Steps\<close>

definition uart_byte :: "(nat \<Rightarrow> addr option) \<Rightarrow> u8 list \<Rightarrow> int \<Rightarrow> u8 \<Rightarrow> gateway \<Rightarrow> gw_result" where
  "uart_byte mal now rc ch g =
     (if g_upc g \<noteq> U_read then Blocked
      else
        (case uart_recv mal now rc (g_sh g) (g_uart g) ch of
           None \<Rightarrow> Undefined
         | Some Exited \<Rightarrow> Ended
         | Some (Running (sh, u, blk)) \<Rightarrow>
             Next (g\<lparr>g_sh := sh, g_uart := u, g_in := g_in g @ [ch],
               g_upc := (case blk of None \<Rightarrow> U_read | Some a \<Rightarrow> U_enqueue a)\<rparr>)))"

definition uart_step :: "(nat \<Rightarrow> addr option) \<Rightarrow> gateway \<Rightarrow> gw_result" where
  "uart_step mal g =
     (case g_upc g of
        U_read \<Rightarrow> Blocked
      | U_enqueue a \<Rightarrow>
          (case uart_enqueue mal (g_sh g) a of
             None \<Rightarrow> Undefined
           | Some sh \<Rightarrow> Next (g\<lparr>g_sh := sh, g_upc := U_post\<rparr>))
      | U_post \<Rightarrow> Next (g\<lparr>g_sh := uart_post (g_sh g), g_upc := U_clear\<rparr>)
      | U_clear \<Rightarrow> Next (g\<lparr>g_uart := uart_clear (g_uart g), g_upc := U_read\<rparr>))"

text \<open>One turn of the loop that writes the message to the fifo of one client.\<close>

definition trans_write :: "gateway \<Rightarrow> addr \<Rightarrow> gateway option" where
  "trans_write g p =
     do {
       el \<leftarrow> t_heap (g_tab g) p;
       blk \<leftarrow> t_store (g_tab g) (e_data el);
       fd \<leftarrow> ci_fifo_fd blk;
       m \<leftarrow> g_msg g;
       b \<leftarrow> sh_msgs (g_sh g) m;
       s \<leftarrow> cstr b 0;
       Some (g\<lparr>g_writes := g_writes g @ [(fd, s)], g_tpc := T_write (e_next el)\<rparr>)
     }"

definition free_msg :: "addr option \<Rightarrow> msgs \<Rightarrow> msgs option" where
  "free_msg m s = (case m of None \<Rightarrow> Some s | Some a \<Rightarrow> if s a = None then None else Some (s(a := None)))"

definition trans_step :: "gateway \<Rightarrow> gw_result" where
  "trans_step g =
     (let sh = g_sh g in
      case g_tpc g of
        T_wait \<Rightarrow>
          (if sh_sem sh = 0 then Blocked
           else Next (g\<lparr>g_sh := sh\<lparr>sh_sem := sh_sem sh - 1\<rparr>, g_tpc := T_dequeue\<rparr>))
      | T_dequeue \<Rightarrow>
          (case queue_dequeue (sh_heap sh) (sh_queue sh) of
             None \<Rightarrow> Undefined
           | Some (rc, d, h, q) \<Rightarrow>
               Next (g\<lparr>g_sh := sh\<lparr>sh_heap := h, sh_queue := q\<rparr>,
                 g_msg := (case d of None \<Rightarrow> g_msg g | Some a \<Rightarrow> Some a), g_tpc := T_check\<rparr>))
      | T_check \<Rightarrow>
          (if l_size (t_list (g_tab g)) > 0
           then Next (g\<lparr>g_tpc := T_write (l_head (t_list (g_tab g)))\<rparr>)
           else Next (g\<lparr>g_tpc := T_wait\<rparr>))
      | T_write None \<Rightarrow>
          (case free_msg (g_msg g) (sh_msgs sh) of
             None \<Rightarrow> Undefined
           | Some ms \<Rightarrow> Next (g\<lparr>g_sh := sh\<lparr>sh_msgs := ms\<rparr>, g_msg := None, g_tpc := T_wait\<rparr>))
      | T_write (Some p) \<Rightarrow> (case trans_write g p of None \<Rightarrow> Undefined | Some g' \<Rightarrow> Next g'))"

text \<open>The signal handler runs, on the table as it then is.\<close>

definition signal_step ::
  "(nat \<Rightarrow> addr option) \<Rightarrow> u8 list \<Rightarrow> u8 list option \<Rightarrow> (nat \<Rightarrow> fork_env) \<Rightarrow> gateway \<Rightarrow> gw_result" where
  "signal_step mal buff file env g =
     (case Tftp_Sig mal buff file env (g_tab g) of
        None \<Rightarrow> Undefined
      | Some (Cont (t, evs)) \<Rightarrow> Next (g\<lparr>g_tab := t\<rparr>)
      | Some _ \<Rightarrow> Ended)"

text \<open>
  Steps of the two threads, in any order, while the table stays the same.  \<open>malloc\<close> succeeds, with
  new addresses.
\<close>

inductive internal :: "(nat \<Rightarrow> addr) \<Rightarrow> gateway \<Rightarrow> gateway \<Rightarrow> bool" for f where
  internal_uart: "uart_step (mallocs f) g = Next g' \<Longrightarrow> internal f g g'"
| internal_trans: "trans_step g = Next g' \<Longrightarrow> internal f g g'"

inductive gw_step :: "(nat \<Rightarrow> addr) \<Rightarrow> gateway \<Rightarrow> gateway \<Rightarrow> bool" for f where
  step_byte: "ctime_text now \<Longrightarrow> uart_byte (mallocs f) now rc ch g = Next g' \<Longrightarrow> gw_step f g g'"
| step_internal: "internal f g g' \<Longrightarrow> gw_step f g g'"

inductive_cases internalE: "internal f g g'"
inductive_cases gw_stepE: "gw_step f g g'"

text \<open>The writes of a step, which add to what has been written; the table stays as it is.\<close>

definition new_writes :: "gateway \<Rightarrow> gateway \<Rightarrow> (int \<times> u8 list) list" where
  "new_writes g g' = drop (length (g_writes g)) (g_writes g')"

lemmas thread_defs = uart_byte_def uart_step_def trans_step_def trans_write_def Let_def

lemmas thread_splits =
  if_splits option.splits outcome.splits uart_pc.splits trans_pc.splits prod.splits bind_splits

lemma gw_step_keeps:
  assumes "gw_step f g g'"
  shows "g_writes g' = g_writes g @ new_writes g g'" "g_tab g' = g_tab g" "prefix (frames (g_in g)) (frames (g_in g'))"
  using assms by (auto elim!: gw_stepE internalE simp: thread_defs new_writes_def frames_snoc split: thread_splits)

lemma internal_keeps:
  assumes "internal f g g'"
  shows "g_in g' = g_in g" "new_writes g g' = [] \<or> (\<exists>w. new_writes g g' = [w])"
  using assms by (auto elim!: internalE simp: thread_defs new_writes_def split: thread_splits)

lemma uart_byte_keeps: "uart_byte mal now rc ch g = Next g' \<Longrightarrow> g_upc g = U_read \<and> g_in g' = g_in g @ [ch]"
  by (auto simp: thread_defs split: thread_splits)

subsection \<open>The invariant\<close>

text \<open>What the clients of the table \<open>es\<close> are to receive for the messages \<open>fs\<close>.\<close>

definition deliver :: "coapIP list \<Rightarrow> u8 list list \<Rightarrow> (int \<times> u8 list) list" where
  "deliver es fs = concat (map (\<lambda>s. map (\<lambda>c. (the (ci_fifo_fd c), msg_text s)) es) fs)"

definition head_of :: "(addr \<times> addr) list \<Rightarrow> addr option" where
  "head_of xs = (case xs of [] \<Rightarrow> None | x # _ \<Rightarrow> Some (fst x))"

text \<open>Message blocks \<open>ps\<close> (address and bytes) are live, distinct, and, if there are clients, the only ones.\<close>

definition mem_inv :: "(nat \<Rightarrow> addr) \<Rightarrow> coapIP list \<Rightarrow> shared \<Rightarrow> (addr \<times> u8 list) list \<Rightarrow> bool" where
  "mem_inv f es sh ps \<longleftrightarrow>
     inj f \<and> (\<forall>i \<ge> sh_calls sh. sh_heap sh (f i) = None \<and> sh_msgs sh (f i) = None) \<and>
     distinct (map fst ps) \<and> (\<forall>p \<in> set ps. sh_msgs sh (fst p) = Some (msg_block (snd p))) \<and>
     (es \<noteq> [] \<longrightarrow> dom (sh_msgs sh) = fst ` set ps)"

definition uart_inv :: "gateway \<Rightarrow> (addr \<times> u8 list) list \<Rightarrow> bool" where
  "uart_inv g um \<longleftrightarrow>
     (case g_upc g of
        U_read \<Rightarrow> um = [] \<and> uart_holds (g_uart g) (snd (cut (g_in g)))
      | U_enqueue a \<Rightarrow> (\<exists>s. um = [(a, s)]) \<and> snd (cut (g_in g)) = []
      | _ \<Rightarrow> um = [] \<and> snd (cut (g_in g)) = [])"

definition trans_inv ::
  "(addr \<times> addr) list \<Rightarrow> coapIP list \<Rightarrow> gateway \<Rightarrow> u8 list list \<Rightarrow> (addr \<times> u8 list) list \<Rightarrow> bool" where
  "trans_inv xs es g D tm \<longleftrightarrow>
     (case g_tpc g of
        T_check \<Rightarrow> (\<exists>a s. tm = [(a, s)] \<and> g_msg g = Some a) \<and> g_writes g = deliver es D
      | T_write p \<Rightarrow>
          (\<exists>a s k. tm = [(a, s)] \<and> g_msg g = Some a \<and> es \<noteq> [] \<and> k \<le> length xs \<and> p = head_of (drop k xs) \<and>
             g_writes g = deliver es D @ deliver (take k es) [s])
      | _ \<Rightarrow> tm = [] \<and> g_writes g = deliver es D)"

definition sem_inv :: "gateway \<Rightarrow> nat \<Rightarrow> bool" where
  "sem_inv g n \<longleftrightarrow>
     sh_sem (g_sh g) + (if g_tpc g = T_dequeue then 1 else 0) + (if g_upc g = U_post then 1 else 0) = n"

text \<open>
  The messages so far are \<open>D\<close>, done with; \<open>tm\<close>, held by the dispatch thread; \<open>qs\<close>, in the queue; \<open>um\<close>,
  held by the serial port thread.
\<close>

definition gview where
  "gview f xs es g D tm qs um \<longleftrightarrow>
     qrep (sh_heap (g_sh g), sh_queue (g_sh g)) (map fst qs) \<and> mem_inv f es (g_sh g) (tm @ qs @ um) \<and>
     frames (g_in g) = D @ map snd (tm @ qs @ um) \<and> sem_inv g (length qs) \<and>
     uart_inv g um \<and> trans_inv xs es g D tm"

definition tab_ready :: "(addr \<times> addr) list \<Rightarrow> coapIP list \<Rightarrow> iptab \<Rightarrow> bool" where
  "tab_ready xs es t \<longleftrightarrow> tab t xs es \<and> (\<forall>c \<in> set es. ci_fifo_fd c \<noteq> None)"

text \<open>
  For every message one INSERT statement was handed to \<open>sqlite3_exec\<close>, in order; whether the database
  has executed it is not known, as a failure is only printed.
\<close>

definition db_inv :: "gateway \<Rightarrow> bool" where
  "db_inv g \<longleftrightarrow>
     list_all2 (\<lambda>ev s. \<exists>now. ctime_text now \<and> ev = Sqlite_exec (insert_sql now (msg_text s)))
       (filter (\<lambda>ev. ev \<noteq> Sql_error) (sh_db (g_sh g))) (frames (g_in g))"

definition ginv where
  "ginv f xs es g \<longleftrightarrow> tab_ready xs es (g_tab g) \<and> db_inv g \<and> (\<exists>D tm qs um. gview f xs es g D tm qs um)"

definition gw_guard :: "gateway \<Rightarrow> bool" where
  "gw_guard g \<longleftrightarrow> ok_input (g_in g) \<and> length (g_in g) < 2147483647"

text \<open>The steps the threads can still take without another byte.\<close>

definition remaining :: "(addr \<times> addr) list \<Rightarrow> addr option \<Rightarrow> nat" where
  "remaining xs p = (case p of None \<Rightarrow> 0 | Some a \<Rightarrow> length (dropWhile (\<lambda>x. fst x \<noteq> a) xs))"

definition work :: "(addr \<times> addr) list \<Rightarrow> gateway \<Rightarrow> nat" where
  "work xs g =
     (case g_upc g of U_read \<Rightarrow> 0 | U_clear \<Rightarrow> 1 | U_post \<Rightarrow> length xs + 6 | U_enqueue _ \<Rightarrow> length xs + 7) +
     (length xs + 4) * sh_sem (g_sh g) +
     (case g_tpc g of T_wait \<Rightarrow> 0 | T_dequeue \<Rightarrow> length xs + 3 | T_check \<Rightarrow> length xs + 2
      | T_write p \<Rightarrow> remaining xs p + 1)"

subsection \<open>Facts the steps share\<close>

lemma length_frames: "length (frames bs) \<le> length bs"
  by (induction bs rule: rev_induct) (auto simp: frames_snoc)

lemma frames_ok:
  assumes "ok_input bs" and "s \<in> set (frames bs)"
  shows "length s \<le> 512" "length (msg_text s) < 512"
  using assms by (auto simp: ok_input_def ok_piece_def frames_def MSG_LIMIT_def)

lemma deliver_append: "deliver es (fs @ gs) = deliver es fs @ deliver es gs"
  by (simp add: deliver_def)

lemma deliver_take_Suc:
  "k < length es \<Longrightarrow>
     deliver (take (Suc k) es) [s] = deliver (take k es) [s] @ [(the (ci_fifo_fd (es ! k)), msg_text s)]"
  by (simp add: deliver_def take_Suc_conv_app_nth)

lemma chain_nth:
  assumes "chain h p xs None" and "k < length xs"
  shows "h (fst (xs ! k)) = Some \<lparr>e_data = snd (xs ! k), e_next = head_of (drop (Suc k) xs)\<rparr>"
  using assms
proof (induction xs arbitrary: p k)
  case (Cons x xs)
  obtain a d where x: "x = (a, d)" by fastforce
  obtain n where n: "h a = Some \<lparr>e_data = d, e_next = n\<rparr>" "chain h n xs None" using Cons.prems(1) x by auto
  have "n = head_of xs" using n(2) by (cases xs) (auto simp: head_of_def)
  with n Cons x show ?case by (cases k) auto
qed simp

lemma chain_head: "chain h p xs None \<Longrightarrow> p = head_of xs"
  by (cases xs) (auto simp: head_of_def)

lemma head_of_drop: "head_of (drop k xs) = (if k < length xs then Some (fst (xs ! k)) else None)"
  by (auto simp: head_of_def Cons_nth_drop_Suc [symmetric] split: list.splits)

lemma remaining_drop:
  assumes "distinct (map fst xs)" and "k \<le> length xs"
  shows "remaining xs (head_of (drop k xs)) = length xs - k"
proof (cases "k < length xs")
  case True
  have "\<forall>x \<in> set (take k xs). fst x \<noteq> fst (xs ! k)"
  proof
    fix x assume "x \<in> set (take k xs)"
    then obtain i where "i < k" "x = xs ! i" using True by (auto simp: in_set_conv_nth)
    then show "fst x \<noteq> fst (xs ! k)"
      using assms(1) True nth_eq_iff_index_eq [of "map fst xs" i k] by simp
  qed
  then have "dropWhile (\<lambda>x. fst x \<noteq> fst (xs ! k)) (take k xs @ drop k xs) = drop k xs"
    using True by (subst dropWhile_append2) (auto simp: Cons_nth_drop_Suc [symmetric])
  then show ?thesis using True by (simp add: remaining_def head_of_drop)
next
  case False
  with assms(2) show ?thesis by (simp add: remaining_def head_of_def)
qed

lemma tab_readyD:
  assumes "tab_ready xs es t"
  shows "chain (t_heap t) (l_head (t_list t)) xs None" "distinct (map fst xs)" "l_size (t_list t) = int (length xs)"
    "length xs = length es" "k < length xs \<Longrightarrow> t_store t (snd (xs ! k)) = Some (es ! k)"
    "k < length es \<Longrightarrow> \<exists>fd. ci_fifo_fd (es ! k) = Some fd"
proof -
  have t: "lrep (t_heap t) (t_list t) xs" "map (\<lambda>x. t_store t (snd x)) xs = map Some es"
    using assms unfolding tab_ready_def tab_def by blast+
  then show "chain (t_heap t) (l_head (t_list t)) xs None" "distinct (map fst xs)"
    "l_size (t_list t) = int (length xs)" by (auto simp: lrep_def)
  show l: "length xs = length es" using t(2) by (metis length_map)
  show "t_store t (snd (xs ! k)) = Some (es ! k)" if "k < length xs"
    using t(2) that l by (metis nth_map)
  show "\<exists>fd. ci_fifo_fd (es ! k) = Some fd" if "k < length es"
    using assms that nth_mem [OF that] by (auto simp: tab_ready_def)
qed

subsection \<open>Each step keeps the invariant\<close>

lemma ginvI: "tab_ready xs es (g_tab g) \<Longrightarrow> db_inv g \<Longrightarrow> gview f xs es g D tm qs um \<Longrightarrow> ginv f xs es g"
  by (auto simp: ginv_def)

lemma ginvE:
  assumes "ginv f xs es g"
  obtains D tm qs um where "tab_ready xs es (g_tab g)" "db_inv g" "gview f xs es g D tm qs um"
  using assms by (auto simp: ginv_def)

lemma gview_length:
  assumes "gview f xs es g D tm qs um" and "gw_guard g"
  shows "length qs < 2147483647" "sh_sem (g_sh g) < 2147483647"
proof -
  have "length (D @ map snd (tm @ qs @ um)) < 2147483647"
    using assms length_frames [of "g_in g"] by (simp add: gview_def gw_guard_def)
  then show "length qs < 2147483647" by simp
  then show "sh_sem (g_sh g) < 2147483647" using assms(1) by (auto simp: gview_def sem_inv_def)
qed

text \<open>What a thread step achieves: it is defined, keeps the invariant, and uses up work.\<close>

definition progress where
  "progress f xs es g r \<longleftrightarrow>
     (\<exists>g'. r = Next g' \<and> ginv f xs es g' \<and> g_in g' = g_in g \<and> g_tab g' = g_tab g \<and> work xs g' < work xs g)"

lemma progressI:
  "ginv f xs es g' \<Longrightarrow> g_in g' = g_in g \<Longrightarrow> g_tab g' = g_tab g \<Longrightarrow> work xs g' < work xs g \<Longrightarrow>
     progress f xs es g (Next g')"
  by (auto simp: progress_def)

text \<open>Each part of the invariant looks at some fields only.\<close>

lemma trans_inv_cong:
  "trans_inv xs es g D tm \<Longrightarrow> g_tpc g' = g_tpc g \<Longrightarrow> g_msg g' = g_msg g \<Longrightarrow> g_writes g' = g_writes g \<Longrightarrow>
     trans_inv xs es g' D tm"
  by (cases "g_tpc g") (simp_all add: trans_inv_def)

lemma uart_inv_cong:
  "uart_inv g um \<Longrightarrow> g_upc g' = g_upc g \<Longrightarrow> g_uart g' = g_uart g \<Longrightarrow> g_in g' = g_in g \<Longrightarrow> uart_inv g' um"
  by (cases "g_upc g") (simp_all add: uart_inv_def)

lemma mem_inv_sem [simp]: "mem_inv f es (sh\<lparr>sh_sem := n\<rparr>) ps = mem_inv f es sh ps"
  by (simp add: mem_inv_def)

lemma gviewI:
  assumes "qrep (sh_heap (g_sh g), sh_queue (g_sh g)) (map fst qs)" "mem_inv f es (g_sh g) (tm @ qs @ um)"
    "frames (g_in g) = D @ map snd (tm @ qs @ um)" "sem_inv g (length qs)" "uart_inv g um" "trans_inv xs es g D tm"
  shows "gview f xs es g D tm qs um"
  using assms by (simp add: gview_def)

lemma gviewD:
  assumes "gview f xs es g D tm qs um"
  shows "qrep (sh_heap (g_sh g), sh_queue (g_sh g)) (map fst qs)" "mem_inv f es (g_sh g) (tm @ qs @ um)"
    "frames (g_in g) = D @ map snd (tm @ qs @ um)" "sem_inv g (length qs)" "uart_inv g um" "trans_inv xs es g D tm"
  using assms unfolding gview_def by blast+

lemma uart_enqueue_ok:
  assumes v: "gview f xs es g D tm qs um" and tab: "tab_ready xs es (g_tab g)" "db_inv g"
    and guard: "gw_guard g" and pc: "g_upc g = U_enqueue a"
  shows "progress f xs es g (uart_step (mallocs f) g)"
proof -
  let ?sh = "g_sh g"
  obtain s where um: "um = [(a, s)]" "snd (cut (g_in g)) = []"
    using v pc by (auto simp: gview_def uart_inv_def)
  have mem: "mem_inv f es ?sh (tm @ qs @ um)" and rep: "qrep (sh_heap ?sh, sh_queue ?sh) (map fst qs)"
    using v by (auto simp: gview_def)
  have fresh: "qfresh (Some (f (sh_calls ?sh))) (sh_heap ?sh, sh_queue ?sh)"
    using mem by (simp add: qfresh_def mem_inv_def)
  obtain h q where e: "queue_enqueue (Some (f (sh_calls ?sh))) (sh_heap ?sh) (sh_queue ?sh) a = Some (0, h, q)"
    "qrep (h, q) (map fst qs @ [a])"
    using cq.enq_rep [OF rep fresh, of a] gview_length [OF v guard] by (auto simp: qenq_def)
  let ?sh' = "?sh\<lparr>sh_heap := h, sh_queue := q, sh_calls := sh_calls ?sh + 1\<rparr>"
  let ?g' = "g\<lparr>g_sh := ?sh', g_upc := U_post\<rparr>"
  have step: "uart_step (mallocs f) g = Next ?g'"
    using pc e(1) by (simp add: uart_step_def uart_enqueue_def mallocs_def)
  have "dom h \<subseteq> insert (f (sh_calls ?sh)) (dom (sh_heap ?sh))"
    using e(1) unfolding queue_enqueue_def by (rule list_ins_next_dom)
  moreover have "inj f" "\<forall>i \<ge> sh_calls ?sh. sh_heap ?sh (f i) = None" using mem by (auto simp: mem_inv_def)
  ultimately have "\<forall>i \<ge> sh_calls ?sh + 1. h (f i) = None" by (fastforce dest: injD)
  then have "mem_inv f es ?sh' (tm @ (qs @ um) @ [])" using mem by (simp add: mem_inv_def)
  then have "gview f xs es ?g' D tm (qs @ um) []"
    using gviewD [OF v] e(2) um pc
    by (intro gviewI) (auto simp: uart_inv_def sem_inv_def intro: trans_inv_cong [of _ _ g])
  then have "ginv f xs es ?g'" using tab by (intro ginvI) (auto simp: db_inv_def)
  then show ?thesis unfolding step by (rule progressI) (simp_all add: work_def pc)
qed

lemma uart_step_ok:
  assumes inv: "ginv f xs es g" and guard: "gw_guard g"
  shows "(g_upc g = U_read \<and> uart_step (mallocs f) g = Blocked) \<or> progress f xs es g (uart_step (mallocs f) g)"
proof -
  obtain D tm qs um where v: "gview f xs es g D tm qs um" and tab: "tab_ready xs es (g_tab g)" "db_inv g"
    using inv by (rule ginvE)
  show ?thesis
  proof (cases "g_upc g")
    case U_read
    then show ?thesis by (simp add: uart_step_def)
  next
    case (U_enqueue a)
    then show ?thesis using uart_enqueue_ok [OF v tab guard] by blast
  next
    case U_post
    let ?g' = "g\<lparr>g_sh := (g_sh g)\<lparr>sh_sem := sh_sem (g_sh g) + 1\<rparr>, g_upc := U_clear\<rparr>"
    have step: "uart_step (mallocs f) g = Next ?g'"
      using U_post gview_length [OF v guard] by (simp add: uart_step_def uart_post_def)
    have "gview f xs es ?g' D tm qs um"
      using gviewD [OF v] U_post
      by (intro gviewI) (auto simp: uart_inv_def sem_inv_def intro: trans_inv_cong [of _ _ g])
    then have "ginv f xs es ?g'" using tab by (intro ginvI) (auto simp: db_inv_def)
    then have "progress f xs es g (Next ?g')" by (rule progressI) (simp_all add: work_def U_post)
    then show ?thesis unfolding step by blast
  next
    case U_clear
    let ?g' = "g\<lparr>g_uart := uart_clear (g_uart g), g_upc := U_read\<rparr>"
    have "gview f xs es ?g' D tm qs um"
      using gviewD [OF v] U_clear uart_clear_holds
      by (intro gviewI) (auto simp: uart_inv_def sem_inv_def intro: trans_inv_cong [of _ _ g])
    then have "ginv f xs es ?g'" using tab by (intro ginvI) (auto simp: db_inv_def)
    then have "progress f xs es g (Next ?g')" by (rule progressI) (simp_all add: work_def U_clear)
    then show ?thesis using U_clear by (simp add: uart_step_def)
  qed
qed

lemma trans_dequeue_ok:
  assumes v: "gview f xs es g D tm qs um" and tab: "tab_ready xs es (g_tab g)" "db_inv g"
    and guard: "gw_guard g" and pc: "g_tpc g = T_dequeue"
  shows "progress f xs es g (trans_step g)"
proof -
  let ?sh = "g_sh g"
  note vs = gviewD [OF v]
  obtain a s qs' where qs: "qs = (a, s) # qs'"
    using vs(4) pc by (cases qs) (auto simp: sem_inv_def split: if_splits)
  have tm: "tm = []" "g_writes g = deliver es D" using vs(6) pc by (auto simp: trans_inv_def)
  have rep: "qrep (sh_heap ?sh, sh_queue ?sh) (a # map fst qs')" using vs(1) qs by simp
  have "length (map fst qs') < 2147483647" using gview_length [OF v guard] qs by simp
  from cq.deq_rep [OF rep this] obtain h q where
    d: "queue_dequeue (sh_heap ?sh) (sh_queue ?sh) = Some (0, Some a, h, q)" "qrep (h, q) (map fst qs')"
    by (auto simp: qdeq_def)
  let ?g' = "g\<lparr>g_sh := ?sh\<lparr>sh_heap := h, sh_queue := q\<rparr>, g_msg := Some a, g_tpc := T_check\<rparr>"
  have step: "trans_step g = Next ?g'" using pc d(1) by (simp add: trans_step_def)
  have "dom h \<subseteq> dom (sh_heap ?sh)" using d(1) unfolding queue_dequeue_def by (rule list_rem_next_dom)
  then have "\<forall>i \<ge> sh_calls ?sh. h (f i) = None" using vs(2) by (fastforce simp: mem_inv_def)
  then have "mem_inv f es (?sh\<lparr>sh_heap := h, sh_queue := q\<rparr>) ([(a, s)] @ qs' @ um)"
    using vs(2) qs tm(1) by (simp add: mem_inv_def)
  moreover have "trans_inv xs es ?g' D [(a, s)]" using tm(2) by (simp add: trans_inv_def)
  ultimately have "gview f xs es ?g' D [(a, s)] qs' um"
    using vs d(2) qs tm(1) pc
    by (intro gviewI) (auto simp: sem_inv_def intro: uart_inv_cong [of g])
  then have "ginv f xs es ?g'" using tab by (intro ginvI) (auto simp: db_inv_def)
  then show ?thesis unfolding step by (rule progressI) (simp_all add: work_def pc)
qed

lemma trans_check_ok:
  assumes v: "gview f xs es g D tm qs um" and tab: "tab_ready xs es (g_tab g)" "db_inv g"
    and pc: "g_tpc g = T_check"
  shows "progress f xs es g (trans_step g)"
proof -
  note vs = gviewD [OF v] and t = tab_readyD [OF tab(1)]
  obtain a s where tm: "tm = [(a, s)]" "g_msg g = Some a" "g_writes g = deliver es D"
    using vs(6) pc by (auto simp: trans_inv_def)
  show ?thesis
  proof (cases "xs = []")
    case False
    let ?g' = "g\<lparr>g_tpc := T_write (l_head (t_list (g_tab g)))\<rparr>"
    have step: "trans_step g = Next ?g'" using pc False t(3) by (simp add: trans_step_def)
    have h: "l_head (t_list (g_tab g)) = head_of (drop 0 xs)" using chain_head [OF t(1)] by simp
    have "trans_inv xs es ?g' D tm" using tm h False t(4)
      by (auto simp: trans_inv_def deliver_def intro!: exI [of _ 0])
    then have "gview f xs es ?g' D tm qs um"
      using vs pc by (intro gviewI) (auto simp: sem_inv_def intro: uart_inv_cong [of g])
    then have "ginv f xs es ?g'" using tab by (intro ginvI) (auto simp: db_inv_def)
    moreover have "work xs ?g' < work xs g" using remaining_drop [OF t(2), of 0] h by (simp add: work_def pc)
    ultimately show ?thesis unfolding step by (intro progressI) auto
  next
    case True
    let ?g' = "g\<lparr>g_tpc := T_wait\<rparr>"
    have step: "trans_step g = Next ?g'" using pc True t(3) by (simp add: trans_step_def)
    have es: "es = []" using True t(4) by simp
    have "trans_inv xs es ?g' (D @ [s]) []" using tm(3) by (simp add: trans_inv_def deliver_def es)
    moreover have "mem_inv f es (g_sh g) ([] @ qs @ um)" using vs(2) tm(1) by (simp add: mem_inv_def es)
    ultimately have "gview f xs es ?g' (D @ [s]) [] qs um"
      using vs pc tm(1) by (intro gviewI) (auto simp: sem_inv_def intro: uart_inv_cong [of g])
    then have "ginv f xs es ?g'" using tab by (intro ginvI) (auto simp: db_inv_def)
    then show ?thesis unfolding step by (rule progressI) (simp_all add: work_def pc)
  qed
qed

lemma trans_free_ok:
  assumes v: "gview f xs es g D tm qs um" and tab: "tab_ready xs es (g_tab g)" "db_inv g"
    and pc: "g_tpc g = T_write None"
  shows "progress f xs es g (trans_step g)"
proof -
  let ?sh = "g_sh g"
  note vs = gviewD [OF v] and t = tab_readyD [OF tab(1)]
  obtain a s k where tm: "tm = [(a, s)]" "g_msg g = Some a" "es \<noteq> []" "k \<le> length xs"
    "head_of (drop k xs) = None" "g_writes g = deliver es D @ deliver (take k es) [s]"
    using vs(6) pc by (auto simp: trans_inv_def)
  have "k = length es" using tm(4,5) t(4) by (auto simp: head_of_drop split: if_splits)
  then have w: "g_writes g = deliver es (D @ [s])" using tm(6) by (simp add: deliver_append)
  have live: "sh_msgs ?sh a \<noteq> None" using vs(2) tm(1) by (simp add: mem_inv_def)
  let ?sh' = "?sh\<lparr>sh_msgs := (sh_msgs ?sh)(a := None)\<rparr>"
  let ?g' = "g\<lparr>g_sh := ?sh', g_msg := None, g_tpc := T_wait\<rparr>"
  have step: "trans_step g = Next ?g'" using pc tm(2) live by (auto simp: trans_step_def free_msg_def Let_def)
  have "mem_inv f es ?sh' ([] @ qs @ um)" using vs(2) tm(1) by (auto simp: mem_inv_def)
  moreover have "trans_inv xs es ?g' (D @ [s]) []" using w by (simp add: trans_inv_def)
  ultimately have "gview f xs es ?g' (D @ [s]) [] qs um"
    using vs pc tm(1) by (intro gviewI) (auto simp: sem_inv_def intro: uart_inv_cong [of g])
  then have "ginv f xs es ?g'" using tab by (intro ginvI) (auto simp: db_inv_def)
  then show ?thesis unfolding step by (rule progressI) (simp_all add: work_def pc)
qed

lemma trans_write_ok:
  assumes v: "gview f xs es g D tm qs um" and tab: "tab_ready xs es (g_tab g)" "db_inv g"
    and guard: "gw_guard g" and pc: "g_tpc g = T_write (Some p)"
  shows "progress f xs es g (trans_step g)"
proof -
  note vs = gviewD [OF v] and t = tab_readyD [OF tab(1)]
  obtain a s k where tm: "tm = [(a, s)]" "g_msg g = Some a" "es \<noteq> []" "k \<le> length xs"
    "head_of (drop k xs) = Some p" "g_writes g = deliver es D @ deliver (take k es) [s]"
    using vs(6) pc by (auto simp: trans_inv_def)
  have k: "k < length xs" "fst (xs ! k) = p" using tm(5) by (auto simp: head_of_drop split: if_splits)
  have node: "t_heap (g_tab g) p = Some \<lparr>e_data = snd (xs ! k), e_next = head_of (drop (Suc k) xs)\<rparr>"
    using chain_nth [OF t(1) k(1)] k(2) by simp
  obtain fd where fd: "ci_fifo_fd (es ! k) = Some fd" using t(6) [of k] k(1) t(4) by auto
  have blk: "sh_msgs (g_sh g) a = Some (msg_block s)" using vs(2) tm(1) by (simp add: mem_inv_def)
  have "s \<in> set (frames (g_in g))" using vs(3) tm(1) by simp
  from cstr_msg_block [OF frames_ok [OF _ this]] guard
  have str: "cstr (msg_block s) 0 = Some (msg_text s)" by (simp add: gw_guard_def)
  let ?g' = "g\<lparr>g_writes := g_writes g @ [(fd, msg_text s)], g_tpc := T_write (head_of (drop (Suc k) xs))\<rparr>"
  have step: "trans_step g = Next ?g'"
    using pc node t(5) [OF k(1)] fd tm(2) blk str by (simp add: trans_step_def trans_write_def)
  have "g_writes g @ [(fd, msg_text s)] = deliver es D @ deliver (take (Suc k) es) [s]"
    using tm(6) k(1) t(4) fd by (simp add: deliver_take_Suc)
  then have "trans_inv xs es ?g' D tm"
    using tm(1-3) k(1) by (auto simp: trans_inv_def intro!: exI [of _ "Suc k"])
  then have "gview f xs es ?g' D tm qs um"
    using vs pc by (intro gviewI) (auto simp: sem_inv_def intro: uart_inv_cong [of g])
  then have "ginv f xs es ?g'" using tab by (intro ginvI) (auto simp: db_inv_def)
  moreover have "work xs ?g' < work xs g"
    using remaining_drop [OF t(2), of k] remaining_drop [OF t(2), of "Suc k"] k(1) tm(5) by (simp add: work_def pc)
  ultimately show ?thesis unfolding step by (intro progressI) auto
qed

lemma trans_step_ok:
  assumes inv: "ginv f xs es g" and guard: "gw_guard g"
  shows "(g_tpc g = T_wait \<and> sh_sem (g_sh g) = 0 \<and> trans_step g = Blocked) \<or> progress f xs es g (trans_step g)"
proof -
  obtain D tm qs um where v: "gview f xs es g D tm qs um" and tab: "tab_ready xs es (g_tab g)" "db_inv g"
    using inv by (rule ginvE)
  show ?thesis
  proof (cases "g_tpc g")
    case T_wait
    note vs = gviewD [OF v]
    show ?thesis
    proof (cases "sh_sem (g_sh g) = 0")
      case True
      with T_wait show ?thesis by (simp add: trans_step_def)
    next
      case False
      let ?g' = "g\<lparr>g_sh := (g_sh g)\<lparr>sh_sem := sh_sem (g_sh g) - 1\<rparr>, g_tpc := T_dequeue\<rparr>"
      have step: "trans_step g = Next ?g'" using T_wait False by (simp add: trans_step_def Let_def)
      have "trans_inv xs es ?g' D tm" using vs(6) T_wait by (simp add: trans_inv_def)
      then have "gview f xs es ?g' D tm qs um"
        using vs T_wait False by (intro gviewI) (auto simp: sem_inv_def intro: uart_inv_cong [of g])
      then have "ginv f xs es ?g'" using tab by (intro ginvI) (auto simp: db_inv_def)
      moreover have "work xs ?g' < work xs g"
        using False by (cases "sh_sem (g_sh g)") (simp_all add: work_def T_wait)
      ultimately show ?thesis unfolding step by (intro disjI2 progressI) auto
    qed
  next
    case T_dequeue
    then show ?thesis using trans_dequeue_ok [OF v tab guard] by blast
  next
    case T_check
    then show ?thesis using trans_check_ok [OF v tab] by blast
  next
    case (T_write p)
    then show ?thesis
      using trans_free_ok [OF v tab] trans_write_ok [OF v tab guard] by (cases p) auto
  qed
qed

lemma mem_inv_add:
  assumes m: "mem_inv f es sh ps"
  shows "mem_inv f es (stored_message now rc sh (f (sh_calls sh)) s) (ps @ [(f (sh_calls sh), s)])"
proof -
  have i: "inj f" "\<forall>i \<ge> sh_calls sh. sh_heap sh (f i) = None \<and> sh_msgs sh (f i) = None"
    using m by (auto simp: mem_inv_def)
  then have "f (sh_calls sh) \<notin> fst ` set ps" using m by (force simp: mem_inv_def)
  moreover have "f i \<noteq> f (sh_calls sh)" if "i \<ge> sh_calls sh + 1" for i using i(1) that by (simp add: inj_eq)
  ultimately show ?thesis using m i by (simp add: mem_inv_def stored_message_def) force
qed

lemma uart_byte_ok:
  assumes inv: "ginv f xs es g" and pc: "g_upc g = U_read" and now: "ctime_text now"
    and ok: "ok_input (g_in g @ [ch])"
  shows "\<exists>g'. uart_byte (mallocs f) now rc ch g = Next g' \<and> ginv f xs es g' \<and> g_in g' = g_in g @ [ch]"
proof -
  let ?sh = "g_sh g" and ?cur = "snd (cut (g_in g))" and ?a = "f (sh_calls (g_sh g))"
  let ?s = "?cur @ [ch]"
  let ?full = "ch = UART_END_FLAG \<and> hd ?s = UART_START_FLAG"
  obtain D tm qs um where v: "gview f xs es g D tm qs um" and tab: "tab_ready xs es (g_tab g)" and db: "db_inv g"
    using inv by (rule ginvE)
  note vs = gviewD [OF v]
  have u: "um = []" "uart_holds (g_uart g) ?cur" using vs(5) pc by (auto simp: uart_inv_def)
  have len: "length ?cur < 512" "?full \<longrightarrow> length (msg_text ?s) \<le> MSG_LIMIT"
    using ok by (auto simp: ok_input_def cut1_def ok_piece_def split: if_splits)
  let ?sh' = "if ?full then stored_message now rc ?sh ?a ?s else ?sh"
  obtain u' where r: "uart_recv (mallocs f) now rc ?sh (g_uart g) ch =
      Some (Running (?sh', u', if ?full then Some ?a else None))"
    "if ch = UART_END_FLAG then hd ?s = UART_START_FLAG \<or> uart_holds u' [] else uart_holds u' ?s"
    using uart_recv_piece [where mal = "mallocs f" and sh = ?sh and rc = rc, OF u(2) len now mallocs_Some] by blast
  let ?g' = "g\<lparr>g_sh := ?sh', g_uart := u', g_in := g_in g @ [ch], g_upc := if ?full then U_enqueue ?a else U_read\<rparr>"
  let ?um = "if ?full then [(?a, ?s)] else []"
  have step: "uart_byte (mallocs f) now rc ch g = Next ?g'" using pc r(1) by (cases ?full) (auto simp: uart_byte_def)
  have ui: "uart_inv ?g' ?um" using r(2) by (auto simp: uart_inv_def cut1_def)
  have si: "sem_inv ?g' (length qs)" using vs(4) pc by (auto simp: sem_inv_def stored_message_def)
  have ti: "trans_inv xs es ?g' D tm" by (rule trans_inv_cong [OF vs(6)]) simp_all
  have fr: "frames (g_in g @ [ch]) = D @ map snd (tm @ qs @ ?um)" using vs(3) u(1) by (simp add: frames_snoc)
  have m: "mem_inv f es ?sh (tm @ qs)" using vs(2) u(1) by simp
  have "mem_inv f es (if b then stored_message now rc ?sh ?a ?s else ?sh) (tm @ qs @ (if b then [(?a, ?s)] else []))" for b
    using m mem_inv_add [OF m] by (cases b) simp_all
  then have mi: "mem_inv f es ?sh' (tm @ qs @ ?um)" by blast
  have "qrep (sh_heap ?sh', sh_queue ?sh') (map fst qs)" using vs(1) by (simp add: stored_message_def)
  then have "gview f xs es ?g' D tm qs ?um"
    using mi fr si ui ti by (intro gviewI) simp_all
  moreover have "db_inv ?g'"
    using db now by (auto simp: db_inv_def frames_snoc stored_message_def intro!: list_all2_appendI)
  ultimately have "ginv f xs es ?g'" using tab by (intro ginvI) simp_all
  with step show ?thesis by auto
qed

subsection \<open>Every reachable state\<close>

interpretation gw: guarded_system "gw_step f" gw_guard "ginv f xs es" for f xs es
proof unfold_locales
  fix g g'
  assume step: "gw_step f g g'" and guard: "gw_guard g'"
  have "g_in g = g_in g' \<or> (\<exists>ch. g_in g' = g_in g @ [ch])"
    using step
  proof cases
    case (step_byte now rc ch)
    then show ?thesis using uart_byte_keeps by blast
  next
    case step_internal
    then show ?thesis using internal_keeps(1) by metis
  qed
  then show "gw_guard g" using guard ok_input_snoc by (auto simp: gw_guard_def)
next
  fix g g'
  assume inv: "ginv f xs es g" and step: "gw_step f g g'" and guard: "gw_guard g'"
  show "ginv f xs es g'"
    using step
  proof cases
    case (step_byte now rc ch)
    then have pc: "g_upc g = U_read" and i: "g_in g' = g_in g @ [ch]" using uart_byte_keeps by blast+
    with uart_byte_ok [OF inv pc step_byte(1), of ch rc] guard step_byte(2) show ?thesis
      by (auto simp: gw_guard_def)
  next
    case step_internal
    then have i: "g_in g' = g_in g" by (rule internal_keeps(1))
    then have guard': "gw_guard g" using guard by (simp add: gw_guard_def)
    from step_internal uart_step_ok [OF inv guard'] trans_step_ok [OF inv guard'] show ?thesis
      by (auto elim!: internalE simp: progress_def)
  qed
qed

text \<open>The state after the set-up in \<open>main\<close>, with a table \<open>t\<close>.\<close>

definition gw_init :: "iptab \<Rightarrow> gateway" where
  "gw_init t = \<lparr>g_sh = \<lparr>sh_heap = Map.empty, sh_queue = queue_init (Some (\<lambda>a. free_msg (Some a))),
       sh_msgs = Map.empty, sh_sem = 0, sh_calls = 0, sh_db = []\<rparr>,
     g_uart = \<lparr>u_buf = replicate UART_RD_BUF_SIZE 0, u_count = 0\<rparr>, g_upc = U_read, g_tab = t, g_msg = None,
     g_tpc = T_wait, g_writes = [], g_in = []\<rparr>"

lemma gw_init_inv:
  assumes "tab_ready xs es t" and "inj f"
  shows "ginv f xs es (gw_init t)"
proof (rule ginvI)
  show "gview f xs es (gw_init t) [] [] [] []"
    by (rule gviewI) (simp_all add: gw_init_def qrep_init mem_inv_def assms sem_inv_def uart_inv_def trans_inv_def
        deliver_def uart_holds_def UART_RD_BUF_SIZE_def)
qed (simp_all add: gw_init_def assms db_inv_def)

definition gw_reach :: "(nat \<Rightarrow> addr) \<Rightarrow> (addr \<times> addr) list \<Rightarrow> coapIP list \<Rightarrow> gateway \<Rightarrow> bool" where
  "gw_reach f xs es g \<longleftrightarrow> (\<exists>t. tab_ready xs es t \<and> inj f \<and> (gw_step f)\<^sup>*\<^sup>* (gw_init t) g)"

lemma gw_reach_inv: "gw_reach f xs es g \<Longrightarrow> gw_guard g \<Longrightarrow> ginv f xs es g"
  unfolding gw_reach_def using gw.inv_reach gw_init_inv by blast

lemma gview_writes:
  assumes "gview f xs es g D tm qs um" and "tab_ready xs es (g_tab g)"
  shows "prefix (g_writes g) (deliver es (frames (g_in g)))"
proof -
  note vs = gviewD [OF assms(1)]
  have all: "deliver es (frames (g_in g)) = deliver es D @ deliver es (map snd tm) @ deliver es (map snd (qs @ um))"
    using vs(3) by (simp add: deliver_append)
  show ?thesis
  proof (cases "g_tpc g")
    case (T_write p)
    then obtain a s k where tm: "tm = [(a, s)]" "g_writes g = deliver es D @ deliver (take k es) [s]"
      using vs(6) by (auto simp: trans_inv_def)
    have "deliver es [s] = deliver (take k es) [s] @ deliver (drop k es) [s]"
      by (simp add: deliver_def flip: map_append)
    with tm all show ?thesis by simp
  qed (use vs(6) all in \<open>auto simp: trans_inv_def\<close>)
qed

text \<open>The gateway at rest: neither thread can go on without another byte.\<close>

definition quiet :: "(nat \<Rightarrow> addr) \<Rightarrow> gateway \<Rightarrow> bool" where
  "quiet f g \<longleftrightarrow> uart_step (mallocs f) g = Blocked \<and> trans_step g = Blocked"

lemma quiet_view:
  assumes "ginv f xs es g" and "gw_guard g" and "quiet f g"
  shows "g_writes g = deliver es (frames (g_in g)) \<and> sh_sem (g_sh g) = 0 \<and>
     queue_size (sh_queue (g_sh g)) = 0 \<and> (es \<noteq> [] \<longrightarrow> dom (sh_msgs (g_sh g)) = {})"
proof -
  obtain D tm qs um where v: "gview f xs es g D tm qs um" using assms(1) by (rule ginvE)
  note vs = gviewD [OF v]
  have pc: "g_upc g = U_read" "g_tpc g = T_wait" "sh_sem (g_sh g) = 0"
    using uart_step_ok [OF assms(1,2)] trans_step_ok [OF assms(1,2)] assms(3) by (auto simp: quiet_def progress_def)
  have e: "um = []" "tm = []" "qs = []" "g_writes g = deliver es D"
    using vs(4-6) pc by (auto simp: uart_inv_def trans_inv_def sem_inv_def)
  moreover have "queue_size (sh_queue (g_sh g)) = 0"
    using queue_size_rep [OF vs(1)] e(3) by simp
  ultimately show ?thesis using vs(2,3) pc(3) by (auto simp: mem_inv_def)
qed

text \<open>Steps of the threads use up work, so that they come to rest.\<close>

lemma internal_ok:
  assumes "ginv f xs es g" and "gw_guard g" and "internal f g g'"
  shows "work xs g' < work xs g \<and> g_in g' = g_in g \<and> ginv f xs es g'"
  using assms(3) uart_step_ok [OF assms(1,2)] trans_step_ok [OF assms(1,2)]
  by (auto elim!: internalE simp: progress_def)

interpretation threads: draining "internal f" "\<lambda>g. ginv f xs es g \<and> gw_guard g \<and> g_in g = bs" "work xs" for f xs es bs
proof unfold_locales
  fix g g' :: gateway
  assume i: "ginv f xs es g \<and> gw_guard g \<and> g_in g = bs" and s: "internal f g g'"
  then have ok: "work xs g' < work xs g" "g_in g' = g_in g" "ginv f xs es g'"
    using internal_ok [of f xs es g g'] by blast+
  show "work xs g' < work xs g" by (rule ok)
  show "ginv f xs es g' \<and> gw_guard g' \<and> g_in g' = bs" using ok i by (auto simp: gw_guard_def)
qed

lemma internal_drains:
  assumes "ginv f xs es g" and "gw_guard g"
  shows "\<exists>g'. (internal f)\<^sup>*\<^sup>* g g' \<and> quiet f g' \<and> ginv f xs es g' \<and> g_in g' = g_in g"
proof -
  have "\<exists>g'. (internal f)\<^sup>*\<^sup>* g g' \<and> (ginv f xs es g' \<and> gw_guard g' \<and> g_in g' = g_in g) \<and> (\<forall>g''. \<not> internal f g' g'')"
    by (rule threads.comes_to_rest) (simp add: assms)
  then obtain g' where g': "(internal f)\<^sup>*\<^sup>* g g'" "ginv f xs es g'" "gw_guard g'" "g_in g' = g_in g"
    "\<And>g''. \<not> internal f g' g''" by blast
  then have "quiet f g'"
    using uart_step_ok [OF g'(2,3)] trans_step_ok [OF g'(2,3)] internal_uart internal_trans
    by (fastforce simp: quiet_def progress_def)
  with g' show ?thesis by blast
qed

lemma internal_steps: "(internal f)\<^sup>*\<^sup>* g g' \<Longrightarrow> (gw_step f)\<^sup>*\<^sup>* g g'"
  by (induction rule: rtranclp_induct) (auto intro: rtranclp.rtrancl_into_rtrancl step_internal)

text \<open>For every input that fits there is a run that takes it all in and comes to rest.\<close>

lemma quiet_after:
  assumes "tab_ready xs es t" and "inj f" and "ok_input bs" and "length bs < 2147483647"
  shows "\<exists>g. (gw_step f)\<^sup>*\<^sup>* (gw_init t) g \<and> quiet f g \<and> ginv f xs es g \<and> g_in g = bs"
  using assms(3,4)
proof (induction bs rule: rev_induct)
  case Nil
  have "g_in (gw_init t) = []" by (simp add: gw_init_def)
  with internal_drains [OF gw_init_inv [OF assms(1,2)]] Nil internal_steps show ?case
    by (fastforce simp: gw_guard_def)
next
  case (snoc ch bs)
  then obtain g where g: "(gw_step f)\<^sup>*\<^sup>* (gw_init t) g" "quiet f g" "ginv f xs es g" "g_in g = bs"
    using ok_input_snoc by auto
  have "gw_guard g" using snoc.prems g(4) ok_input_snoc by (auto simp: gw_guard_def)
  with g(2,3) have "g_upc g = U_read" using uart_step_ok by (fastforce simp: quiet_def progress_def)
  moreover have now: "ctime_text (replicate 25 0x20)" by (simp add: ctime_text_def)
  ultimately obtain g1 where g1: "uart_byte (mallocs f) (replicate 25 0x20) 0 ch g = Next g1"
    "ginv f xs es g1" "g_in g1 = bs @ [ch]"
    using uart_byte_ok [OF g(3), of "replicate 25 0x20" ch 0] g(4) snoc.prems(1) by auto
  have "gw_guard g1" using g1(3) snoc.prems by (simp add: gw_guard_def)
  with g1 obtain g2 where "(internal f)\<^sup>*\<^sup>* g1 g2" "quiet f g2" "ginv f xs es g2" "g_in g2 = bs @ [ch]"
    using internal_drains [OF g1(2)] by auto
  moreover have "gw_step f g g1" using step_byte [OF now g1(1)] .
  ultimately show ?case using g(1) internal_steps by (meson rtranclp.rtrancl_into_rtrancl rtranclp_trans)
qed

text \<open>A table with one client, and the gateway after the message \<open>$&\<close> has been put into the queue.\<close>

definition ex_client_ip :: coapIP where
  "ex_client_ip = client_entry (ex_env 0) (ip_entry ([0x31], [0x61]))"

definition ex_tab :: iptab where
  "ex_tab = \<lparr>t_heap = [1 \<mapsto> \<lparr>e_data = 2, e_next = None\<rparr>],
     t_list = \<lparr>l_size = 1, l_destroy = Some free_ip, l_head = Some 1, l_tail = Some 1\<rparr>,
     t_store = [2 \<mapsto> ex_client_ip], t_calls = 3\<rparr>"

lemma ex_tab_ready: "tab_ready [(1, 2)] [ex_client_ip] ex_tab"
  by (simp add: tab_ready_def tab_def lrep_def ex_tab_def ex_client_ip_def client_entry_def)

text \<open>
  C9. The threads work together without undefined behaviour.  Take any interleaving of the two
  threads, from the start and with one table, where allocations succeed, on bytes whose pieces fit
  the serial buffer and the SQL statement.  Then no next step is undefined: no dequeue from an empty
  queue, no use of a freed block or unterminated string, no double free; and the next byte, if its
  piece still fits, is accepted.
\<close>

theorem gateway_safe:
  assumes "gw_reach f xs es g" and "gw_guard g" and "ctime_text now" and "ok_input (g_in g @ [ch])"
  shows "trans_step g \<noteq> Undefined \<and> uart_step (mallocs f) g \<noteq> Undefined \<and>
     (uart_byte (mallocs f) now rc ch g = Blocked \<or>
      (\<exists>g'. uart_byte (mallocs f) now rc ch g = Next g' \<and> g_in g' = g_in g @ [ch]))"
proof -
  note inv = gw_reach_inv [OF assms(1,2)]
  have "uart_byte (mallocs f) now rc ch g = Blocked" if "g_upc g \<noteq> U_read" using that by (simp add: uart_byte_def)
  with uart_byte_ok [OF inv _ assms(3,4), of rc] uart_step_ok [OF inv assms(2)] trans_step_ok [OF inv assms(2)]
  show ?thesis by (auto simp: progress_def)
qed

lemma gw_reach_init: "tab_ready xs es t \<Longrightarrow> inj f \<Longrightarrow> gw_reach f xs es (gw_init t)"
  by (auto simp: gw_reach_def)

lemma gw_guard_init: "gw_guard (gw_init t)"
  by (simp add: gw_guard_def gw_init_def ok_input_def)

theorem gateway_safe_witness:
  "\<exists>g'. uart_byte (mallocs id) (replicate 25 0x20) 0 0x24 (gw_init ex_tab) = Next g' \<and> g_in g' = [0x24]"
proof -
  have "ok_input (g_in (gw_init ex_tab) @ [0x24])"
    by (simp add: gw_init_def ok_input_def cut_def cut1_def UART_END_FLAG_def)
  moreover have "uart_byte (mallocs id) (replicate 25 0x20) 0 0x24 (gw_init ex_tab) \<noteq> Blocked"
    by (simp add: uart_byte_def gw_init_def split: option.splits outcome.splits prod.splits)
  ultimately show ?thesis
    using gateway_safe [OF gw_reach_init [OF ex_tab_ready inj_on_id] gw_guard_init, of "replicate 25 0x20" "0x24" 0]
    by (auto simp: ctime_text_def gw_init_def)
qed

subsection \<open>A message on its way\<close>

definition ex_msg_in :: "uart \<Rightarrow> gateway" where
  "ex_msg_in u = (gw_init ex_tab)\<lparr>g_sh := stored_message (replicate 25 0x20) 0 (g_sh (gw_init ex_tab)) 0 [0x24, 0x26],
     g_uart := u, g_in := [0x24, 0x26], g_upc := U_enqueue 0\<rparr>"

definition ex_writing :: "uart \<Rightarrow> gateway" where
  "ex_writing u = (ex_msg_in u)\<lparr>g_sh := (g_sh (ex_msg_in u))\<lparr>sh_heap := (Map.empty(1 \<mapsto> \<lparr>e_data = 0, e_next = None\<rparr>))(1 := None),
       sh_queue := queue_init (Some (\<lambda>a. free_msg (Some a))), sh_calls := 2, sh_sem := 0\<rparr>,
     g_upc := U_clear, g_msg := Some 0, g_tpc := T_write (Some 1)\<rparr>"

lemma ex_bytes: "\<exists>u. (gw_step id)\<^sup>*\<^sup>* (gw_init ex_tab) (ex_msg_in u)"
proof -
  let ?now = "replicate 25 (0x20 :: u8)" and ?sh = "g_sh (gw_init ex_tab)"
  have now: "ctime_text ?now" by (simp add: ctime_text_def)
  have m: "mallocs id (sh_calls ?sh) = Some 0" by (simp add: mallocs_def gw_init_def)
  have "uart_holds (g_uart (gw_init ex_tab)) []" by (simp add: gw_init_def uart_holds_def UART_RD_BUF_SIZE_def)
  from uart_recv_plain [OF this, of "0x24" "mallocs id" ?now 0 ?sh] obtain u1 where
    u1: "uart_recv (mallocs id) ?now 0 ?sh (g_uart (gw_init ex_tab)) 0x24 = Some (Running (?sh, u1, None))"
    "uart_holds u1 [0x24]" by (auto simp: UART_END_FLAG_def)
  let ?g1 = "(gw_init ex_tab)\<lparr>g_uart := u1, g_in := [0x24]\<rparr>"
  have "uart_byte (mallocs id) ?now 0 0x24 (gw_init ex_tab) = Next ?g1"
    using u1(1) by (simp add: uart_byte_def gw_init_def)
  then have s1: "gw_step id (gw_init ex_tab) ?g1" using step_byte [OF now] by blast
  have "length (msg_text ([0x24] @ [0x26])) \<le> MSG_LIMIT" by (simp add: msg_text_def MSG_LIMIT_def)
  then obtain u2 where u2: "uart_recv (mallocs id) ?now 0 ?sh u1 0x26 =
      Some (Running (stored_message ?now 0 ?sh 0 [0x24, 0x26], u2, Some 0))"
    using uart_recv_piece [where mal = "mallocs id" and sh = ?sh and a = 0, OF u1(2) _ _ now m, of "0x26" 0] by (auto simp: UART_END_FLAG_def UART_START_FLAG_def)
  then have "uart_byte (mallocs id) ?now 0 0x26 ?g1 = Next (ex_msg_in u2)"
    by (simp add: uart_byte_def ex_msg_in_def) (simp add: gw_init_def)
  then have "gw_step id ?g1 (ex_msg_in u2)" using step_byte [OF now] by blast
  with s1 show ?thesis by (meson converse_rtranclp_into_rtranclp rtranclp.rtrancl_refl)
qed

lemma ex_dispatch: "(internal id)\<^sup>*\<^sup>* (ex_msg_in u) (ex_writing u)"
proof -
  define g1 where "g1 = (case uart_step (mallocs id) (ex_msg_in u) of Next g \<Rightarrow> g)"
  define g2 where "g2 = (case uart_step (mallocs id) g1 of Next g \<Rightarrow> g)"
  define g3 where "g3 = (case trans_step g2 of Next g \<Rightarrow> g)"
  define g4 where "g4 = (case trans_step g3 of Next g \<Rightarrow> g)"
  note defs = ex_msg_in_def ex_writing_def gw_init_def stored_message_def uart_step_def trans_step_def uart_enqueue_def
    uart_post_def mallocs_def queue_enqueue_def queue_dequeue_def queue_init_def list_init_def list_ins_next_def
    list_rem_next_def inc32_def dec32_def Let_def ex_tab_def
  have 1: "uart_step (mallocs id) (ex_msg_in u) = Next g1" unfolding g1_def by (simp add: defs)
  have 2: "uart_step (mallocs id) g1 = Next g2" unfolding g2_def g1_def by (simp add: defs)
  have 3: "trans_step g2 = Next g3" unfolding g3_def g2_def g1_def by (simp add: defs)
  have 4: "trans_step g3 = Next g4" unfolding g4_def g3_def g2_def g1_def by (simp add: defs)
  have 5: "trans_step g4 = Next (ex_writing u)" unfolding g4_def g3_def g2_def g1_def by (simp add: defs)
  show ?thesis
    using internal_uart [OF 1] internal_uart [OF 2] internal_trans [OF 3] internal_trans [OF 4] internal_trans [OF 5]
    by (meson converse_rtranclp_into_rtranclp rtranclp.rtrancl_refl)
qed

lemma ex_reach: "\<exists>u. gw_reach id [(1, 2)] [ex_client_ip] (ex_writing u)"
proof -
  obtain u where u: "(gw_step id)\<^sup>*\<^sup>* (gw_init ex_tab) (ex_msg_in u)" using ex_bytes by blast
  from rtranclp_trans [OF u internal_steps [OF ex_dispatch]] ex_tab_ready show ?thesis
    by (auto simp: gw_reach_def)
qed

lemma ex_guard: "gw_guard (ex_writing u)"
  by (simp add: gw_guard_def ex_writing_def ex_msg_in_def ok_input_def cut_def cut1_def UART_END_FLAG_def ok_piece_def
      msg_text_def MSG_LIMIT_def)

subsection \<open>Delivery\<close>

text \<open>
  C1. What the clients receive.  At every moment of every interleaving of the threads with one
  table, on bytes whose pieces fit, the writes to the fifos are an initial part of the ideal
  output: for each complete message in the bytes received, in order, one write of its text to each
  client, in the order of the table.  Nothing is lost, repeated or reordered.  For every message one
  INSERT statement has been handed to the database (the code does not look at whether it was executed),
  and the semaphore counts the queue: its value, with the operation in progress, is the number of
  queued messages.
\<close>

theorem gateway_delivers_in_order:
  assumes "gw_reach f xs es g" and "gw_guard g"
  shows "prefix (g_writes g) (deliver es (frames (g_in g))) \<and> db_inv g \<and>
     queue_size (sh_queue (g_sh g)) = int (sh_sem (g_sh g) + (if g_tpc g = T_dequeue then 1 else 0) +
       (if g_upc g = U_post then 1 else 0))"
proof -
  obtain D tm qs um where tab: "tab_ready xs es (g_tab g)" and db: "db_inv g" and v: "gview f xs es g D tm qs um"
    using gw_reach_inv [OF assms] by (rule ginvE)
  have "queue_size (sh_queue (g_sh g)) = int (length (map fst qs))"
    by (rule queue_size_rep [OF gviewD(1) [OF v]])
  with gview_writes [OF v tab] db gviewD(4) [OF v] show ?thesis by (simp add: sem_inv_def)
qed

theorem gateway_delivers_in_order_witness:
  "\<exists>u. prefix (g_writes (ex_writing u)) [(5, [0x24, 0x26])] \<and> queue_size (sh_queue (g_sh (ex_writing u))) = 0"
proof -
  obtain u where u: "gw_reach id [(1, 2)] [ex_client_ip] (ex_writing u)" using ex_reach by blast
  have "deliver [ex_client_ip] (frames (g_in (ex_writing u))) = [(5, [0x24, 0x26])]"
    by (simp add: deliver_def frames_def ex_writing_def ex_msg_in_def cut_def cut1_def UART_END_FLAG_def
        UART_START_FLAG_def ex_client_ip_def client_entry_def ex_env_def msg_text_def)
  with gateway_delivers_in_order [OF u ex_guard] show ?thesis by (auto simp: ex_writing_def)
qed

text \<open>
  C8. Every message arrives.  From every reachable state, whichever thread runs next, a step uses up
  some of a finite amount of work, so that without further bytes the threads come to rest after a
  bounded number of steps; and at rest every message received has been written to every client, the
  queue and the semaphore are at zero, and, if the device table is not empty, all message blocks are
  freed.  With an empty table the messages are dropped and their blocks are never freed.\<close>

theorem gateway_drains:
  assumes "gw_reach f xs es g" and "gw_guard g"
  shows "(\<forall>g'. internal f g g' \<longrightarrow> work xs g' < work xs g \<and> g_in g' = g_in g) \<and>
     (\<exists>g'. (internal f)\<^sup>*\<^sup>* g g' \<and> quiet f g') \<and>
     (quiet f g \<longrightarrow> g_writes g = deliver es (frames (g_in g)) \<and> sh_sem (g_sh g) = 0 \<and>
        queue_size (sh_queue (g_sh g)) = 0 \<and> (es \<noteq> [] \<longrightarrow> dom (sh_msgs (g_sh g)) = {}))"
  using internal_ok [OF gw_reach_inv [OF assms] assms(2)] internal_drains [OF gw_reach_inv [OF assms] assms(2)]
    quiet_view [OF gw_reach_inv [OF assms] assms(2)] by blast

theorem gateway_drains_witness:
  "\<exists>u g'. (internal id)\<^sup>*\<^sup>* (ex_writing u) g' \<and> quiet id g'"
  using ex_reach gateway_drains [OF _ ex_guard] by blast

subsection \<open>A new table under the dispatch thread\<close>

lemma signal_frees:
  assumes "tab (g_tab g) xs es" and "l_destroy (t_list (g_tab g)) = Some free_ip" and "new_from f (g_tab g)"
    and "length xs < 2147483647" and "p \<in> fst ` set xs"
    and "signal_step (mallocs f) buff (Some file) env g = Next g'"
  shows "t_heap (g_tab g') p = None \<and> g_tpc g' = g_tpc g"
proof -
  obtain evs t where t: "CreatCoapclient (mallocs f) buff (Some file) env (g_tab g) = Some (Cont (t, evs))"
    "g' = g\<lparr>g_tab := t\<rparr>"
    using assms(6)
    by (auto simp: signal_step_def Tftp_Sig_def UpdateCoapclient_def dest!: prepend_Cont
        split: option.splits proc.splits bind_splits)
  obtain t1 where t1: "ParsTxt (mallocs f) (g_tab g) buff (Some file) = Some (Running t1)"
    "creat_from env 0 t1 (replicate 64 0) (l_head (t_list t1)) = Some (Cont (t, evs))"
    using t(1) by (auto simp: CreatCoapclient_def split: option.splits outcome.splits)
  from ParsTxt_frees [OF assms(1-4) t1(1) assms(5)] creat_from_heap [OF t1(2)] t(2) show ?thesis by simp
qed

text \<open>
  C34. The device table is not protected.  Whenever the signal handler runs to its end while the dispatch
  thread is between two writes of a message (or has just looked up the first client), the node the
  thread goes on with has been freed, and its next step is undefined.\<close>

theorem signal_during_dispatch_undefined:
  assumes "gw_reach f xs es g" and "gw_guard g" and pc: "g_tpc g = T_write (Some p)"
    and tab: "l_destroy (t_list (g_tab g)) = Some free_ip" "new_from f' (g_tab g)" "length xs < 2147483647"
    and sig: "signal_step (mallocs f') buff (Some file) env g = Next g'"
  shows "trans_step g' = Undefined"
proof -
  obtain D tm qs um where r: "tab_ready xs es (g_tab g)" and v: "gview f xs es g D tm qs um"
    using gw_reach_inv [OF assms(1,2)] by (rule ginvE)
  obtain k where "k \<le> length xs" "head_of (drop k xs) = Some p"
    using gviewD(6) [OF v] pc by (auto simp: trans_inv_def)
  then have "p \<in> fst ` set xs" by (auto simp: head_of_drop split: if_splits)
  moreover have "tab (g_tab g) xs es" using r by (simp add: tab_ready_def)
  ultimately have "t_heap (g_tab g') p = None" "g_tpc g' = T_write (Some p)"
    using signal_frees [OF _ tab _ sig] pc by auto
  then show ?thesis by (simp add: trans_step_def trans_write_def)
qed

lemma ex_tab_of [simp]: "g_tab (ex_writing u) = ex_tab" "g_tpc (ex_writing u) = T_write (Some 1)"
  by (simp_all add: ex_writing_def ex_msg_in_def gw_init_def)

theorem signal_during_dispatch_undefined_witness:
  "\<exists>u g'. signal_step (mallocs id) (replicate 128 7) (Some sample_file) ex_env (ex_writing u) = Next g' \<and>
     trans_step g' = Undefined"
proof -
  obtain u where u: "gw_reach id [(1, 2)] [ex_client_ip] (ex_writing u)" using ex_reach by blast
  have t: "l_destroy (t_list ex_tab) = Some free_ip" "new_from id ex_tab" "tab ex_tab [(1, 2)] [ex_client_ip]"
    using ex_tab_ready by (auto simp: ex_tab_def new_from_def tab_ready_def)
  have e: "file_entries sample_file = [ip_entry ([0x31], [0x61])]"
    by (rule sample_entries)
  have "\<forall>cs \<in> set (chunks sample_file). safe_line cs" by (simp add: sample_chunks safe_line_def)
  moreover have "length sample_file < 2147483647" by (simp add: sample_file_def)
  moreover have "\<forall>j < length (file_entries sample_file). env_ok (ex_env j)" by (simp add: e ex_env_def env_ok_def)
  ultimately obtain t' xs' evs where "Tftp_Sig (mallocs id) (replicate 128 7) (Some sample_file) ex_env ex_tab =
      Some (Cont (t', evs))"
    using Tftp_Sig_ok [OF t(3,1,2), of "replicate 128 7" sample_file ex_env]
    by (auto simp: ex_client_ip_def client_entry_def)
  then have "signal_step (mallocs id) (replicate 128 7) (Some sample_file) ex_env (ex_writing u) =
      Next ((ex_writing u)\<lparr>g_tab := t'\<rparr>)" by (simp add: signal_step_def)
  with signal_during_dispatch_undefined [OF u ex_guard, of 1 id "replicate 128 7" sample_file ex_env] t(1,2)
  show ?thesis by auto
qed

end
