(* ===== verification/Handler.thy ===== *)
theory Handler
  imports Clients
begin

section \<open>The signal handler, step by step: user/main.c and iptable/coap_iptable.c\<close>

text \<open>
  \<open>Tftp_Sig\<close> runs beside the threads of the main process: it signals and awaits the old clients, frees
  the device table, reads the new file line by line, forks the new clients and waits for each to open
  its fifo.  \<open>tftp_step\<close> is one step of it: a system call, the cleaning of the list, one turn of the loop
  over the file.  The steps are shown to add up to what \<open>Tftp_Sig\<close> of the clients' theory does in one
  piece; what may happen between them is the subject of the life of the gateway.
\<close>

subsection \<open>Steps\<close>

text \<open>
  Where the handler is.  \<open>H_kill\<close> and \<open>H_wait\<close>: in the loop of \<open>UpdateCoapclient\<close>; \<open>H_clean\<close>, \<open>H_file\<close> and
  \<open>H_line\<close>: in \<open>ParsTxt\<close>, before \<open>list_clean\<close>, before \<open>fopen\<close>, and with the buffer, the unread bytes and the
  end-of-file flag at the head of its loop; \<open>H_fork\<close> to \<open>H_open\<close>: in the loop of \<open>CreatCoapclient\<close>, with
  the number of the turn, the array \<open>fifo\<close> and the node.
\<close>

datatype handler_pc =
    H_start
  | H_kill "addr option"
  | H_wait addr
  | H_clean
  | H_file
  | H_line "u8 list" "u8 list" bool
  | H_fork nat "u8 list" "addr option"
  | H_name nat "u8 list" addr
  | H_mkfifo nat "u8 list" addr
  | H_open nat "u8 list" addr
  | H_done

text \<open>The start of \<open>UpdateCoapclient\<close> and its loop, which stops the clients.\<close>

definition update_step :: "handler_pc \<Rightarrow> iptab \<Rightarrow> (handler_pc \<times> iptab \<times> proc_event list) option" where
  "update_step pc t =
     (case pc of
        H_kill (Some a) \<Rightarrow>
          do {
            el \<leftarrow> t_heap t a;
            blk \<leftarrow> t_store t (e_data el);
            pid \<leftarrow> ci_pid blk;
            Some (H_wait a, t, [Kill_client pid])
          }
      | H_wait a \<Rightarrow> do { el \<leftarrow> t_heap t a; Some (H_kill (e_next el), t, [Wait_child]) }
      | H_kill None \<Rightarrow> Some (H_clean, t, [])
      | _ \<Rightarrow> Some (if l_size (t_list t) > 0 then H_kill (l_head (t_list t)) else H_clean, t, []))"

text \<open>One turn of the loop that reads the file.\<close>

definition line_step ::
  "(nat \<Rightarrow> addr option) \<Rightarrow> u8 list \<Rightarrow> u8 list \<Rightarrow> bool \<Rightarrow> iptab \<Rightarrow> (handler_pc \<times> iptab \<times> proc_event list) proc option" where
  "line_step mal buff rest eof t =
     (if eof then Some (Cont (H_fork 0 (replicate 64 0) (l_head (t_list t)), t, []))
      else
        (case mal (t_calls t) of
           None \<Rightarrow> Some Exit
         | Some a \<Rightarrow>
             let t1 = t\<lparr>t_store := (t_store t)(a \<mapsto> fresh_ip), t_calls := t_calls t + 1\<rparr> in
             (case fgets 128 rest of
                (None, rest', eof') \<Rightarrow> Some (Cont (H_line buff rest' eof', t1, []))
              | (Some cs, rest', eof') \<Rightarrow>
                  do {
                    (t2, b2) \<leftarrow> pars_line mal t1 a buff cs;
                    Some (Cont (H_line b2 rest' eof', t2, []))
                  })))"

text \<open>The loop that starts the clients: \<open>fork\<close>, the name and the \<open>pid\<close>, \<open>mkfifo\<close>, the \<open>open\<close> that waits.\<close>

definition creat_step ::
  "(nat \<Rightarrow> fork_env) \<Rightarrow> handler_pc \<Rightarrow> iptab \<Rightarrow> (handler_pc \<times> iptab \<times> proc_event list) proc option" where
  "creat_step env pc t =
     (case pc of
        H_fork i fifo (Some a) \<Rightarrow>
          do {
            el \<leftarrow> t_heap t a;
            if fe_pid (env i) = 0 then Some (Client (e_data el))
            else if fe_pid (env i) < 0 then Some (Cont (H_fork (Suc i) fifo (e_next el), t, []))
            else Some (Cont (H_name i fifo a, t, []))
          }
      | H_name i fifo a \<Rightarrow>
          do {
            el \<leftarrow> t_heap t a;
            fifo1 \<leftarrow> GetfifoName fifo 64 (fe_pid (env i));
            blk \<leftarrow> t_store t (e_data el);
            Some (Cont (H_mkfifo i fifo1 a,
              t\<lparr>t_store := (t_store t)(e_data el \<mapsto> blk\<lparr>ci_pid := Some (fe_pid (env i))\<rparr>)\<rparr>, []))
          }
      | H_mkfifo i fifo a \<Rightarrow>
          do {
            name \<leftarrow> cstr fifo 0;
            if \<not> fe_exists (env i) \<and> fe_mkfifo (env i) \<noteq> 0 then Some Exit
            else Some (Cont (H_open i fifo a, t, if fe_exists (env i) then [] else [Make_fifo name]))
          }
      | H_open i fifo a \<Rightarrow>
          do {
            el \<leftarrow> t_heap t a;
            blk \<leftarrow> t_store t (e_data el);
            name \<leftarrow> cstr fifo 0;
            if fe_open (env i) = -1 then Some Exit
            else Some (Cont (H_fork (Suc i) fifo (e_next el),
              t\<lparr>t_store := (t_store t)(e_data el \<mapsto> blk\<lparr>ci_fifo_fd := Some (fe_open (env i))\<rparr>)\<rparr>, [Open_fifo name]))
          }
      | _ \<Rightarrow> Some (Cont (H_done, t, [])))"

definition tftp_step ::
  "(nat \<Rightarrow> addr option) \<Rightarrow> u8 list \<Rightarrow> u8 list option \<Rightarrow> (nat \<Rightarrow> fork_env) \<Rightarrow> handler_pc \<Rightarrow> iptab
     \<Rightarrow> (handler_pc \<times> iptab \<times> proc_event list) proc option" where
  "tftp_step mal buff0 file env pc t =
     (case pc of
        H_clean \<Rightarrow>
          (if l_size (t_list t) > 0
           then map_option (\<lambda>(h, l, s). Cont (H_file, t\<lparr>t_heap := h, t_list := l, t_store := s\<rparr>, []))
             (list_clean (t_heap t) (t_list t) (t_store t))
           else Some (Cont (H_file, t, [])))
      | H_file \<Rightarrow> (case file of None \<Rightarrow> Some Exit | Some text \<Rightarrow> Some (Cont (H_line buff0 text False, t, [])))
      | H_line buff rest eof \<Rightarrow> line_step mal buff rest eof t
      | H_start \<Rightarrow> map_option Cont (update_step pc t)
      | H_kill p \<Rightarrow> map_option Cont (update_step pc t)
      | H_wait a \<Rightarrow> map_option Cont (update_step pc t)
      | _ \<Rightarrow> creat_step env pc t)"

text \<open>A step of a handler that goes on; the events of all its steps are collected.\<close>

type_synonym handler_state = "handler_pc \<times> iptab \<times> proc_event list"

inductive handler_step ::
  "(nat \<Rightarrow> addr option) \<Rightarrow> u8 list \<Rightarrow> u8 list option \<Rightarrow> (nat \<Rightarrow> fork_env) \<Rightarrow> handler_state \<Rightarrow> handler_state \<Rightarrow> bool"
  for mal buff0 cont env where
  handler_goes_on: "pc \<noteq> H_done \<Longrightarrow> tftp_step mal buff0 cont env pc t = Some (Cont (pc', t', new)) \<Longrightarrow>
     handler_step mal buff0 cont env (pc, t, evs) (pc', t', evs @ new)"

inductive_cases handler_stepE: "handler_step mal buff0 cont env (pc, t, evs) h'"

lemmas handler_defs = tftp_step_def update_step_def creat_step_def

lemma handler_step_determ:
  "handler_step mal buff0 cont env h h1 \<Longrightarrow> handler_step mal buff0 cont env h h2 \<Longrightarrow> h1 = h2"
  by (auto elim!: handler_step.cases)

lemma handler_done: "\<not> handler_step mal buff0 cont env (H_done, t, evs) h'"
  by (auto elim!: handler_stepE)

subsection \<open>The steps add up to the handler\<close>

abbreviation handler_run where
  "handler_run mal buff0 cont env \<equiv> (handler_step mal buff0 cont env)\<^sup>*\<^sup>*"

lemma handler_then:
  "pc \<noteq> H_done \<Longrightarrow> tftp_step mal buff0 cont env pc t = Some (Cont (pc', t', new)) \<Longrightarrow>
     handler_run mal buff0 cont env (pc', t', evs @ new) h \<Longrightarrow> handler_run mal buff0 cont env (pc, t, evs) h"
  by (blast intro: converse_rtranclp_into_rtranclp handler_goes_on)

lemma handler_silent:
  "pc \<noteq> H_done \<Longrightarrow> tftp_step mal buff0 cont env pc t = Some (Cont (pc', t', [])) \<Longrightarrow>
     handler_run mal buff0 cont env (pc', t', evs) h \<Longrightarrow> handler_run mal buff0 cont env (pc, t, evs) h"
  using handler_then [where new = "[]"] by simp

lemma handler_kills:
  assumes "kill_from t p = Some new"
  shows "handler_run mal buff0 cont env (H_kill p, t, evs) (H_clean, t, evs @ new)"
proof -
  let ?P = "\<lambda>t p new. \<forall>evs. handler_run mal buff0 cont env (H_kill p, t, evs) (H_clean, t, evs @ new)"
  have "?P t p new"
  proof (rule kill_from.raw_induct [where P = ?P, OF _ assms])
    fix rec t p new
    assume IH: "\<And>t p new. rec t p = Some new \<Longrightarrow> ?P t p new"
      and eq: "(case p of None \<Rightarrow> Some []
        | Some a \<Rightarrow> t_heap t a \<bind> (\<lambda>el. t_store t (e_data el) \<bind> (\<lambda>blk. ci_pid blk \<bind>
            (\<lambda>pid. rec t (e_next el) \<bind> (\<lambda>evs. Some (Kill_client pid # Wait_child # evs)))))) = Some new"
    show "?P t p new"
    proof (intro allI, cases p)
      fix evs assume "p = None"
      with eq handler_silent [OF _ _ rtranclp.rtrancl_refl, of "H_kill None" mal buff0 cont env t H_clean t evs]
      show "handler_run mal buff0 cont env (H_kill p, t, evs) (H_clean, t, evs @ new)"
        by (auto simp: handler_defs)
    next
      fix evs a assume p: "p = Some a"
      from eq p obtain el :: "addr ListElmt" and blk pid r where e: "t_heap t a = Some el" "t_store t (e_data el) = Some blk"
        "ci_pid blk = Some pid" "rec t (e_next el) = Some r" "new = Kill_client pid # Wait_child # r"
        by (auto split: bind_splits)
      from IH [OF e(4), rule_format, of "(evs @ [Kill_client pid]) @ [Wait_child]"] e(5)
      have "handler_run mal buff0 cont env (H_kill (e_next el), t, (evs @ [Kill_client pid]) @ [Wait_child]) (H_clean, t, evs @ new)"
        by simp
      from handler_then [OF _ _ this, of "H_wait a" t] e(1)
      have "handler_run mal buff0 cont env (H_wait a, t, evs @ [Kill_client pid]) (H_clean, t, evs @ new)"
        by (simp add: handler_defs)
      from handler_then [OF _ _ this, of "H_kill p" t] e p
      show "handler_run mal buff0 cont env (H_kill p, t, evs) (H_clean, t, evs @ new)" by (simp add: handler_defs)
    qed
  qed
  then show ?thesis by blast
qed

lemma handler_reads:
  "pars_loop mal t buff rest eof = Some (Running t') \<Longrightarrow>
     handler_run mal buff0 cont env (H_line buff rest eof, t, evs) (H_fork 0 (replicate 64 0) (l_head (t_list t')), t', evs)"
proof (induction mal t buff rest eof arbitrary: evs rule: pars_loop.induct)
  case (1 mal t buff rest eof)
  note loop = "1.prems" [unfolded pars_loop.simps [of mal t buff rest eof]]
  show ?case
  proof (cases eof)
    case True
    with loop show ?thesis
      by (intro handler_silent [OF _ _ rtranclp.rtrancl_refl]) (auto simp: tftp_step_def line_step_def)
  next
    case False
    obtain r rest' eof' where f: "fgets 128 rest = (r, rest', eof')" using prod_cases3 by blast
    from loop False obtain a where a: "mal (t_calls t) = Some a" by (auto split: option.splits)
    let ?t1 = "t\<lparr>t_store := (t_store t)(a \<mapsto> fresh_ip), t_calls := t_calls t + 1\<rparr>"
    show ?thesis
    proof (cases r)
      case None
      with loop False a f have l: "pars_loop mal ?t1 buff rest' eof' = Some (Running t')" by (simp add: Let_def)
      have "handler_run mal buff0 cont env (H_line buff rest' eof', ?t1, evs)
          (H_fork 0 (replicate 64 0) (l_head (t_list t')), t', evs)"
        by (rule "1.IH"(1) [OF False a refl f [symmetric] None refl l])
      then show ?thesis
        by (rule handler_silent [rotated 2]) (use None f False a in \<open>simp_all add: tftp_step_def line_step_def Let_def\<close>)
    next
      case (Some cs)
      with loop False a f obtain t2 b2 where p: "pars_line mal ?t1 a buff cs = Some (t2, b2)"
        "pars_loop mal t2 b2 rest' eof' = Some (Running t')"
        by (auto simp: Let_def split: option.splits)
      have "handler_run mal buff0 cont env (H_line b2 rest' eof', t2, evs)
          (H_fork 0 (replicate 64 0) (l_head (t_list t')), t', evs)"
        by (rule "1.IH"(2) [OF False a refl f [symmetric] Some refl p(1) refl p(2)])
      then show ?thesis
        by (rule handler_silent [rotated 2]) (use Some f False a p(1) in \<open>simp_all add: tftp_step_def line_step_def Let_def\<close>)
    qed
  qed
qed

text \<open>One turn of the loop that starts the clients.\<close>

lemma handler_creates_one:
  assumes "creat_one (env i) t fifo (e_data el) = Some (Cont (t1, fifo1, new))" and a: "t_heap t a = Some el"
  shows "handler_run mal buff0 cont env (H_fork i fifo (Some a), t, evs) (H_fork (Suc i) fifo1 (e_next el), t1, evs @ new)"
proof (cases "fe_pid (env i) < 0")
  case True
  then have "t1 = t" "fifo1 = fifo" "new = []" using assms(1) by (simp_all add: creat_one_def)
  with True a show ?thesis
    using handler_silent [OF _ _ rtranclp.rtrancl_refl, of "H_fork i fifo (Some a)" mal buff0 cont env t _ t evs]
    by (simp add: handler_defs)
next
  case False
  let ?d = "e_data el"
  obtain blk name where c: "GetfifoName fifo 64 (fe_pid (env i)) = Some fifo1" "t_store t ?d = Some blk"
    "cstr fifo1 0 = Some name" "fe_pid (env i) \<noteq> 0" "fe_exists (env i) \<or> fe_mkfifo (env i) = 0" "fe_open (env i) \<noteq> -1"
    "t1 = t\<lparr>t_store := (t_store t)(?d \<mapsto> blk\<lparr>ci_pid := Some (fe_pid (env i)), ci_fifo_fd := Some (fe_open (env i))\<rparr>)\<rparr>"
    "new = (if fe_exists (env i) then [] else [Make_fifo name]) @ [Open_fifo name]"
    using assms(1) False by (auto simp: creat_one_def Let_def split: if_splits bind_splits)
  let ?t0 = "t\<lparr>t_store := (t_store t)(?d \<mapsto> blk\<lparr>ci_pid := Some (fe_pid (env i))\<rparr>)\<rparr>"
  let ?mk = "if fe_exists (env i) then [] else [Make_fifo name]"
  let ?last = "(H_fork (Suc i) fifo1 (e_next el), t1, (evs @ ?mk) @ [Open_fifo name])"
  have "handler_run mal buff0 cont env (H_open i fifo1 a, ?t0, evs @ ?mk) ?last"
    by (rule handler_then [OF _ _ rtranclp.rtrancl_refl]) (use c a in \<open>simp_all add: handler_defs\<close>)
  then have "handler_run mal buff0 cont env (H_mkfifo i fifo1 a, ?t0, evs) ?last"
    by (rule handler_then [rotated 2]) (use c(3,5) in \<open>auto simp: handler_defs\<close>)
  then have "handler_run mal buff0 cont env (H_name i fifo a, t, evs) ?last"
    by (rule handler_silent [rotated 2]) (use c a in \<open>simp_all add: handler_defs\<close>)
  then have "handler_run mal buff0 cont env (H_fork i fifo (Some a), t, evs) ?last"
    by (rule handler_silent [rotated 2]) (use c(4) a False in \<open>simp_all add: handler_defs\<close>)
  then show ?thesis by (simp add: c(8))
qed

lemma handler_creates:
  assumes "creat_from env i t fifo p = Some (Cont (t', new))"
  shows "handler_run mal buff0 cont env (H_fork i fifo p, t, evs) (H_done, t', evs @ new)"
proof -
  let ?P = "\<lambda>env i t fifo p r. \<forall>t' new evs. r = Cont (t', new) \<longrightarrow>
      handler_run mal buff0 cont env (H_fork i fifo p, t, evs) (H_done, t', evs @ new)"
  have "?P env i t fifo p (Cont (t', new))"
  proof (rule creat_from.raw_induct [where P = ?P, OF _ assms])
    fix rec env i t fifo p r
    assume IH: "\<And>env i t fifo p r. rec env i t fifo p = Some r \<Longrightarrow> ?P env i t fifo p r"
      and eq: "(case p of None \<Rightarrow> Some (Cont (t, []))
        | Some a \<Rightarrow> t_heap t a \<bind> (\<lambda>el. creat_one (env i) t fifo (e_data el) \<bind>
            (\<lambda>r. case r of Exit \<Rightarrow> Some Exit | Client d \<Rightarrow> Some (Client d)
               | Cont (t1, fifo1, evs) \<Rightarrow>
                   rec env (Suc i) t1 fifo1 (e_next el) \<bind> (\<lambda>r'. Some (prepend evs r'))))) = Some r"
    show "?P env i t fifo p r"
    proof (intro allI impI)
      fix t' new evs assume r: "r = Cont (t', new)"
      show "handler_run mal buff0 cont env (H_fork i fifo p, t, evs) (H_done, t', evs @ new)"
      proof (cases p)
        case None
        with eq r handler_silent [OF _ _ rtranclp.rtrancl_refl, of "H_fork i fifo None" mal buff0 cont env t H_done t evs]
        show ?thesis by (auto simp: handler_defs)
      next
        case (Some a)
        with eq r obtain el :: "addr ListElmt" and t1 fifo1 new1 r' where
          c: "t_heap t a = Some el" "creat_one (env i) t fifo (e_data el) = Some (Cont (t1, fifo1, new1))"
          "rec env (Suc i) t1 fifo1 (e_next el) = Some r'" "prepend new1 r' = Cont (t', new)"
          by (auto split: bind_splits proc.splits)
        then obtain new2 where "r' = Cont (t', new2)" "new = new1 @ new2"
          by (auto simp: prepend_def split: proc.splits)
        with IH [OF c(3), rule_format, of t' new2 "evs @ new1"]
        have "handler_run mal buff0 cont env (H_fork (Suc i) fifo1 (e_next el), t1, evs @ new1) (H_done, t', evs @ new)"
          by simp
        with handler_creates_one [where env = env, OF c(2,1), of mal buff0 cont evs] Some show ?thesis by (simp add: rtranclp_trans)
      qed
    qed
  qed
  then show ?thesis by blast
qed

lemma handler_parses:
  assumes "ParsTxt mal t buff0 cont = Some (Running t1)"
  shows "handler_run mal buff0 cont env (H_clean, t, evs) (H_fork 0 (replicate 64 0) (l_head (t_list t1)), t1, evs)"
proof -
  obtain t0 bs where t0: "cont = Some bs" "pars_loop mal t0 buff0 bs False = Some (Running t1)"
    and clean: "(if l_size (t_list t) > 0 then
               map_option (\<lambda>(h, l, s). t\<lparr>t_heap := h, t_list := l, t_store := s\<rparr>)
                 (list_clean (t_heap t) (t_list t) (t_store t))
             else Some t) = Some t0"
    using assms by (auto simp: ParsTxt_def split: bind_splits option.splits)
  have "handler_run mal buff0 cont env (H_file, t0, evs) (H_fork 0 (replicate 64 0) (l_head (t_list t1)), t1, evs)"
    by (rule handler_silent [OF _ _ handler_reads [OF t0(2)]]) (simp_all add: tftp_step_def t0(1))
  then show ?thesis
    by (rule handler_silent [rotated 2]) (use clean in \<open>auto simp: tftp_step_def split: if_splits\<close>)
qed

text \<open>The whole handler: its steps lead to the table and the events of \<open>Tftp_Sig\<close>.\<close>

lemma handler_completes:
  assumes "Tftp_Sig mal buff0 cont env t = Some (Cont (t', evs))"
  shows "handler_run mal buff0 cont env (H_start, t, []) (H_done, t', evs)"
proof -
  obtain kills r where k: "(if l_size (t_list t) > 0 then kill_from t (l_head (t_list t)) else Some []) = Some kills"
    "CreatCoapclient mal buff0 cont env t = Some r" "prepend kills r = Cont (t', evs)"
    using assms by (auto simp: Tftp_Sig_def UpdateCoapclient_def split: bind_splits)
  then obtain news where n: "r = Cont (t', news)" "evs = kills @ news" by (auto simp: prepend_def split: proc.splits)
  then obtain t1 where t1: "ParsTxt mal t buff0 cont = Some (Running t1)"
    "creat_from env 0 t1 (replicate 64 0) (l_head (t_list t1)) = Some (Cont (t', news))"
    using k(2) by (auto simp: CreatCoapclient_def split: option.splits outcome.splits)
  have "handler_run mal buff0 cont env (H_start, t, []) (H_clean, t, kills)"
  proof (cases "l_size (t_list t) > 0")
    case True
    with k(1) handler_kills [of t "l_head (t_list t)" kills mal buff0 cont env "[]"]
    have "handler_run mal buff0 cont env (H_kill (l_head (t_list t)), t, []) (H_clean, t, kills)" by simp
    then show ?thesis by (rule handler_silent [rotated 2]) (use True in \<open>simp_all add: handler_defs\<close>)
  next
    case False
    with k(1) handler_silent [OF _ _ rtranclp.rtrancl_refl, of H_start mal buff0 cont env t H_clean t "[]"]
    show ?thesis by (simp add: handler_defs)
  qed
  also have "handler_run mal buff0 cont env (H_clean, t, kills) (H_done, t', evs)"
    using handler_parses [OF t1(1)] handler_creates [OF t1(2)] unfolding n(2) by (rule rtranclp_trans)
  finally show ?thesis .
qed

text \<open>Until the list is cleaned the table stays as it is.\<close>

definition before_clean :: "handler_pc \<Rightarrow> bool" where
  "before_clean pc \<longleftrightarrow> (case pc of H_start \<Rightarrow> True | H_kill p \<Rightarrow> True | H_wait a \<Rightarrow> True | H_clean \<Rightarrow> True | _ \<Rightarrow> False)"

lemma tftp_step_before:
  "tftp_step mal buff0 cont env pc t = Some (Cont (pc', t', new)) \<Longrightarrow> before_clean pc' \<Longrightarrow> before_clean pc \<and> t' = t"
  by (cases pc) (auto simp: before_clean_def handler_defs line_step_def Let_def
      split: if_splits option.splits bind_splits prod.splits)

lemma handler_run_before:
  assumes "handler_run mal buff0 cont env (H_start, t, []) (pc, t1, evs)" and "before_clean pc"
  shows "t1 = t"
proof -
  have "before_clean (fst h) \<longrightarrow> fst (snd h) = t" if "handler_run mal buff0 cont env (H_start, t, []) h" for h
    using that
  proof (induction rule: rtranclp_induct)
    case (step h1 h2)
    from step.hyps(2) step.IH show ?case by cases (auto dest: tftp_step_before)
  qed simp
  with assms show ?thesis by fastforce
qed

subsection \<open>What a part of the run can still do\<close>

text \<open>A run of a step relation without choice passes through every state reached.\<close>

lemma determ_run:
  assumes "r\<^sup>*\<^sup>* a b" and "r\<^sup>*\<^sup>* a c" and "\<And>x y z. r x y \<Longrightarrow> r x z \<Longrightarrow> y = z" and "\<And>x. \<not> r c x"
  shows "r\<^sup>*\<^sup>* b c"
  using assms(1)
proof (induction rule: rtranclp_induct)
  case base
  show ?case by (rule assms(2))
next
  case (step x y)
  then show ?case using assms(3,4) by (metis converse_rtranclpE)
qed

text \<open>From every state on the way the handler gets to its end; before it, it has a next step.\<close>

lemma handler_gets_on:
  assumes "Tftp_Sig mal buff0 cont env t = Some (Cont (t', evs'))"
    and "handler_run mal buff0 cont env (H_start, t, []) (pc, t1, evs)"
  shows "handler_run mal buff0 cont env (pc, t1, evs) (H_done, t', evs')"
    and "pc \<noteq> H_done \<Longrightarrow> \<exists>h. handler_step mal buff0 cont env (pc, t1, evs) h"
    and "pc = H_done \<Longrightarrow> t1 = t' \<and> evs = evs'"
proof -
  show run: "handler_run mal buff0 cont env (pc, t1, evs) (H_done, t', evs')"
    by (rule determ_run [OF assms(2) handler_completes [OF assms(1)] handler_step_determ handler_done])
  show "\<exists>h. handler_step mal buff0 cont env (pc, t1, evs) h" if "pc \<noteq> H_done"
    using run that by (metis converse_rtranclpE prod.inject)
  show "t1 = t' \<and> evs = evs'" if "pc = H_done"
    using run that by (metis converse_rtranclpE handler_done prod.inject)
qed

end
