(* ===== verification/Reload.thy ===== *)
theory Reload
  imports Dispatch Handler
begin

section \<open>Device tables that change while the gateway runs: user/main.c\<close>

text \<open>
  The life of the gateway process with any number of uploads of a new device table.  The signal
  handler runs step by step beside the two threads; when it has returned, a new epoch begins, with its
  own clients.  The runs considered are those in which the device table is not in use meanwhile: the
  signal comes when the dispatch thread is not in the middle of writing a message, and that thread does
  not look at the table before the handler has returned.  The serial port thread is free, and the
  dispatch thread may still wait, dequeue and free.  The code does nothing to ensure this; what happens
  otherwise is shown here and with the threads.
\<close>

subsection \<open>The past of the fifos does not matter to the steps\<close>

definition rewrite :: "(int \<times> u8 list) list \<Rightarrow> gateway \<Rightarrow> gw_result \<Rightarrow> gw_result" where
  "rewrite w g r =
     (case r of
        Next g' \<Rightarrow> Next (g'\<lparr>g_writes := w @ drop (length (g_writes g)) (g_writes g')\<rparr>)
      | _ \<Rightarrow> r)"

lemma uart_byte_rewrite: "uart_byte mal now rc ch (g\<lparr>g_writes := w\<rparr>) = rewrite w g (uart_byte mal now rc ch g)"
  by (auto simp: uart_byte_def rewrite_def split: option.splits outcome.splits)

lemma uart_step_rewrite: "uart_step mal (g\<lparr>g_writes := w\<rparr>) = rewrite w g (uart_step mal g)"
  by (auto simp: uart_step_def rewrite_def split: option.splits uart_pc.splits)

lemma trans_step_rewrite: "trans_step (g\<lparr>g_writes := w\<rparr>) = rewrite w g (trans_step g)"
proof (cases "g_tpc g")
  case (T_write p)
  then show ?thesis
    by (cases p) (auto simp: trans_step_def trans_write_def rewrite_def Let_def split: option.splits bind_splits)
qed (auto simp: trans_step_def rewrite_def Let_def split: option.splits)

lemma gw_step_rewrite: "gw_step f g g' \<Longrightarrow> gw_step f (g\<lparr>g_writes := w\<rparr>) (g'\<lparr>g_writes := w @ new_writes g g'\<rparr>)"
proof (erule gw_stepE, goal_cases)
  case (1 now rc ch)
  then have "uart_byte (mallocs f) now rc ch (g\<lparr>g_writes := w\<rparr>) = Next (g'\<lparr>g_writes := w @ new_writes g g'\<rparr>)"
    by (simp add: uart_byte_rewrite rewrite_def new_writes_def)
  with 1 show ?case by (blast intro: step_byte)
next
  case 2
  then have "uart_step (mallocs f) (g\<lparr>g_writes := w\<rparr>) = Next (g'\<lparr>g_writes := w @ new_writes g g'\<rparr>) \<or>
      trans_step (g\<lparr>g_writes := w\<rparr>) = Next (g'\<lparr>g_writes := w @ new_writes g g'\<rparr>)"
    by (auto elim!: internalE simp: uart_step_rewrite trans_step_rewrite rewrite_def new_writes_def)
  then show ?case by (blast intro: step_internal internal_uart internal_trans)
qed

lemma quiet_rewrite: "quiet f g \<Longrightarrow> quiet f (g\<lparr>g_writes := w\<rparr>)"
  by (simp add: quiet_def uart_step_rewrite trans_step_rewrite rewrite_def)

subsection \<open>Epochs\<close>

text \<open>
  A table the handler can replace: its nodes and blocks are apart from what \<open>malloc\<close> will return,
  every entry has a client, and there is at least one.
\<close>

definition table_ok :: "(nat \<Rightarrow> addr) \<Rightarrow> (addr \<times> addr) list \<Rightarrow> coapIP list \<Rightarrow> iptab \<Rightarrow> bool" where
  "table_ok ft xs es t \<longleftrightarrow>
     tab t xs es \<and> l_destroy (t_list t) = Some free_ip \<and> new_from ft t \<and> length xs < 2147483647 \<and>
     (\<forall>c \<in> set es. ci_pid c \<noteq> None \<and> ci_fifo_fd c \<noteq> None) \<and> es \<noteq> []"

text \<open>A device file whose clients can be started, and the entries it leads to.\<close>

definition file_ok :: "u8 list \<Rightarrow> (nat \<Rightarrow> fork_env) \<Rightarrow> bool" where
  "file_ok cont env \<longleftrightarrow>
     (\<forall>cs \<in> set (chunks cont). safe_line cs) \<and> length cont < 2147483647 \<and> file_entries cont \<noteq> [] \<and>
     (\<forall>j < length (file_entries cont). env_ok (env j))"

definition loaded :: "u8 list \<Rightarrow> (nat \<Rightarrow> fork_env) \<Rightarrow> coapIP list" where
  "loaded cont env = map2 (\<lambda>j c. client_entry (env j) c) [0..<length (file_entries cont)] (file_entries cont)"

definition between_messages :: "gateway \<Rightarrow> bool" where
  "between_messages g \<longleftrightarrow> (\<forall>p. g_tpc g \<noteq> T_write (Some p))"

text \<open>The next step of the dispatch thread does not look at the device table.\<close>

definition away_from_table :: "gateway \<Rightarrow> bool" where
  "away_from_table g \<longleftrightarrow> (case g_tpc g of T_check \<Rightarrow> False | T_write p \<Rightarrow> p = None | _ \<Rightarrow> True)"

text \<open>Steps of the threads beside the handler.\<close>

inductive beside_step :: "(nat \<Rightarrow> addr) \<Rightarrow> gateway \<Rightarrow> gateway \<Rightarrow> bool" for f where
  beside_byte: "ctime_text now \<Longrightarrow> uart_byte (mallocs f) now rc ch g = Next g' \<Longrightarrow> beside_step f g g'"
| beside_uart: "uart_step (mallocs f) g = Next g' \<Longrightarrow> beside_step f g g'"
| beside_trans: "away_from_table g \<Longrightarrow> trans_step g = Next g' \<Longrightarrow> beside_step f g g'"

text \<open>A handler at work: the array \<open>buff\<close>, the file, the results of its system calls, and where it is.\<close>

record upload =
  up_buff :: "u8 list"
  up_file :: "u8 list"
  up_env :: "nat \<Rightarrow> fork_env"
  up_pc :: handler_pc
  up_events :: "proc_event list"

definition arrived :: "u8 list \<Rightarrow> u8 list \<Rightarrow> (nat \<Rightarrow> fork_env) \<Rightarrow> upload" where
  "arrived buff cont env = \<lparr>up_buff = buff, up_file = cont, up_env = env, up_pc = H_start, up_events = []\<rparr>"

text \<open>One step of the handler, on the table of the gateway.\<close>

inductive upload_step :: "(nat \<Rightarrow> addr) \<Rightarrow> gateway \<Rightarrow> upload \<Rightarrow> gateway \<Rightarrow> upload \<Rightarrow> bool" for ft where
  upload_goes_on:
    "handler_step (mallocs ft) (up_buff u) (Some (up_file u)) (up_env u) (up_pc u, g_tab g, up_events u) (pc, t, evs) \<Longrightarrow>
     upload_step ft g u (g\<lparr>g_tab := t\<rparr>) (u\<lparr>up_pc := pc, up_events := evs\<rparr>)"

inductive_cases upload_stepE: "upload_step ft g u g' u'"

text \<open>
  \<open>life_reach f ft ess g up\<close>: the state \<open>g\<close>, with the handler at work as \<open>up\<close> says, can be reached with the
  tables \<open>ess\<close>, one after the other.
\<close>

inductive life_reach ::
  "(nat \<Rightarrow> addr) \<Rightarrow> (nat \<Rightarrow> addr) \<Rightarrow> coapIP list list \<Rightarrow> gateway \<Rightarrow> upload option \<Rightarrow> bool" for f ft where
  life_start: "table_ok ft xs es t \<Longrightarrow> inj f \<Longrightarrow> life_reach f ft [es] (gw_init t) None"
| life_threads: "life_reach f ft ess g None \<Longrightarrow> gw_step f g g' \<Longrightarrow> life_reach f ft ess g' None"
| life_arrives: "life_reach f ft ess g None \<Longrightarrow> between_messages g \<Longrightarrow> length buff = 128 \<Longrightarrow> file_ok cont env \<Longrightarrow>
     life_reach f ft ess g (Some (arrived buff cont env))"
| life_beside: "life_reach f ft ess g (Some u) \<Longrightarrow> beside_step f g g' \<Longrightarrow> life_reach f ft ess g' (Some u)"
| life_handler: "life_reach f ft ess g (Some u) \<Longrightarrow> upload_step ft g u g' u' \<Longrightarrow> life_reach f ft ess g' (Some u')"
| life_returns: "life_reach f ft ess g (Some u) \<Longrightarrow> up_pc u = H_done \<Longrightarrow>
     life_reach f ft (ess @ [loaded (up_file u) (up_env u)]) g None"

lemma life_run: "(gw_step f)\<^sup>*\<^sup>* g g' \<Longrightarrow> life_reach f ft ess g None \<Longrightarrow> life_reach f ft ess g' None"
  by (induction rule: rtranclp_induct) (auto intro: life_threads)

subsection \<open>What the threads do beside the handler does not depend on the table\<close>

definition retable :: "iptab \<Rightarrow> gw_result \<Rightarrow> gw_result" where
  "retable t r = (case r of Next g' \<Rightarrow> Next (g'\<lparr>g_tab := t\<rparr>) | _ \<Rightarrow> r)"

lemma uart_byte_table: "uart_byte mal now rc ch (g\<lparr>g_tab := t\<rparr>) = retable t (uart_byte mal now rc ch g)"
  by (auto simp: uart_byte_def retable_def split: option.splits outcome.splits)

lemma uart_step_table: "uart_step mal (g\<lparr>g_tab := t\<rparr>) = retable t (uart_step mal g)"
  by (auto simp: uart_step_def retable_def split: option.splits uart_pc.splits)

lemma trans_step_table: "away_from_table g \<Longrightarrow> trans_step (g\<lparr>g_tab := t\<rparr>) = retable t (trans_step g)"
  by (auto simp: trans_step_def retable_def away_from_table_def Let_def split: option.splits trans_pc.splits)

lemma beside_step_table:
  assumes "beside_step f g g'"
  shows "gw_step f (g\<lparr>g_tab := t\<rparr>) (g'\<lparr>g_tab := t\<rparr>)"
  using assms
proof cases
  case (beside_byte now rc ch)
  then have "uart_byte (mallocs f) now rc ch (g\<lparr>g_tab := t\<rparr>) = Next (g'\<lparr>g_tab := t\<rparr>)"
    by (simp add: uart_byte_table retable_def)
  with beside_byte(1) show ?thesis by (rule step_byte)
next
  case beside_uart
  then have "uart_step (mallocs f) (g\<lparr>g_tab := t\<rparr>) = Next (g'\<lparr>g_tab := t\<rparr>)"
    by (simp add: uart_step_table retable_def)
  then show ?thesis by (intro step_internal internal_uart)
next
  case beside_trans
  then have "trans_step (g\<lparr>g_tab := t\<rparr>) = Next (g'\<lparr>g_tab := t\<rparr>)"
    by (simp add: trans_step_table retable_def)
  then show ?thesis by (intro step_internal internal_trans)
qed

lemma beside_step_gateway: "beside_step f g g' \<Longrightarrow> gw_step f g g'"
  by (erule beside_step.cases) (blast intro: step_byte step_internal internal_uart internal_trans)+

lemma beside_step_keeps:
  assumes "beside_step f g g'"
  shows "g_tab g' = g_tab g" "new_writes g g' = []" "between_messages g \<Longrightarrow> between_messages g'"
    "gw_guard g' \<Longrightarrow> gw_guard g"
proof -
  show "g_tab g' = g_tab g" "gw_guard g' \<Longrightarrow> gw_guard g"
    using beside_step_gateway [OF assms] gw_step_keeps(2) gw.guard_back by blast+
  show "new_writes g g' = []" "between_messages g \<Longrightarrow> between_messages g'"
    using assms by (cases; auto simp: thread_defs new_writes_def between_messages_def away_from_table_def split: thread_splits)+
qed

lemma quiet_table: "quiet f g \<Longrightarrow> quiet f (g\<lparr>g_tab := t\<rparr>)" "quiet f g \<Longrightarrow> between_messages g"
  by (auto simp: quiet_def thread_defs between_messages_def split: thread_splits)

subsection \<open>What an upload loads\<close>

lemma length_loaded: "length (loaded cont env) = length (file_entries cont)"
  by (simp add: loaded_def)

lemma table_ok_ready: "table_ok ft xs es t \<Longrightarrow> tab_ready xs es t"
  by (simp add: table_ok_def tab_ready_def)

lemma upload_loads:
  assumes t: "table_ok ft xs es t" and "length buff = 128" and ok: "file_ok cont env"
  shows "\<exists>t' xs' evs. Tftp_Sig (mallocs ft) buff (Some cont) env t = Some (Cont (t', evs)) \<and>
     table_ok ft xs' (loaded cont env) t'"
proof -
  have "\<exists>t' xs' evs. Tftp_Sig (mallocs ft) buff (Some cont) env t = Some (Cont (t', evs)) \<and>
      tab t' xs' (loaded cont env) \<and> l_destroy (t_list t') = Some free_ip \<and> new_from ft t' \<and> length xs' < 2147483647"
    using Tftp_Sig_ok [of t xs es ft buff cont env] assms
    unfolding table_ok_def file_ok_def loaded_def by blast
  moreover have "\<forall>c \<in> set (loaded cont env). ci_pid c \<noteq> None \<and> ci_fifo_fd c \<noteq> None"
    by (auto simp: loaded_def client_entry_def)
  moreover have "loaded cont env \<noteq> []"
    using ok length_loaded unfolding file_ok_def by (metis length_0_conv)
  ultimately show ?thesis by (auto simp: table_ok_def)
qed

subsection \<open>The invariant\<close>

text \<open>
  The state seen from the last epoch: as if the clients of its table had received everything that was
  dispatched before.
\<close>

definition dispatched :: "coapIP list list \<Rightarrow> u8 list list list \<Rightarrow> (int \<times> u8 list) list" where
  "dispatched ess fss = concat (map2 deliver ess fss)"

definition as_if :: "coapIP list list \<Rightarrow> u8 list list list \<Rightarrow> (int \<times> u8 list) list \<Rightarrow> gateway \<Rightarrow> gateway" where
  "as_if ess fss V g = g\<lparr>g_writes := deliver (last ess) (concat fss) @ V\<rparr>"

text \<open>
  The groups of messages dispatched to the tables before the last one are \<open>fss\<close>; the writes since the
  last table came are \<open>V\<close>.
\<close>

definition life_at where
  "life_at f ft ess fss V xs g \<longleftrightarrow>
     length ess = Suc (length fss) \<and> g_writes g = dispatched ess fss @ V \<and>
     prefix (concat fss) (frames (g_in g)) \<and> table_ok ft xs (last ess) (g_tab g) \<and>
     ginv f xs (last ess) (as_if ess fss V g)"

text \<open>
  With the handler at work, the state was one of the last epoch with the table \<open>t0\<close> the handler began
  with, and the present table is what its steps so far have made of it.
\<close>

definition upload_at ::
  "(nat \<Rightarrow> addr) \<Rightarrow> (nat \<Rightarrow> addr) \<Rightarrow> coapIP list list \<Rightarrow> u8 list list list \<Rightarrow> (int \<times> u8 list) list \<Rightarrow>
     (addr \<times> addr) list \<Rightarrow> gateway \<Rightarrow> upload \<Rightarrow> bool" where
  "upload_at f ft ess fss V xs g u \<longleftrightarrow>
     (\<exists>t0. life_at f ft ess fss V xs (g\<lparr>g_tab := t0\<rparr>) \<and> between_messages g \<and>
        length (up_buff u) = 128 \<and> file_ok (up_file u) (up_env u) \<and>
        handler_run (mallocs ft) (up_buff u) (Some (up_file u)) (up_env u)
          (H_start, t0, []) (up_pc u, g_tab g, up_events u))"

definition life_inv ::
  "(nat \<Rightarrow> addr) \<Rightarrow> (nat \<Rightarrow> addr) \<Rightarrow> coapIP list list \<Rightarrow> u8 list list list \<Rightarrow> (int \<times> u8 list) list \<Rightarrow>
     (addr \<times> addr) list \<Rightarrow> gateway \<Rightarrow> upload option \<Rightarrow> bool" where
  "life_inv f ft ess fss V xs g up \<longleftrightarrow>
     (case up of None \<Rightarrow> life_at f ft ess fss V xs g | Some u \<Rightarrow> upload_at f ft ess fss V xs g u)"

lemma life_atD:
  assumes "life_at f ft ess fss V xs g"
  shows "length ess = Suc (length fss)" "g_writes g = dispatched ess fss @ V" "prefix (concat fss) (frames (g_in g))"
    "table_ok ft xs (last ess) (g_tab g)" "ginv f xs (last ess) (as_if ess fss V g)"
  using assms unfolding life_at_def by blast+

lemma length_deliver: "length (deliver es fs) = length es * length fs"
  by (induction fs) (simp_all add: deliver_def)

lemma as_if_simps [simp]: "g_in (as_if ess fss V g) = g_in g" "g_tab (as_if ess fss V g) = g_tab g"
  "g_tpc (as_if ess fss V g) = g_tpc g" "g_writes (as_if ess fss V g) = deliver (last ess) (concat fss) @ V"
  by (simp_all add: as_if_def)

lemma dispatched_snoc:
  assumes "length ess = Suc (length fss)"
  shows "dispatched ess (fss @ [F]) = dispatched ess fss @ deliver (last ess) F"
  using assms by (cases ess rule: rev_cases) (simp_all add: dispatched_def zip_append1)

lemma dispatched_past: "length ess = length fss \<Longrightarrow> dispatched (ess @ [es]) fss = dispatched ess fss"
  using zip_append1 [of ess "[es]" fss] by (simp add: dispatched_def)

subsection \<open>Every step keeps it\<close>

lemma life_at_start:
  assumes "table_ok ft xs es t" and "inj f"
  shows "life_at f ft [es] [] [] xs (gw_init t)"
  using gw_init_inv [OF table_ok_ready [OF assms(1)] assms(2)] assms(1)
  by (simp add: life_at_def as_if_def dispatched_def deliver_def gw_init_def)

lemma life_at_threads:
  assumes i: "life_at f ft ess fss V xs g" and step: "gw_step f g g'" and guard: "gw_guard g'"
  shows "life_at f ft ess fss (V @ new_writes g g') xs g'"
proof -
  note k = gw_step_keeps [OF step]
  let ?V = "V @ new_writes g g'"
  have "gw_step f (as_if ess fss V g) (as_if ess fss ?V g')"
    using gw_step_rewrite [OF step, of "deliver (last ess) (concat fss) @ V"] by (simp add: as_if_def)
  then have "ginv f xs (last ess) (as_if ess fss ?V g')"
    using gw.inv_step [OF life_atD(5) [OF i]] guard by (simp add: gw_guard_def)
  with life_atD(1-4) [OF i] k show ?thesis unfolding life_at_def by (auto intro: prefix_order.trans)
qed

text \<open>Between two messages, some number of messages has been written out completely.\<close>

lemma between_new_table:
  assumes inv: "ginv f xs es g" and ready: "tab_ready xs' es' t'" and es: "es \<noteq> []" "es' \<noteq> []"
    and between: "between_messages g"
  shows "\<exists>D. g_writes g = deliver es D \<and> prefix D (frames (g_in g)) \<and>
     ginv f xs' es' (g\<lparr>g_tab := t', g_writes := deliver es' D\<rparr>)"
proof -
  obtain D tm qs um where tab: "tab_ready xs es (g_tab g)" and db: "db_inv g" and v: "gview f xs es g D tm qs um"
    using inv by (rule ginvE)
  note vs = gviewD [OF v]
  have len: "length xs = length es" "length xs' = length es'" using tab_readyD(4) tab ready by blast+
  let ?g = "\<lambda>D. g\<lparr>g_tab := t', g_writes := deliver es' D\<rparr>"
  have m: "mem_inv f es' (g_sh g) (tm @ qs @ um)" using vs(2) es by (simp add: mem_inv_def)
  have keep: "ginv f xs' es' (?g D')" if "trans_inv xs' es' (?g D') D tm" for D'
  proof (rule ginvI)
    show "gview f xs' es' (?g D') D tm qs um"
      using vs m that by (intro gviewI) (auto simp: sem_inv_def intro: uart_inv_cong [of g])
  qed (use ready db in \<open>simp_all add: db_inv_def\<close>)
  show ?thesis
  proof (cases "g_tpc g")
    case (T_write p)
    then have p: "g_tpc g = T_write None" using between by (cases p) (auto simp: between_messages_def)
    with vs(6) obtain a s n where s: "tm = [(a, s)]" "g_msg g = Some a" "n \<le> length xs" "None = head_of (drop n xs)"
      "g_writes g = deliver es D @ deliver (take n es) [s]" by (auto simp: trans_inv_def)
    then have n: "n = length xs" by (auto simp: head_of_drop split: if_splits)
    have "trans_inv xs' es' (?g (D @ [s])) D tm"
      using s(1,2) es(2) p len(2)
      by (auto simp: trans_inv_def deliver_append head_of_def intro!: exI [of _ "length es'"])
    with keep [of "D @ [s]"] n s vs(3) len(1) show ?thesis
      by (intro exI [of _ "D @ [s]"]) (auto simp: deliver_append prefix_def)
  qed (use keep [of D] vs(3,6) in \<open>auto simp: trans_inv_def prefix_def\<close>)
qed

lemma life_at_new_table:
  assumes i: "life_at f ft ess fss V xs g" and between: "between_messages g" and t': "table_ok ft xs' es' t'"
  shows "\<exists>G. V = deliver (last ess) G \<and> life_at f ft (ess @ [es']) (fss @ [G]) [] xs' (g\<lparr>g_tab := t'\<rparr>)"
proof -
  note i = life_atD [OF i]
  let ?es = "last ess" and ?F = "concat fss"
  have ne: "?es \<noteq> []" "es' \<noteq> []" using i(4) t' by (simp_all add: table_ok_def)
  have "between_messages (as_if ess fss V g)" using between by (simp add: between_messages_def)
  from between_new_table [OF i(5) table_ok_ready [OF t'] ne this] obtain D where
    D: "deliver ?es ?F @ V = deliver ?es D" "prefix D (frames (g_in g))"
      "ginv f xs' es' ((as_if ess fss V g)\<lparr>g_tab := t', g_writes := deliver es' D\<rparr>)" by auto
  have "length ?es * length ?F + length V = length ?es * length D"
    using arg_cong [OF D(1), of length] by (simp add: length_deliver)
  then have "length ?es * length ?F \<le> length ?es * length D" by linarith
  then have "length ?F \<le> length D" using ne(1) by simp
  with prefix_length_prefix [OF i(3) D(2)] obtain G where G: "D = ?F @ G" by (auto simp: prefix_def)
  then have V: "V = deliver ?es G" using D(1) by (simp add: deliver_append)
  have "g_writes g = dispatched (ess @ [es']) (fss @ [G])"
    using i(1,2) V by (simp add: dispatched_snoc dispatched_past)
  moreover have "ginv f xs' es' (as_if (ess @ [es']) (fss @ [G]) [] (g\<lparr>g_tab := t'\<rparr>))"
    using D(3) G by (simp add: as_if_def)
  ultimately show ?thesis unfolding life_at_def
    using i(1) t' D(2) G V by (intro exI [of _ G]) simp
qed

lemma upload_at_arrives:
  assumes "life_at f ft ess fss V xs g" and "between_messages g" and "length buff = 128" and "file_ok cont env"
  shows "upload_at f ft ess fss V xs g (arrived buff cont env)"
  using assms by (auto simp: upload_at_def arrived_def intro!: exI [of _ "g_tab g"])

lemma upload_at_beside:
  assumes u: "upload_at f ft ess fss V xs g u" and step: "beside_step f g g'" and guard: "gw_guard g'"
  shows "upload_at f ft ess fss V xs g' u"
proof -
  obtain t0 where t0: "life_at f ft ess fss V xs (g\<lparr>g_tab := t0\<rparr>)" "between_messages g" "length (up_buff u) = 128"
    "file_ok (up_file u) (up_env u)" "handler_run (mallocs ft) (up_buff u) (Some (up_file u)) (up_env u)
        (H_start, t0, []) (up_pc u, g_tab g, up_events u)"
    using u by (auto simp: upload_at_def)
  have "new_writes (g\<lparr>g_tab := t0\<rparr>) (g'\<lparr>g_tab := t0\<rparr>) = []"
    using beside_step_keeps(2) [OF step] by (simp add: new_writes_def)
  moreover have "gw_guard (g'\<lparr>g_tab := t0\<rparr>)" using guard by (simp add: gw_guard_def)
  ultimately have "life_at f ft ess fss V xs (g'\<lparr>g_tab := t0\<rparr>)"
    using life_at_threads [OF t0(1) beside_step_table [OF step, of t0]] by simp
  with t0 beside_step_keeps [OF step] show ?thesis unfolding upload_at_def by auto
qed

lemma upload_at_handler:
  assumes "upload_at f ft ess fss V xs g u" and "upload_step ft g u g' u'"
  shows "upload_at f ft ess fss V xs g' u'"
  using assms
  by (auto elim!: upload_stepE simp: upload_at_def between_messages_def intro: rtranclp.rtrancl_into_rtrancl)

text \<open>What the rest of the handler's run will do.\<close>

lemma upload_at_rest:
  assumes "upload_at f ft ess fss V xs g u"
  shows "\<exists>t' xs' evs. table_ok ft xs' (loaded (up_file u) (up_env u)) t' \<and>
     handler_run (mallocs ft) (up_buff u) (Some (up_file u)) (up_env u)
       (up_pc u, g_tab g, up_events u) (H_done, t', evs) \<and>
     (up_pc u \<noteq> H_done \<longrightarrow> (\<exists>g' u'. upload_step ft g u g' u')) \<and> (up_pc u = H_done \<longrightarrow> g_tab g = t')"
proof -
  obtain t0 where t0: "life_at f ft ess fss V xs (g\<lparr>g_tab := t0\<rparr>)" "length (up_buff u) = 128"
    "file_ok (up_file u) (up_env u)" and run: "handler_run (mallocs ft) (up_buff u) (Some (up_file u)) (up_env u)
        (H_start, t0, []) (up_pc u, g_tab g, up_events u)"
    using assms by (auto simp: upload_at_def)
  have "table_ok ft xs (last ess) t0" using life_atD(4) [OF t0(1)] by simp
  from upload_loads [OF this t0(2,3)] obtain t' xs' evs where
    t': "Tftp_Sig (mallocs ft) (up_buff u) (Some (up_file u)) (up_env u) t0 = Some (Cont (t', evs))"
      "table_ok ft xs' (loaded (up_file u) (up_env u)) t'" by blast
  have "\<exists>g' u'. upload_step ft g u g' u'" if "up_pc u \<noteq> H_done"
    using handler_gets_on(2) [OF t'(1) run that] by (metis prod_cases3 upload_goes_on)
  with handler_gets_on(1,3) [OF t'(1) run] t'(2) show ?thesis by blast
qed

lemma upload_at_returns:
  assumes "upload_at f ft ess fss V xs g u" and "up_pc u = H_done"
  shows "\<exists>G xs'. V = deliver (last ess) G \<and>
     life_at f ft (ess @ [loaded (up_file u) (up_env u)]) (fss @ [G]) [] xs' g"
proof -
  obtain t0 where t0: "life_at f ft ess fss V xs (g\<lparr>g_tab := t0\<rparr>)" "between_messages g"
    using assms by (auto simp: upload_at_def)
  obtain xs' where "table_ok ft xs' (loaded (up_file u) (up_env u)) (g_tab g)"
    using upload_at_rest [OF assms(1)] assms(2) by blast
  from life_at_new_table [OF t0(1) _ this] t0(2) show ?thesis by (auto simp: between_messages_def)
qed

lemma life_inv_reach:
  "life_reach f ft ess g up \<Longrightarrow> gw_guard g \<Longrightarrow> \<exists>fss V xs. life_inv f ft ess fss V xs g up"
proof (induction rule: life_reach.induct)
  case (life_start xs es t)
  then show ?case using life_at_start unfolding life_inv_def by (metis option.case(1))
next
  case (life_threads ess g g')
  then show ?case using gw.guard_back life_at_threads unfolding life_inv_def by (metis option.case(1))
next
  case (life_arrives ess g buff cont env)
  then show ?case using upload_at_arrives unfolding life_inv_def by (metis option.case)
next
  case (life_beside ess g u g')
  then show ?case
    using beside_step_keeps(4) upload_at_beside unfolding life_inv_def by (metis option.case(2))
next
  case (life_handler ess g u g' u')
  from life_handler.hyps(2) life_handler.prems have "gw_guard g" by (auto elim!: upload_stepE simp: gw_guard_def)
  with life_handler show ?case using upload_at_handler unfolding life_inv_def by (metis option.case(2))
next
  case (life_returns ess g u)
  then show ?case using upload_at_returns unfolding life_inv_def by (metis option.case)
qed

text \<open>The writes to the last table are on the way to those of all messages that are left.\<close>

lemma life_at_writes:
  assumes i: "life_at f ft ess fss V xs g" and guard: "gw_guard g"
  shows "\<exists>R. frames (g_in g) = concat fss @ R \<and> prefix V (deliver (last ess) R) \<and>
     (quiet f g \<longrightarrow> V = deliver (last ess) R \<and> dom (sh_msgs (g_sh g)) = {})"
proof -
  note i = life_atD [OF i]
  let ?g = "as_if ess fss V g" and ?es = "last ess"
  obtain R where R: "frames (g_in g) = concat fss @ R" using i(3) by (auto simp: prefix_def)
  have guard: "gw_guard ?g" using guard by (simp add: gw_guard_def)
  obtain D tm qs um where tab: "tab_ready xs ?es (g_tab ?g)" and v: "gview f xs ?es ?g D tm qs um"
    using i(5) by (rule ginvE)
  have "prefix V (deliver ?es R)" using gview_writes [OF v tab] by (simp add: R deliver_append)
  moreover have "V = deliver ?es R \<and> dom (sh_msgs (g_sh g)) = {}" if "quiet f g"
    using quiet_view [OF i(5) guard] quiet_rewrite [OF that] i(4)
    by (simp add: R deliver_append table_ok_def as_if_def)
  ultimately show ?thesis using R by blast
qed

lemma life_at_safe:
  assumes i: "life_at f ft ess fss V xs g" and guard: "gw_guard g"
  shows "db_inv g" "trans_step g \<noteq> Undefined" "uart_step (mallocs f) g \<noteq> Undefined"
proof -
  let ?g = "as_if ess fss V g"
  note inv = life_atD(5) [OF i]
  have guard: "gw_guard ?g" using guard by (simp add: gw_guard_def)
  have "db_inv ?g" using inv by (rule ginvE)
  then show "db_inv g" by (simp add: db_inv_def as_if_def)
  have "trans_step ?g \<noteq> Undefined" "uart_step (mallocs f) ?g \<noteq> Undefined"
    using trans_step_ok [OF inv guard] uart_step_ok [OF inv guard] by (auto simp: progress_def)
  then show "trans_step g \<noteq> Undefined" "uart_step (mallocs f) g \<noteq> Undefined"
    by (auto simp: as_if_def trans_step_rewrite uart_step_rewrite rewrite_def)
qed

lemma dispatched_butlast: "length ess = Suc (length fss) \<Longrightarrow> dispatched (butlast ess) (fss @ [R]) = dispatched ess fss"
  by (cases ess rule: rev_cases) (simp_all add: dispatched_def zip_append1 zip_append2)

text \<open>While the handler works the gateway, seen with the table of the last epoch, is as before.\<close>

lemma life_inv_view:
  "life_inv f ft ess fss V xs g up \<Longrightarrow>
     \<exists>t0. life_at f ft ess fss V xs (g\<lparr>g_tab := t0\<rparr>) \<and> (up = None \<longrightarrow> t0 = g_tab g)"
  by (auto simp: life_inv_def upload_at_def split: option.splits intro: exI [of _ "g_tab g"])

lemma retable_Undefined: "retable t r = Undefined \<longleftrightarrow> r = Undefined"
  by (simp add: retable_def split: gw_result.split)

lemma life_inv_writes:
  assumes i: "life_inv f ft ess fss V xs g up" and guard: "gw_guard g"
  shows "\<exists>R. frames (g_in g) = concat fss @ R \<and> prefix V (deliver (last ess) R) \<and>
     (quiet f g \<longrightarrow> V = deliver (last ess) R \<and> dom (sh_msgs (g_sh g)) = {})"
proof -
  obtain t0 where t0: "life_at f ft ess fss V xs (g\<lparr>g_tab := t0\<rparr>)" using life_inv_view [OF i] by blast
  have "gw_guard (g\<lparr>g_tab := t0\<rparr>)" using guard by (simp add: gw_guard_def)
  from life_at_writes [OF t0 this] quiet_table(1) [of f g t0] show ?thesis by auto
qed

lemma life_inv_safe:
  assumes i: "life_inv f ft ess fss V xs g up" and guard: "gw_guard g"
  shows "db_inv g" "uart_step (mallocs f) g \<noteq> Undefined" "up = None \<or> away_from_table g \<Longrightarrow> trans_step g \<noteq> Undefined"
proof -
  obtain t0 where t0: "life_at f ft ess fss V xs (g\<lparr>g_tab := t0\<rparr>)" "up = None \<Longrightarrow> t0 = g_tab g"
    using life_inv_view [OF i] by blast
  have "gw_guard (g\<lparr>g_tab := t0\<rparr>)" using guard by (simp add: gw_guard_def)
  note safe = life_at_safe [OF t0(1) this]
  from safe show "db_inv g" "uart_step (mallocs f) g \<noteq> Undefined"
    by (simp_all add: db_inv_def uart_step_table retable_Undefined)
  show "trans_step g \<noteq> Undefined" if "up = None \<or> away_from_table g"
  proof (cases "up = None")
    case True
    with safe(2) t0(2) show ?thesis by simp
  next
    case False
    with that safe(2) show ?thesis by (simp add: trans_step_table retable_Undefined)
  qed
qed

text \<open>
  What the assumption rules out.  When the dispatch thread looks at the table after all, while a handler
  is about to free a table that is not empty, the nodes are freed under it and its next step is
  undefined.
\<close>

lemma table_seen_during_upload:
  assumes t: "tab (g_tab g) xs es" "l_destroy (t_list (g_tab g)) = Some free_ip" "length xs < 2147483647" "xs \<noteq> []"
    and pc: "g_tpc g = T_check" "up_pc u = H_clean"
  shows "\<exists>g1 g' u'. trans_step g = Next g1 \<and> upload_step ft g1 u g' u' \<and> trans_step g' = Undefined"
proof -
  have rep: "lrep (t_heap (g_tab g)) (t_list (g_tab g)) xs" using t(1) by (simp add: tab_def)
  obtain a where a: "l_head (t_list (g_tab g)) = Some a" "a \<in> fst ` set xs"
    using rep t(4) chain_head [of "t_heap (g_tab g)" "l_head (t_list (g_tab g))" xs]
    by (cases xs) (auto simp: lrep_def head_of_def)
  have size: "l_size (t_list (g_tab g)) > 0" using rep t(4) by (simp add: lrep_def)
  let ?g1 = "g\<lparr>g_tpc := T_write (Some a)\<rparr>" and ?t = "cleaned (g_tab g) xs"
  have "trans_step g = Next ?g1" using pc(1) size a(1) by (simp add: trans_step_def)
  moreover have "tftp_step mal buff cont env H_clean (g_tab g) = Some (Cont (H_file, ?t, []))" for mal buff cont env
    using table_cleaned [OF t(1-3)] size by (auto simp: tftp_step_def)
  then have "handler_step mal buff cont env (up_pc u, g_tab ?g1, evs) (H_file, ?t, evs @ [])" for mal buff cont env evs
    using pc(2) by (intro handler_goes_on) simp_all
  then have "upload_step ft ?g1 u (?g1\<lparr>g_tab := ?t\<rparr>) (u\<lparr>up_pc := H_file, up_events := up_events u @ []\<rparr>)"
    by (rule upload_goes_on)
  moreover have "t_heap ?t a = None" using a(2) t(4) by (simp add: cleaned_def)
  then have "trans_step (?g1\<lparr>g_tab := ?t\<rparr>) = Undefined" by (simp add: trans_step_def trans_write_def)
  ultimately show ?thesis by blast
qed

lemma upload_at_seen:
  assumes "upload_at f ft ess fss V xs g u" and pc: "up_pc u = H_clean" "g_tpc g = T_check"
  shows "\<exists>g1 g' u'. trans_step g = Next g1 \<and> upload_step ft g1 u g' u' \<and> trans_step g' = Undefined"
proof -
  obtain t0 where t0: "life_at f ft ess fss V xs (g\<lparr>g_tab := t0\<rparr>)" "handler_run (mallocs ft) (up_buff u) (Some (up_file u))
      (up_env u) (H_start, t0, []) (up_pc u, g_tab g, up_events u)"
    using assms(1) by (auto simp: upload_at_def)
  have "g_tab g = t0" using handler_run_before [OF t0(2)] pc(1) by (simp add: before_clean_def)
  with life_atD(4) [OF t0(1)] have "table_ok ft xs (last ess) (g_tab g)" by simp
  then have t: "tab (g_tab g) xs (last ess)" "l_destroy (t_list (g_tab g)) = Some free_ip" "length xs < 2147483647"
    "last ess \<noteq> []" by (simp_all add: table_ok_def)
  then have "xs \<noteq> []" using tab_lengths by fastforce
  from table_seen_during_upload [OF t(1-3) this pc(2,1)] show ?thesis .
qed

text \<open>A whole upload, while the threads stand still.\<close>

lemma life_handler_run:
  assumes "handler_run (mallocs ft) buff (Some cont) env h h'"
    and "life_reach f ft ess (g\<lparr>g_tab := fst (snd h)\<rparr>)
       (Some \<lparr>up_buff = buff, up_file = cont, up_env = env, up_pc = fst h, up_events = snd (snd h)\<rparr>)"
  shows "life_reach f ft ess (g\<lparr>g_tab := fst (snd h')\<rparr>)
     (Some \<lparr>up_buff = buff, up_file = cont, up_env = env, up_pc = fst h', up_events = snd (snd h')\<rparr>)"
  using assms
proof (induction rule: rtranclp_induct)
  case (step h1 h2)
  obtain pc t evs where h2: "h2 = (pc, t, evs)" using prod_cases3 by blast
  let ?u = "\<lparr>up_buff = buff, up_file = cont, up_env = env, up_pc = fst h1, up_events = snd (snd h1)\<rparr>"
  have "upload_step ft (g\<lparr>g_tab := fst (snd h1)\<rparr>) ?u
      ((g\<lparr>g_tab := fst (snd h1)\<rparr>)\<lparr>g_tab := t\<rparr>) (?u\<lparr>up_pc := pc, up_events := evs\<rparr>)"
    using step.hyps(2) h2 by (intro upload_goes_on) simp
  from life_handler [OF step.IH [OF step.prems] this] h2 show ?case by simp
qed

lemma life_upload:
  fixes buff :: "u8 list"
  assumes r: "life_reach f ft ess g None" and "between_messages g" and t: "table_ok ft xs es (g_tab g)"
    and "length buff = 128" and "file_ok cont env"
  shows "\<exists>t'. life_reach f ft (ess @ [loaded cont env]) (g\<lparr>g_tab := t'\<rparr>) None"
proof -
  obtain t' xs' evs where "Tftp_Sig (mallocs ft) buff (Some cont) env (g_tab g) = Some (Cont (t', evs))"
    using upload_loads [OF t assms(4,5)] by blast
  from life_handler_run [OF handler_completes [OF this], of f ess g] life_arrives [OF r assms(2,4,5)]
  have "life_reach f ft ess (g\<lparr>g_tab := t'\<rparr>)
      (Some \<lparr>up_buff = buff, up_file = cont, up_env = env, up_pc = H_done, up_events = evs\<rparr>)"
    by (simp add: arrived_def)
  from life_returns [OF this] show ?thesis by auto
qed

text \<open>The table of one client, and the file that leads to the same table.\<close>

lemma ex_table_ok: "table_ok (\<lambda>i. i + 10) [(1, 2)] [ex_client_ip] ex_tab"
  using ex_tab_ready
  by (simp add: table_ok_def tab_ready_def ex_tab_def new_from_def inj_on_def ex_client_ip_def client_entry_def)

lemma sample_ok: "file_ok sample_file ex_env" "loaded sample_file ex_env = [ex_client_ip]"
proof -
  have "file_entries sample_file = [ip_entry ([0x31], [0x61])]"
    by (rule sample_entries)
  then show "loaded sample_file ex_env = [ex_client_ip]" "file_ok sample_file ex_env"
    by (simp_all add: loaded_def ex_client_ip_def file_ok_def sample_chunks safe_line_def ex_env_def env_ok_def)
      (simp add: sample_file_def)
qed

subsection \<open>Properties\<close>



end
