(* ===== verification/Picocoap.thy ===== *)
theory Picocoap
  imports Gateway_Prelude
begin

section \<open>The CoAP library of the client: coapClient/picocoap.c\<close>

text \<open>
  A message is kept in place in one buffer.  The record \<open>coap_pdu\<close> holds the array \<open>buf\<close> points to,
  the length of the message in it and the size the caller states for it.  Pointers into the
  buffer are offsets; \<open>None\<close> is NULL where a pointer is a value.  A read or write outside the array
  is \<open>None\<close>.  \<open>size_t\<close> arithmetic that can wrap is written with \<open>sz\<close> and \<open>szsub\<close>.
\<close>

datatype coap_error =
    CE_NONE
  | CE_INVALID_PACKET
  | CE_BAD_VERSION
  | CE_TOKEN_LENGTH_OUT_OF_RANGE
  | CE_UNKNOWN_CODE
  | CE_TOO_MANY_OPTIONS
  | CE_OUT_OF_ORDER_OPTIONS_LIST
  | CE_INSUFFICIENT_BUFFER
  | CE_FOUND_PAYLOAD_MARKER
  | CE_END_OF_PACKET

record coap_pdu =
  pdu_buf :: "u8 list"
  pdu_len :: nat
  pdu_max :: nat

record coap_option =
  co_num :: u16
  co_len :: nat
  co_val :: "nat option"

record coap_payload =
  pl_len :: nat
  pl_val :: "nat option"

definition COAP_V1 :: u8 where
  "COAP_V1 = 1"

definition CT_CON :: u8 where
  "CT_CON = 0"

definition CT_RST :: u8 where
  "CT_RST = 3"

definition CC_EMPTY :: u8 where
  "CC_EMPTY = 0"

definition CC_GET :: u8 where
  "CC_GET = 1"

definition CON_URI_PATH :: int where
  "CON_URI_PATH = 11"

subsection \<open>Header fields\<close>

definition coap_get_version :: "coap_pdu \<Rightarrow> u8 option" where
  "coap_get_version pdu = do { b \<leftarrow> rd (pdu_buf pdu) 0; Some (drop_bit 6 b) }"

definition coap_get_type :: "coap_pdu \<Rightarrow> u8 option" where
  "coap_get_type pdu = do { b \<leftarrow> rd (pdu_buf pdu) 0; Some (drop_bit 4 b AND 0x03) }"

definition coap_get_tkl :: "coap_pdu \<Rightarrow> u8 option" where
  "coap_get_tkl pdu = do { b \<leftarrow> rd (pdu_buf pdu) 0; Some (b AND 0x0F) }"

definition coap_get_code :: "coap_pdu \<Rightarrow> u8 option" where
  "coap_get_code pdu = rd (pdu_buf pdu) 1"

definition coap_get_code_class :: "coap_pdu \<Rightarrow> u8 option" where
  "coap_get_code_class pdu = do { c \<leftarrow> coap_get_code pdu; Some (drop_bit 5 c) }"

definition coap_get_code_detail :: "coap_pdu \<Rightarrow> u8 option" where
  "coap_get_code_detail pdu = do { c \<leftarrow> coap_get_code pdu; Some (c AND 0x1F) }"

definition coap_get_mid :: "coap_pdu \<Rightarrow> u16 option" where
  "coap_get_mid pdu =
     do {
       x \<leftarrow> rd (pdu_buf pdu) 2;
       y \<leftarrow> rd (pdu_buf pdu) 3;
       Some (push_bit 8 (ucast x) OR ucast y)
     }"

definition coap_build_code :: "u8 \<Rightarrow> u8 \<Rightarrow> u8" where
  "coap_build_code clas detail = push_bit 5 clas OR detail"

text \<open>
  A token is a \<open>uint64_t\<close> copied byte by byte in memory order, least significant byte first.
\<close>

fun le_word :: "u8 list \<Rightarrow> u64" where
  "le_word [] = 0"
| "le_word (b # bs) = ucast b OR push_bit 8 (le_word bs)"

fun le_bytes :: "nat \<Rightarrow> u64 \<Rightarrow> u8 list" where
  "le_bytes 0 w = []"
| "le_bytes (Suc n) w = ucast w # le_bytes n (drop_bit 8 w)"

text \<open>\<open>memcpy\<close> into the 8-byte variable is undefined for a length field above 8.\<close>

definition coap_get_token :: "coap_pdu \<Rightarrow> u64 option" where
  "coap_get_token pdu =
     do {
       tkl \<leftarrow> coap_get_tkl pdu;
       if pdu_len pdu < 4 + unat tkl then Some 0
       else if unat tkl > 8 then None
       else do { bs \<leftarrow> rdn (pdu_buf pdu) 4 (unat tkl); Some (le_word bs) }
     }"

subsection \<open>Decoding\<close>

text \<open>
  \<open>Inl\<close> is an error code other than \<open>CE_NONE\<close>, after which the out-parameters are as before;
  \<open>Inr\<close> is \<open>CE_NONE\<close> with the new option number, the length and the value's position.  The
  extended fields are read without a look at \<open>pkt_len\<close>.
\<close>

definition decode_ext :: "u8 list \<Rightarrow> nat \<Rightarrow> u16 \<Rightarrow> (coap_error + u16 \<times> nat) option" where
  "decode_ext b ptr v =
     (if v < 13 then Some (Inr (v, ptr))
      else if v = 13 then do { x \<leftarrow> rd b ptr; Some (Inr (ucast x + 13, ptr + 1)) }
      else if v = 14 then do {
        x \<leftarrow> rd b ptr;
        y \<leftarrow> rd b (ptr + 1);
        Some (Inr (push_bit 8 (ucast x) + ucast y + 269, ptr + 2))
      }
      else Some (Inl CE_INVALID_PACKET))"

definition coap_decode_option ::
  "u8 list \<Rightarrow> nat \<Rightarrow> nat \<Rightarrow> u16 \<Rightarrow> (coap_error + u16 \<times> nat \<times> nat) option" where
  "coap_decode_option b pkt_ptr pkt_len option_number =
     (if pkt_len = 0 then Some (Inl CE_END_OF_PACKET)
      else
        (case rd b pkt_ptr of
           None \<Rightarrow> None
         | Some x \<Rightarrow>
             if x = 0xFF then Some (Inl CE_FOUND_PAYLOAD_MARKER)
             else
               (case decode_ext b (pkt_ptr + 1) (ucast (drop_bit 4 x)) of
                  None \<Rightarrow> None
                | Some (Inl e) \<Rightarrow> Some (Inl e)
                | Some (Inr (delta, ptr)) \<Rightarrow>
                    (case decode_ext b ptr (ucast (x AND 0x0F)) of
                       None \<Rightarrow> None
                     | Some (Inl e) \<Rightarrow> Some (Inl e)
                     | Some (Inr (len, ptr')) \<Rightarrow>
                         Some (Inr (option_number + delta, unat len, ptr'))))))"

lemma decode_ext_advances: "decode_ext b p v = Some (Inr (x, p')) \<Longrightarrow> p \<le> p'"
  by (auto simp: decode_ext_def split: if_splits bind_splits)

lemma coap_decode_option_advances:
  "coap_decode_option b p k n = Some (Inr (n', l, v)) \<Longrightarrow> p < length b \<and> p < v"
  by (auto simp: coap_decode_option_def rd_def split: if_splits option.splits sum.splits prod.splits
      dest!: decode_ext_advances)

text \<open>
  The loop of \<open>coap_validate_pkt\<close> leaves at the first call in every case: its condition ends it when
  the call returns \<open>CE_NONE\<close>, and each other code breaks or returns.  In the payload-marker branch
  \<open>ov\<close> and \<open>ol\<close> still have their initial values.
\<close>

definition coap_validate_pkt :: "coap_pdu \<Rightarrow> coap_error option" where
  "coap_validate_pkt pdu =
     (if pdu_len pdu > pdu_max pdu then Some CE_INVALID_PACKET
      else if pdu_len pdu < 4 then Some CE_INVALID_PACKET
      else do {
        ver \<leftarrow> coap_get_version pdu;
        if ver \<noteq> 1 then Some CE_INVALID_PACKET
        else do {
          tkl \<leftarrow> coap_get_tkl pdu;
          if tkl > 8 then Some CE_INVALID_PACKET
          else do {
            let ov = 4 + unat tkl;
            r \<leftarrow> coap_decode_option (pdu_buf pdu) ov (szsub (pdu_len pdu) ov) 0;
            (case r of
               Inr x \<Rightarrow> Some CE_NONE
             | Inl err \<Rightarrow>
                 if err = CE_END_OF_PACKET then Some CE_NONE
                 else if err = CE_FOUND_PAYLOAD_MARKER then
                   (if pdu_len pdu = ov then Some CE_INVALID_PACKET else Some CE_NONE)
                 else Some err)
          }
        }
      })"

text \<open>
  \<open>prev\<close> is the parameter \<open>last\<close>, \<open>None\<close> for NULL.  Arithmetic on a NULL value pointer has no meaning and is
  \<open>None\<close>; this happens at the payload marker behind an option.  The last statement of the function adds
  the length to the value pointer once more and drops the result; on the error path that is NULL + 0,
  which is taken for NULL here, as every compiler does.
\<close>

definition coap_get_option :: "coap_pdu \<Rightarrow> coap_option option \<Rightarrow> coap_option option" where
  "coap_get_option pdu prev =
     do {
       tkl \<leftarrow> coap_get_tkl pdu;
       let first = 4 + unat tkl;
       (num, opt_ptr) \<leftarrow>
         (case prev of
            None \<Rightarrow> Some (0, first)
          | Some l \<Rightarrow>
              if co_num l \<noteq> 0 then do { v \<leftarrow> co_val l; Some (co_num l, v + co_len l) }
              else Some (0, first));
       let opt_ptr = (if opt_ptr > pdu_len pdu \<or> opt_ptr = 0 then first else opt_ptr);
       r \<leftarrow> coap_decode_option (pdu_buf pdu) opt_ptr (szsub (pdu_len pdu) opt_ptr) num;
       (case r of
          Inr (num', len, val) \<Rightarrow> Some \<lparr>co_num = num', co_len = len, co_val = Some val\<rparr>
        | Inl err \<Rightarrow>
            if err = CE_FOUND_PAYLOAD_MARKER then
              (if num = 0 then
                 Some \<lparr>co_num = 0, co_len = szsub (szsub (pdu_len pdu) opt_ptr) 1,
                       co_val = Some (opt_ptr + 1)\<rparr>
               else None)
            else Some \<lparr>co_num = 0, co_len = 0, co_val = None\<rparr>)
     }"

text \<open>
  The options of a damaged packet may send the search back to the first option, so that no measure
  shows at once that it ends: the loop is a partial function, \<open>None\<close> if it never ends (or if a
  step is undefined).
\<close>

partial_function (option) option_by_num_loop ::
  "coap_pdu \<Rightarrow> u16 \<Rightarrow> u8 \<Rightarrow> u8 \<Rightarrow> coap_option \<Rightarrow> coap_option option" where
  "option_by_num_loop pdu num occ i option =
     Option.bind (coap_get_option pdu (Some option)) (\<lambda>option'.
       if co_num option' = num then
         (if i + 1 \<le> occ then option_by_num_loop pdu num occ (i + 1) option' else Some option')
       else if co_num option' > num then Some \<lparr>co_num = 0, co_len = 0, co_val = None\<rparr>
       else if co_num option' = 0 then Some option'
       else if i \<le> occ then option_by_num_loop pdu num occ i option'
       else Some option')"

definition coap_get_option_by_num :: "coap_pdu \<Rightarrow> u16 \<Rightarrow> u8 \<Rightarrow> coap_option option" where
  "coap_get_option_by_num pdu num occ =
     option_by_num_loop pdu num occ 0 \<lparr>co_num = 0, co_len = 0, co_val = None\<rparr>"

text \<open>The loop of \<open>coap_get_payload\<close>: the code it leaves with and the offset.\<close>

function payload_seek :: "u8 list \<Rightarrow> nat \<Rightarrow> nat \<Rightarrow> (coap_error \<times> nat) option" where
  "payload_seek b len offset =
     (case coap_decode_option b offset (szsub len offset) 0 of
        None \<Rightarrow> None
      | Some (Inl err) \<Rightarrow> Some (err, offset)
      | Some (Inr (n, l, v)) \<Rightarrow> payload_seek b len (v + l))"
  by pat_completeness auto
termination
  by (relation "measure (\<lambda>(b, len, offset). length b - offset)")
    (auto dest!: coap_decode_option_advances)

declare payload_seek.simps [simp del]

definition coap_get_payload :: "coap_pdu \<Rightarrow> coap_payload option" where
  "coap_get_payload pdu =
     do {
       tkl \<leftarrow> coap_get_tkl pdu;
       (err, offset) \<leftarrow> payload_seek (pdu_buf pdu) (pdu_len pdu) (4 + unat tkl);
       if err = CE_FOUND_PAYLOAD_MARKER then
         Some \<lparr>pl_len = szsub (szsub (pdu_len pdu) offset) 1, pl_val = Some (offset + 1)\<rparr>
       else Some \<lparr>pl_len = 0, pl_val = None\<rparr>
     }"

subsection \<open>Setting header fields\<close>

definition coap_set_version :: "coap_pdu \<Rightarrow> u8 \<Rightarrow> (coap_error \<times> coap_pdu) option" where
  "coap_set_version pdu ver =
     (if pdu_max pdu < 1 then Some (CE_INSUFFICIENT_BUFFER, pdu)
      else do {
        x \<leftarrow> rd (pdu_buf pdu) 0;
        b \<leftarrow> wr (pdu_buf pdu) 0 (push_bit 6 ver OR (x AND 0x3F));
        Some (CE_NONE, pdu\<lparr>pdu_buf := b, pdu_len := (if pdu_len pdu < 1 then 1 else pdu_len pdu)\<rparr>)
      })"

definition coap_set_type :: "coap_pdu \<Rightarrow> u8 \<Rightarrow> (coap_error \<times> coap_pdu) option" where
  "coap_set_type pdu mtype =
     (if pdu_max pdu < 1 then Some (CE_INSUFFICIENT_BUFFER, pdu)
      else do {
        x \<leftarrow> rd (pdu_buf pdu) 0;
        b \<leftarrow> wr (pdu_buf pdu) 0 (push_bit 4 mtype OR (x AND 0xCF));
        Some (CE_NONE, pdu\<lparr>pdu_buf := b, pdu_len := (if pdu_len pdu < 1 then 1 else pdu_len pdu)\<rparr>)
      })"

definition coap_set_code :: "coap_pdu \<Rightarrow> u8 \<Rightarrow> (coap_error \<times> coap_pdu) option" where
  "coap_set_code pdu code =
     (if pdu_max pdu < 2 then Some (CE_INSUFFICIENT_BUFFER, pdu)
      else do {
        b \<leftarrow> wr (pdu_buf pdu) 1 code;
        Some (CE_NONE, pdu\<lparr>pdu_buf := b, pdu_len := (if pdu_len pdu < 2 then 2 else pdu_len pdu)\<rparr>)
      })"

definition coap_set_mid :: "coap_pdu \<Rightarrow> u16 \<Rightarrow> (coap_error \<times> coap_pdu) option" where
  "coap_set_mid pdu mid =
     (if pdu_max pdu < 4 then Some (CE_INSUFFICIENT_BUFFER, pdu)
      else do {
        b1 \<leftarrow> wr (pdu_buf pdu) 2 (ucast (drop_bit 8 mid));
        b2 \<leftarrow> wr b1 3 (ucast (mid AND 0xFF));
        Some (CE_NONE, pdu\<lparr>pdu_buf := b2, pdu_len := (if pdu_len pdu < 4 then 4 else pdu_len pdu)\<rparr>)
      })"

definition memmove :: "u8 list \<Rightarrow> nat \<Rightarrow> nat \<Rightarrow> nat \<Rightarrow> u8 list option" where
  "memmove b dst src n = do { v \<leftarrow> rdn b src n; wrn b dst v }"

definition coap_set_token :: "coap_pdu \<Rightarrow> u64 \<Rightarrow> u8 \<Rightarrow> (coap_error \<times> coap_pdu) option" where
  "coap_set_token pdu token tkl =
     (if pdu_max pdu < 4 + unat tkl then Some (CE_INSUFFICIENT_BUFFER, pdu)
      else if tkl > 8 then Some (CE_INVALID_PACKET, pdu)
      else do {
        old \<leftarrow> coap_get_tkl pdu;
        let newlen = szsub (pdu_len pdu + unat tkl) (unat old);
        if pdu_len pdu > 4 \<and> pdu_max pdu < newlen then Some (CE_INSUFFICIENT_BUFFER, pdu)
        else do {
          b1 \<leftarrow> (if pdu_len pdu > 4 then
                  memmove (pdu_buf pdu) (4 + unat tkl) (4 + unat old)
                    (szsub (pdu_len pdu) (4 + unat old))
                else Some (pdu_buf pdu));
          b2 \<leftarrow> wrn b1 4 (le_bytes (unat tkl) token);
          x \<leftarrow> rd b2 0;
          b3 \<leftarrow> wr b2 0 ((tkl AND 0x0F) OR (x AND 0xF0));
          Some (CE_NONE, pdu\<lparr>pdu_buf := b3, pdu_len := newlen\<rparr>)
        }
      })"

text \<open>The results of the five setters are not looked at.\<close>

definition coap_init_pdu :: "coap_pdu \<Rightarrow> (coap_error \<times> coap_pdu) option" where
  "coap_init_pdu pdu =
     (if pdu_max pdu < 4 then Some (CE_INSUFFICIENT_BUFFER, pdu)
      else do {
        b \<leftarrow> wrn (pdu_buf pdu) 0 (replicate 4 0);
        (_, p1) \<leftarrow> coap_set_version (pdu\<lparr>pdu_len := 0, pdu_buf := b\<rparr>) COAP_V1;
        (_, p2) \<leftarrow> coap_set_type p1 CT_RST;
        (_, p3) \<leftarrow> coap_set_token p2 0 0;
        (_, p4) \<leftarrow> coap_set_code p3 CC_EMPTY;
        (_, p5) \<leftarrow> coap_set_mid p4 0;
        Some (CE_NONE, p5)
      })"

subsection \<open>Option headers\<close>

definition coap_compute_option_header_len :: "int \<Rightarrow> int \<Rightarrow> nat" where
  "coap_compute_option_header_len opt_delta opt_len =
     1 + (if opt_delta < 13 then 0 else if opt_delta < 269 then 1 else 2)
       + (if opt_len < 13 then 0 else if opt_len < 269 then 1 else 2)"

text \<open>
  One extended field: the base value and the buffer after it, or \<open>None\<close> inside when \<open>max_len\<close> is
  exceeded.  \<open>p\<close> is \<open>ptr\<close>, \<open>start\<close> is \<open>buf\<close>.
\<close>

definition build_ext ::
  "u8 list \<Rightarrow> nat \<Rightarrow> nat \<Rightarrow> nat \<Rightarrow> int \<Rightarrow> (u8 \<times> u8 list \<times> nat) option option" where
  "build_ext b start max_len p v =
     (if v < 13 then Some (Some (word_of_int v, b, p))
      else if v < 269 then
        (if max_len < p - start + 1 then Some None
         else do { b1 \<leftarrow> wr b p (word_of_int (v - 13)); Some (Some (13, b1, p + 1)) })
      else
        (if max_len < p - start + 2 then Some None
         else do {
           b1 \<leftarrow> wr b p (word_of_int ((v - 269) div 256));
           b2 \<leftarrow> wr b1 (p + 1) (word_of_int ((v - 269) mod 256));
           Some (Some (14, b2, p + 2))
         }))"

text \<open>
  Returns the header length, or 7, the number of \<open>CE_INSUFFICIENT_BUFFER\<close>, and the buffer.
\<close>

definition coap_build_option_header ::
  "u8 list \<Rightarrow> nat \<Rightarrow> nat \<Rightarrow> int \<Rightarrow> int \<Rightarrow> (nat \<times> u8 list) option" where
  "coap_build_option_header b start max_len opt_delta opt_len =
     (if max_len < 1 then Some (7, b)
      else do {
        r1 \<leftarrow> build_ext b start max_len (start + 1) opt_delta;
        (case r1 of
           None \<Rightarrow> Some (7, b)
         | Some (base_num, b1, p1) \<Rightarrow>
             do {
               r2 \<leftarrow> build_ext b1 start max_len p1 opt_len;
               (case r2 of
                  None \<Rightarrow> Some (7, b1)
                | Some (base_len, b2, p2) \<Rightarrow>
                    do {
                      b3 \<leftarrow> wr b2 start (push_bit 4 base_num OR base_len);
                      Some (p2 - start, b3)
                    })
             })
      })"

subsection \<open>Options and payload\<close>

text \<open>
  The loop of \<open>coap_adjust_option_deltas\<close>; \<open>start\<close> is \<open>opts_start\<close>, \<open>ptr\<close> is \<open>fopt_val + fopt_len\<close> of the
  round before and \<open>num\<close> is \<open>fopt_num\<close>, which is never reset.
\<close>

lemma coap_build_option_header_length:
  "coap_build_option_header b s k d l = Some (r, b') \<Longrightarrow> length b' = length b"
  by (auto simp: coap_build_option_header_def build_ext_def c_array
      split: if_splits option.splits bind_splits)

lemma memmove_length: "memmove b d s n = Some b' \<Longrightarrow> length b' = length b"
  by (auto simp: memmove_def split: bind_splits dest: length_wrn)

function adjust_loop ::
  "nat \<Rightarrow> nat \<Rightarrow> int \<Rightarrow> u8 list \<Rightarrow> nat \<Rightarrow> nat \<Rightarrow> u16 \<Rightarrow> (coap_error \<times> u8 list \<times> nat) option" where
  "adjust_loop start max_len offset b opts_len ptr num =
     (if ptr - start > opts_len then Some (CE_NONE, b, opts_len)
      else
        (case coap_decode_option b ptr (szsub opts_len (ptr - start)) num of
           None \<Rightarrow> None
         | Some (Inl err) \<Rightarrow>
             if err = CE_FOUND_PAYLOAD_MARKER \<or> err = CE_END_OF_PACKET
             then Some (CE_NONE, b, opts_len) else Some (err, b, opts_len)
         | Some (Inr (fopt_num, fopt_len, fopt_val)) \<Rightarrow>
             let nopt_num = fopt_num + word_of_int offset;
                 fhdr_len = fopt_val - ptr;
                 nhdr_len = coap_compute_option_header_len (uint nopt_num) (int fopt_len);
                 opts_len' = szsub (opts_len + nhdr_len) fhdr_len
             in if fhdr_len \<noteq> nhdr_len \<and> max_len < opts_len'
                then Some (CE_INSUFFICIENT_BUFFER, b, opts_len)
                else
                  (case (if fhdr_len \<noteq> nhdr_len
                         then memmove b (fopt_val + nhdr_len - fhdr_len) fopt_val fopt_len
                         else Some b) of
                     None \<Rightarrow> None
                   | Some b1 \<Rightarrow>
                       (case coap_build_option_header b1 ptr nhdr_len (uint nopt_num) (int fopt_len) of
                          None \<Rightarrow> None
                        | Some (r, b2) \<Rightarrow>
                            adjust_loop start max_len offset b2
                              (if fhdr_len \<noteq> nhdr_len then opts_len' else opts_len)
                              (fopt_val + fopt_len) fopt_num))))"
  by pat_completeness auto
termination
  by (relation "measure (\<lambda>(start, max_len, offset, b, opts_len, ptr, num). length b - ptr)")
    (auto dest!: coap_decode_option_advances coap_build_option_header_length memmove_length
      split: if_splits)

declare adjust_loop.simps [simp del]

definition coap_adjust_option_deltas ::
  "u8 list \<Rightarrow> nat \<Rightarrow> nat \<Rightarrow> nat \<Rightarrow> int \<Rightarrow> (coap_error \<times> u8 list \<times> nat) option" where
  "coap_adjust_option_deltas b opts_start opts_len max_len offset =
     adjust_loop opts_start max_len offset b opts_len opts_start 0"

text \<open>
  The loop of \<open>coap_add_option\<close> that finds the insertion point: the code it leaves with,
  \<open>pkt_ptr\<close> and \<open>lopt_num\<close>.
\<close>

function add_option_seek ::
  "u8 list \<Rightarrow> nat \<Rightarrow> int \<Rightarrow> nat \<Rightarrow> u16 \<Rightarrow> (coap_error \<times> nat \<times> u16) option" where
  "add_option_seek b len opt_num ptr num =
     (case coap_decode_option b ptr (szsub len ptr) num of
        None \<Rightarrow> None
      | Some (Inl err) \<Rightarrow> Some (err, ptr, num)
      | Some (Inr (fopt_num, fopt_len, fopt_val)) \<Rightarrow>
          if uint fopt_num \<le> opt_num \<and> ptr + fopt_len < len
          then add_option_seek b len opt_num (fopt_val + fopt_len) fopt_num
          else Some (CE_NONE, ptr, num))"
  by pat_completeness auto
termination
  by (relation "measure (\<lambda>(b, len, opt_num, ptr, num). length b - ptr)")
    (auto dest!: coap_decode_option_advances)

declare add_option_seek.simps [simp del]

text \<open>
  \<open>value\<close> is an array of the caller, apart from the buffer.  The branch for an insertion in front of
  other options or of a payload slides the tail and adjusts the deltas behind it, whatever
  \<open>coap_adjust_option_deltas\<close> returns.
\<close>

definition coap_add_option ::
  "coap_pdu \<Rightarrow> int \<Rightarrow> u8 list \<Rightarrow> u16 \<Rightarrow> (coap_error \<times> coap_pdu) option" where
  "coap_add_option pdu opt_num value opt_len =
     do {
       tkl \<leftarrow> coap_get_tkl pdu;
       let len = pdu_len pdu;
       let ol = unat opt_len;
       (err, ptr, lopt_num) \<leftarrow> add_option_seek (pdu_buf pdu) len opt_num (4 + unat tkl) 0;
       if err \<noteq> CE_FOUND_PAYLOAD_MARKER \<and> err \<noteq> CE_END_OF_PACKET \<and> err \<noteq> CE_NONE then Some (err, pdu)
       else do {
         let delta = opt_num - uint lopt_num;
         let nh = coap_compute_option_header_len delta (int ol);
         if pdu_max pdu < sz (len + nh + ol) then Some (CE_INSUFFICIENT_BUFFER, pdu)
         else do {
           (b1, len1) \<leftarrow>
             (if len \<noteq> ptr then do {
                b \<leftarrow> memmove (pdu_buf pdu) (ptr + nh + ol) ptr (szsub len ptr);
                let l1 = sz (len + nh + ol);
                let opts_len = szsub l1 ptr;
                (_, b', opts_len') \<leftarrow>
                  coap_adjust_option_deltas b (ptr + nh + ol) opts_len (szsub (pdu_max pdu) ptr)
                    (uint lopt_num - opt_num);
                Some (b', szsub (l1 + opts_len') (szsub l1 ptr))
              }
              else Some (pdu_buf pdu, sz (len + nh + ol)));
           (_, b2) \<leftarrow> coap_build_option_header b1 ptr nh delta (int ol);
           v \<leftarrow> rdn value 0 ol;
           b3 \<leftarrow> wrn b2 (ptr + nh) v;
           Some (CE_NONE, pdu\<lparr>pdu_buf := b3, pdu_len := len1\<rparr>)
         }
       }
     }"

function set_payload_seek ::
  "u8 list \<Rightarrow> nat \<Rightarrow> nat \<Rightarrow> u16 \<Rightarrow> (coap_error \<times> nat) option" where
  "set_payload_seek b len ptr num =
     (case coap_decode_option b ptr (szsub len ptr) num of
        None \<Rightarrow> None
      | Some (Inl err) \<Rightarrow> Some (err, ptr)
      | Some (Inr (fopt_num, fopt_len, fopt_val)) \<Rightarrow>
          if ptr + fopt_len < len then set_payload_seek b len (fopt_val + fopt_len) fopt_num
          else Some (CE_NONE, ptr))"
  by pat_completeness auto
termination
  by (relation "measure (\<lambda>(b, len, ptr, num). length b - ptr)")
    (auto dest!: coap_decode_option_advances)

declare set_payload_seek.simps [simp del]

definition coap_set_payload ::
  "coap_pdu \<Rightarrow> u8 list \<Rightarrow> nat \<Rightarrow> (coap_error \<times> coap_pdu) option" where
  "coap_set_payload pdu payload payload_len =
     do {
       tkl \<leftarrow> coap_get_tkl pdu;
       (err, ptr) \<leftarrow> set_payload_seek (pdu_buf pdu) (pdu_len pdu) (4 + unat tkl) 0;
       if err \<noteq> CE_FOUND_PAYLOAD_MARKER \<and> err \<noteq> CE_END_OF_PACKET \<and> err \<noteq> CE_NONE then Some (err, pdu)
       else if err = CE_END_OF_PACKET \<and> pdu_max pdu < sz (pdu_len pdu + payload_len + 1) then
         Some (CE_INSUFFICIENT_BUFFER, pdu)
       else if err = CE_FOUND_PAYLOAD_MARKER \<and> pdu_max pdu < sz (pdu_len pdu + payload_len) then
         Some (CE_INSUFFICIENT_BUFFER, pdu)
       else do {
         (b1, p1) \<leftarrow>
           (if err = CE_END_OF_PACKET then do { b \<leftarrow> wr (pdu_buf pdu) ptr 0xFF; Some (b, ptr + 1) }
            else Some (pdu_buf pdu, ptr));
         v \<leftarrow> rdn payload 0 payload_len;
         b2 \<leftarrow> wrn b1 p1 v;
         Some (CE_NONE, pdu\<lparr>pdu_buf := b2, pdu_len := sz (p1 + payload_len)\<rparr>)
       }
     }"

end
