(* ===== verification/Coap_Msg.thy ===== *)
theory Coap_Msg
  imports Gateway_Prelude
begin

section \<open>CoAP messages: the wire format both CoAP libraries implement\<close>

text \<open>
  The gateway carries two CoAP libraries: coapServer/microcoap.c parses requests and builds
  responses, coapClient/picocoap.c builds requests in place.  Both promise the format of RFC 7252,
  section 3.  This theory states that format once, as a message and its encoding; the theories of
  the two libraries show that their code reads and writes exactly this encoding.
\<close>

record coap_msg =
  m_type :: nat
  m_code :: u8
  m_id0 :: u8
  m_id1 :: u8
  m_tok :: "u8 list"
  m_opts :: "(nat \<times> u8 list) list"
  m_pay :: "u8 list"

definition opt_nib :: "nat \<Rightarrow> nat" where
  "opt_nib n = (if n < 13 then n else if n < 269 then 13 else 14)"

definition opt_ext :: "nat \<Rightarrow> u8 list" where
  "opt_ext n =
     (if n < 13 then []
      else if n < 269 then [word_of_nat (n - 13)]
      else [word_of_nat ((n - 269) div 256), word_of_nat ((n - 269) mod 256)])"

text \<open>The first byte of an option and the first byte of a message.\<close>

definition opt_first :: "nat \<Rightarrow> nat \<Rightarrow> u8" where
  "opt_first delta len = word_of_nat (opt_nib delta * 16 + opt_nib len)"

definition msg_first :: "nat \<Rightarrow> nat \<Rightarrow> u8" where
  "msg_first type tkl = word_of_nat (64 + type * 16 + tkl)"

definition enc_opt_hdr :: "nat \<Rightarrow> nat \<Rightarrow> u8 list" where
  "enc_opt_hdr delta len = opt_first delta len # opt_ext delta @ opt_ext len"

fun enc_opts :: "nat \<Rightarrow> (nat \<times> u8 list) list \<Rightarrow> u8 list" where
  "enc_opts prev [] = []"
| "enc_opts prev ((n, v) # os) = enc_opt_hdr (n - prev) (length v) @ v @ enc_opts n os"

definition enc_pay :: "u8 list \<Rightarrow> u8 list" where
  "enc_pay pl = (if pl = [] then [] else 0xFF # pl)"

definition enc_msg :: "coap_msg \<Rightarrow> u8 list" where
  "enc_msg msg =
     [msg_first (m_type msg) (length (m_tok msg)), m_code msg, m_id0 msg, m_id1 msg]
     @ m_tok msg @ enc_opts 0 (m_opts msg) @ enc_pay (m_pay msg)"

text \<open>Option numbers never decrease, and numbers and lengths fit in 16 bits.\<close>

fun wf_opts :: "nat \<Rightarrow> (nat \<times> u8 list) list \<Rightarrow> bool" where
  "wf_opts prev [] = True"
| "wf_opts prev ((n, v) # os) =
     (prev \<le> n \<and> n < 65536 \<and> length v < 65536 \<and> wf_opts n os)"

definition wf_msg :: "coap_msg \<Rightarrow> bool" where
  "wf_msg msg \<longleftrightarrow> m_type msg < 4 \<and> length (m_tok msg) \<le> 8 \<and> wf_opts 0 (m_opts msg)"

fun last_num :: "nat \<Rightarrow> (nat \<times> u8 list) list \<Rightarrow> nat" where
  "last_num prev [] = prev"
| "last_num prev ((n, v) # os) = last_num n os"

named_theorems coap_enc \<open>the wire format, unfolded\<close>

lemma opt_nib_less: "opt_nib n < 15"
  by (simp add: opt_nib_def)

lemma opt_nib_le: "opt_nib n \<le> 14"
  using opt_nib_less [of n] by simp

lemma length_opt_ext: "length (opt_ext n) = (if n < 13 then 0 else if n < 269 then 1 else 2)"
  by (simp add: opt_ext_def)

lemma length_enc_opt_hdr:
  "length (enc_opt_hdr delta len) = 1 + length (opt_ext delta) + length (opt_ext len)"
  by (simp add: enc_opt_hdr_def)

lemma length_enc_opt_hdr_le: "length (enc_opt_hdr delta len) \<le> 5"
  by (simp add: length_enc_opt_hdr length_opt_ext)

lemma enc_opts_append [coap_enc]:
  "enc_opts prev (os @ ps) = enc_opts prev os @ enc_opts (last_num prev os) ps"
  by (induction prev os rule: enc_opts.induct) auto

lemma wf_opts_append:
  "wf_opts prev (os @ ps) \<longleftrightarrow> wf_opts prev os \<and> wf_opts (last_num prev os) ps"
  by (induction prev os rule: wf_opts.induct) auto

lemma last_num_ge: "wf_opts prev os \<Longrightarrow> prev \<le> last_num prev os"
  by (induction prev os rule: wf_opts.induct) auto

lemma last_num_append [simp]: "last_num prev (os @ [(n, v)]) = n"
  by (induction prev os rule: last_num.induct) auto

text \<open>The first byte of an option is never the payload marker, and both nibbles can be read back.\<close>

lemma unat_opt_first: "unat (opt_first delta len) = opt_nib delta * 16 + opt_nib len"
  unfolding opt_first_def
  using opt_nib_le [of delta] opt_nib_le [of len] by (intro unat_of_nat_u8) linarith

lemma opt_first_not_marker [simp]: "opt_first delta len \<noteq> 0xFF"
proof
  assume "opt_first delta len = 0xFF"
  then have "opt_nib delta * 16 + opt_nib len = 255"
    using unat_opt_first [of delta len] by simp
  with opt_nib_le [of delta] opt_nib_le [of len] show False by linarith
qed

lemma opt_first_delta: "drop_bit 4 (opt_first delta len AND 0xF0) = word_of_nat (opt_nib delta)"
  using opt_nib_less [of delta] opt_nib_less [of len]
  by (simp only: word_unat_eq_iff u8_hi_nibble unat_opt_first unat_of_nat_u8)

lemma opt_first_len: "opt_first delta len AND 0x0F = word_of_nat (opt_nib len)"
  using opt_nib_less [of len]
  by (simp add: word_unat_eq_iff u8_and_0F unat_opt_first unat_of_nat_u8 del: unat_of_nat)

lemma unat_msg_first: "type < 4 \<Longrightarrow> tkl < 16 \<Longrightarrow> unat (msg_first type tkl) = 64 + type * 16 + tkl"
  unfolding msg_first_def by (intro unat_of_nat_u8) linarith

lemma msg_first_ver: "type < 4 \<Longrightarrow> tkl < 16 \<Longrightarrow> drop_bit 6 (msg_first type tkl AND 0xC0) = 1"
  by (simp only: word_unat_eq_iff u8_top_two unat_msg_first) simp

lemma msg_first_version: "type < 4 \<Longrightarrow> tkl < 16 \<Longrightarrow> drop_bit 6 (msg_first type tkl) = 1"
proof -
  assume t: "type < 4" "tkl < 16"
  then have "(64 + type * 16 + tkl) div 64 = 1" by (intro div_nat_eqI) auto
  with t show ?thesis by (simp add: word_unat_eq_iff unat_drop unat_msg_first)
qed

lemma msg_first_type:
  assumes "type < 4" and "tkl < 16"
  shows "drop_bit 4 (msg_first type tkl AND 0x30) = word_of_nat type"
proof -
  have "64 + type * 16 + tkl = tkl + (4 + type) * 16" by simp
  then have "(64 + type * 16 + tkl) div 16 = 4 + type"
    using assms(2) by (simp only: div_mult_self1)
  then have "(64 + type * 16 + tkl) div 16 mod 4 = type"
    using assms(1) by simp
  then show ?thesis
    using assms by (simp only: word_unat_eq_iff u8_mid_two unat_msg_first unat_of_nat_u8)
qed

lemma msg_first_tkl: "type < 4 \<Longrightarrow> tkl < 16 \<Longrightarrow> msg_first type tkl AND 0x0F = word_of_nat tkl"
  by (simp only: word_unat_eq_iff u8_and_0F unat_msg_first unat_of_nat_u8) presburger

lemma enc_opts_not_marker:
  "os \<noteq> [] \<Longrightarrow> \<exists>b rest. enc_opts prev os = b # rest \<and> b \<noteq> 0xFF"
  by (cases os) (auto simp: enc_opt_hdr_def)

end
