(* ===== verification/Picocoap_Decode.thy ===== *)
theory Picocoap_Decode
  imports Picocoap Coap_Msg
begin

section \<open>Reading messages with the client's CoAP library\<close>

text \<open>
  \<open>pdu_rep pdu msg\<close>: the buffer of \<open>pdu\<close> holds the encoding of \<open>msg\<close>.  On such a buffer the header
  getters return the fields of the message, \<open>coap_get_payload\<close> finds its payload and
  \<open>coap_get_option_by_num\<close> the wanted occurrence of an option, with the exact condition under which
  the latter is undefined.  The three loops that walk over the options are shown to agree with the
  format once, in the locale \<open>option_walk\<close>.
\<close>

definition pdu_rep :: "coap_pdu \<Rightarrow> coap_msg \<Rightarrow> bool" where
  "pdu_rep pdu msg \<longleftrightarrow>
     wf_msg msg \<and> pdu_max pdu = length (pdu_buf pdu) \<and> pdu_max pdu < 2 ^ 63 \<and>
     pdu_len pdu = length (enc_msg msg) \<and> pdu_len pdu \<le> pdu_max pdu \<and>
     take (pdu_len pdu) (pdu_buf pdu) = enc_msg msg"

subsection \<open>Decoding one option\<close>

lemma be16_add:
  "push_bit 8 (ucast (x :: u8) :: u16) + ucast (y :: u8) = word_of_nat (unat x * 256 + unat y)"
proof -
  have u: "(ucast z :: u16) = word_of_nat (unat z)" for z :: u8
    by (rule ucast_u8_value) (rule refl)
  show ?thesis unfolding u by (simp add: push_bit_eq_mult)
qed

lemma decode_ext_enc:
  assumes n: "n < 65536" and b: "drop p b = opt_ext n @ rest"
  shows "decode_ext b p (word_of_nat (opt_nib n)) = Some (Inr (word_of_nat n, p + length (opt_ext n)))"
proof -
  consider "n < 13" | "13 \<le> n" "n < 269" | "269 \<le> n" by linarith
  then show ?thesis
  proof cases
    case 1
    then have "unat (word_of_nat n :: u16) = n" by (simp add: unat_of_nat_u16)
    with 1 show ?thesis
      by (simp add: decode_ext_def opt_nib_def opt_ext_def word_less_nat_alt del: unat_of_nat)
  next
    case 2
    then have e: "opt_ext n = [word_of_nat (n - 13)]" by (simp add: opt_ext_def)
    have "(ucast (word_of_nat (n - 13) :: u8) :: u16) + 13 = word_of_nat n"
      using 2 by (subst ucast_of_nat_u8_u16) auto
    with 2 e b show ?thesis by (simp add: decode_ext_def opt_nib_def rd_drop)
  next
    case 3
    define h l where "h = (n - 269) div 256" and "l = (n - 269) mod 256"
    then have e: "opt_ext n = [word_of_nat h, word_of_nat l]"
      using 3 by (simp add: opt_ext_def)
    have hl: "h < 256" "l < 256" "h * 256 + l = n - 269"
      using n by (auto simp: h_def l_def less_mult_imp_div_less)
    have "push_bit 8 (ucast (word_of_nat h :: u8) :: u16) + ucast (word_of_nat l :: u8) + 269 =
        word_of_nat (n - 269) + 269"
      unfolding be16_add unat_of_nat_u8 [OF hl(1)] unat_of_nat_u8 [OF hl(2)] hl(3) by (rule refl)
    also have "\<dots> = word_of_nat n" using 3 by simp
    finally have w: "push_bit 8 (ucast (word_of_nat h :: u8) :: u16) + ucast (word_of_nat l :: u8) + 269 =
        word_of_nat n" .
    have "rd b p = Some (word_of_nat h)" using b e by (simp add: rd_drop)
    moreover have "rd b (p + 1) = Some (word_of_nat l)"
      using b e drop_add_append [of p b "[word_of_nat h]"] by (simp add: rd_drop)
    ultimately show ?thesis
      using 3 e w by (simp add: decode_ext_def opt_nib_def)
  qed
qed

lemma opt_first_nibbles:
  "ucast (drop_bit 4 (opt_first d l)) = (word_of_nat (opt_nib d) :: u16)"
  "ucast (opt_first d l AND 0x0F) = (word_of_nat (opt_nib l) :: u16)"
proof -
  have "unat (drop_bit 4 (opt_first d l)) = opt_nib d"
    using opt_nib_less [of l] by (simp only: unat_drop unat_opt_first) simp
  then show "ucast (drop_bit 4 (opt_first d l)) = (word_of_nat (opt_nib d) :: u16)"
    by (rule ucast_u8_value)
  have "unat (opt_first d l AND 0x0F) = opt_nib l"
    using opt_nib_less [of l] by (simp only: u8_and_0F unat_opt_first) simp
  then show "ucast (opt_first d l AND 0x0F) = (word_of_nat (opt_nib l) :: u16)"
    by (rule ucast_u8_value)
qed

lemma coap_decode_option_enc:
  assumes "d < 65536" "l < 65536" and k: "k \<noteq> 0" and b: "drop p b = enc_opt_hdr d l @ rest"
  shows "coap_decode_option b p k num =
           Some (Inr (num + word_of_nat d, l, p + length (enc_opt_hdr d l)))"
proof -
  have b0: "drop p b = opt_first d l # opt_ext d @ opt_ext l @ rest"
    using b by (simp add: enc_opt_hdr_def)
  have b1: "drop (p + 1) b = opt_ext d @ opt_ext l @ rest"
    using drop_add_append [of p b "[opt_first d l]"] b0 by simp
  have b2: "drop (p + 1 + length (opt_ext d)) b = opt_ext l @ rest"
    by (rule drop_add_append [OF b1])
  show ?thesis
    using k decode_ext_enc [OF assms(1) b1] decode_ext_enc [OF assms(2) b2] assms(2)
    by (simp add: coap_decode_option_def rd_drop [OF b0] opt_first_nibbles length_enc_opt_hdr
        unat_of_nat_u16 del: unat_of_nat)
qed

lemma coap_decode_option_end: "coap_decode_option b p 0 num = Some (Inl CE_END_OF_PACKET)"
  by (simp add: coap_decode_option_def)

lemma coap_decode_option_marker:
  "k \<noteq> 0 \<Longrightarrow> drop p b = 0xFF # rest \<Longrightarrow> coap_decode_option b p k num = Some (Inl CE_FOUND_PAYLOAD_MARKER)"
  by (simp add: coap_decode_option_def rd_drop)

text \<open>The number passed in matters only for the number handed back.\<close>

lemma coap_decode_option_Inl:
  "coap_decode_option b p k num = Some (Inl e) \<Longrightarrow> coap_decode_option b p k num' = Some (Inl e)"
  by (auto simp: coap_decode_option_def split: if_splits option.splits sum.splits)

lemma coap_decode_option_Inr:
  "coap_decode_option b p k num = Some (Inr (n, l, v)) \<Longrightarrow>
     \<exists>n'. coap_decode_option b p k num' = Some (Inr (n', l, v))"
  by (auto simp: coap_decode_option_def split: if_splits option.splits sum.splits)

subsection \<open>Walking over the options\<close>

text \<open>
  The contract of a loop that walks over the options of a packet: it leaves with an error of the
  decoder, and goes on behind an option that lies inside the packet and whose number is allowed.
\<close>

locale option_walk =
  fixes seek :: "u8 list \<Rightarrow> nat \<Rightarrow> nat \<Rightarrow> u16 \<Rightarrow> 'r option"
    and leave :: "coap_error \<Rightarrow> nat \<Rightarrow> u16 \<Rightarrow> 'r"
    and ok :: "u16 \<Rightarrow> bool"
  assumes stop: "coap_decode_option b p (szsub len p) num = Some (Inl err) \<Longrightarrow>
      seek b len p num = Some (leave err p num)"
    and step: "coap_decode_option b p (szsub len p) num = Some (Inr (n, l, v)) \<Longrightarrow> ok n \<Longrightarrow>
      p + l < len \<Longrightarrow> seek b len p num = seek b len (v + l) n"
begin

lemma walk_enc:
  assumes "wf_opts prev os" and "\<forall>nv \<in> set os. ok (word_of_nat (fst nv))"
    and "drop p b = enc_opts prev os @ tail @ rest" and "len = p + length (enc_opts prev os @ tail)"
    and "len < 2 ^ 64" and "tail = [] \<or> hd tail = 0xFF"
  shows "seek b len p (word_of_nat prev) =
     Some (leave (if tail = [] then CE_END_OF_PACKET else CE_FOUND_PAYLOAD_MARKER)
       (p + length (enc_opts prev os)) (word_of_nat (last_num prev os)))"
  using assms
proof (induction prev os arbitrary: p rule: enc_opts.induct)
  case (1 prev)
  show ?case
  proof (cases tail)
    case Nil
    with 1 have "szsub len p = 0" by (simp add: szsub_le)
    then have "coap_decode_option b p (szsub len p) (word_of_nat prev) = Some (Inl CE_END_OF_PACKET)"
      by (simp add: coap_decode_option_end)
    from stop [OF this] Nil show ?thesis by simp
  next
    case (Cons c t)
    with 1 have "szsub len p \<noteq> 0" "drop p b = 0xFF # t @ rest" by (simp_all add: szsub_le)
    from stop [OF coap_decode_option_marker [OF this]] Cons show ?thesis by simp
  qed
next
  case (2 prev n v os)
  let ?h = "enc_opt_hdr (n - prev) (length v)"
  have k: "szsub len p \<noteq> 0" using 2 by (simp add: szsub_le enc_opt_hdr_def)
  have d: "drop p b = ?h @ v @ enc_opts n os @ tail @ rest" using 2 by simp
  have lt: "n - prev < 65536" "length v < 65536" using "2.prems"(1) by auto
  have w: "word_of_nat prev + word_of_nat (n - prev) = (word_of_nat n :: u16)"
    using 2 by (metis le_add_diff_inverse of_nat_add wf_opts.simps(2))
  have "coap_decode_option b p (szsub len p) (word_of_nat prev) =
      Some (Inr (word_of_nat n, length v, p + length ?h))"
    using coap_decode_option_enc [OF lt k d, of "word_of_nat prev"] by (simp only: w)
  moreover have "p + length v < len" using 2 by (simp add: enc_opt_hdr_def)
  ultimately have "seek b len p (word_of_nat prev) =
      seek b len (p + length ?h + length v) (word_of_nat n)"
    using 2 by (intro step) auto
  also have "drop (p + length ?h + length v) b = enc_opts n os @ tail @ rest"
    using drop_add_append [OF d] by (metis drop_add_append)
  then have "seek b len (p + length ?h + length v) (word_of_nat n) =
     Some (leave (if tail = [] then CE_END_OF_PACKET else CE_FOUND_PAYLOAD_MARKER)
       (p + length ?h + length v + length (enc_opts n os)) (word_of_nat (last_num n os)))"
    using 2 by (intro "2.IH") auto
  finally show ?case by (simp add: ac_simps)
qed

end

interpretation payload_walk: option_walk "\<lambda>b len p num. payload_seek b len p" "\<lambda>e p n. (e, p)" "\<lambda>n. True"
proof
  fix b p len num err
  assume "coap_decode_option b p (szsub len p) num = Some (Inl err)"
  from coap_decode_option_Inl [OF this, of 0] show "payload_seek b len p = Some (err, p)"
    by (simp add: payload_seek.simps [of b])
next
  fix b p len num n l v
  assume "coap_decode_option b p (szsub len p) num = Some (Inr (n, l, v))"
  from coap_decode_option_Inr [OF this, of 0] show "payload_seek b len p = payload_seek b len (v + l)"
    by (auto simp: payload_seek.simps [of b len p])
qed

interpretation set_payload_walk: option_walk set_payload_seek "\<lambda>e p n. (e, p)" "\<lambda>n. True"
  by unfold_locales (simp_all add: set_payload_seek.simps)

interpretation add_option_walk:
  option_walk "\<lambda>b len. add_option_seek b len opt_num" "\<lambda>e p n. (e, p, n)" "\<lambda>n. uint n \<le> opt_num"
  for opt_num
  by unfold_locales (simp_all add: add_option_seek.simps)

subsection \<open>Header fields and payload\<close>

lemma pdu_rep_buf:
  assumes "pdu_rep pdu msg"
  obtains rest where "pdu_buf pdu = enc_msg msg @ rest"
  using assms by (metis append_take_drop_id pdu_rep_def)

lemma pdu_rep_nth:
  assumes "pdu_rep pdu msg"
  shows "rd (pdu_buf pdu) 0 = Some (msg_first (m_type msg) (length (m_tok msg)))"
    and "rd (pdu_buf pdu) 1 = Some (m_code msg)" and "rd (pdu_buf pdu) 2 = Some (m_id0 msg)"
    and "rd (pdu_buf pdu) 3 = Some (m_id1 msg)"
  by (rule pdu_rep_buf [OF assms]; simp add: enc_msg_def rd_def)+

lemma pdu_rep_drops:
  assumes "pdu_rep pdu msg"
  shows "\<exists>rest. drop 4 (pdu_buf pdu) = m_tok msg @ enc_opts 0 (m_opts msg) @ enc_pay (m_pay msg) @ rest \<and>
    drop (4 + length (m_tok msg)) (pdu_buf pdu) = enc_opts 0 (m_opts msg) @ enc_pay (m_pay msg) @ rest"
proof (rule pdu_rep_buf [OF assms])
  fix rest
  assume b: "pdu_buf pdu = enc_msg msg @ rest"
  then have "drop 4 (pdu_buf pdu) = m_tok msg @ enc_opts 0 (m_opts msg) @ enc_pay (m_pay msg) @ rest"
    by (simp add: enc_msg_def)
  with drop_add_append [OF this] show ?thesis by blast
qed

lemma pdu_rep_len:
  "pdu_rep pdu msg \<Longrightarrow>
     pdu_len pdu = 4 + length (m_tok msg) + length (enc_opts 0 (m_opts msg) @ enc_pay (m_pay msg))"
  by (simp add: pdu_rep_def enc_msg_def)

lemma pdu_rep_wf: "pdu_rep pdu msg \<Longrightarrow> m_type msg < 4 \<and> length (m_tok msg) \<le> 8 \<and> wf_opts 0 (m_opts msg)"
  by (simp add: pdu_rep_def wf_msg_def)

lemma coap_get_tkl_rep:
  assumes "pdu_rep pdu msg"
  shows "\<exists>k. coap_get_tkl pdu = Some k \<and> unat k = length (m_tok msg)"
  using msg_first_tkl [of "m_type msg" "length (m_tok msg)"] pdu_rep_wf [OF assms]
  by (simp add: coap_get_tkl_def pdu_rep_nth [OF assms] unat_of_nat_u8 del: unat_of_nat)

lemma enc_pay_marker: "enc_pay pay = [] \<or> hd (enc_pay pay) = 0xFF"
  by (simp add: enc_pay_def)

lemma enc_pay_Nil [simp]: "enc_pay pay = [] \<longleftrightarrow> pay = []"
  by (simp add: enc_pay_def)

lemma rdn_drop: "drop p b = v @ rest \<Longrightarrow> p \<le> length b \<Longrightarrow> rdn b p (length v) = Some v"
proof -
  assume d: "drop p b = v @ rest" and p: "p \<le> length b"
  then have "length v \<le> length b - p" by (metis length_append length_drop le_add1)
  with d p show ?thesis by (auto simp: rdn_def)
qed

lemma coap_get_payload_rep:
  assumes rep: "pdu_rep pdu msg"
  shows "\<exists>pl. coap_get_payload pdu = Some pl \<and> pl_len pl = length (m_pay msg) \<and>
     (case pl_val pl of None \<Rightarrow> m_pay msg = []
      | Some p \<Rightarrow> m_pay msg \<noteq> [] \<and> rdn (pdu_buf pdu) p (pl_len pl) = Some (m_pay msg))"
proof -
  let ?t = "length (m_tok msg)" and ?os = "enc_opts 0 (m_opts msg)" and ?pay = "enc_pay (m_pay msg)"
  obtain k where k: "coap_get_tkl pdu = Some k" "unat k = ?t" using coap_get_tkl_rep [OF rep] by blast
  obtain rest where d: "drop (4 + ?t) (pdu_buf pdu) = ?os @ ?pay @ rest"
    using pdu_rep_drops [OF rep] by blast
  note len = pdu_rep_len [OF rep]
  have small: "pdu_len pdu < 2 ^ 64" using rep by (simp add: pdu_rep_def)
  define q where "q = 4 + ?t + length ?os"
  have walk: "payload_seek (pdu_buf pdu) (pdu_len pdu) (4 + ?t) =
      Some (if m_pay msg = [] then CE_END_OF_PACKET else CE_FOUND_PAYLOAD_MARKER, q)"
    using payload_walk.walk_enc [OF _ _ d len small enc_pay_marker] pdu_rep_wf [OF rep]
    by (simp add: q_def)
  have dq: "drop q (pdu_buf pdu) = ?pay @ rest" unfolding q_def by (rule drop_add_append [OF d])
  show ?thesis
  proof (cases "m_pay msg = []")
    case True
    with walk k show ?thesis by (simp add: coap_get_payload_def)
  next
    case False
    then have "drop q (pdu_buf pdu) = [0xFF] @ m_pay msg @ rest" using dq by (simp add: enc_pay_def)
    from drop_add_append [OF this] have "drop (q + 1) (pdu_buf pdu) = m_pay msg @ rest" by simp
    moreover have pl: "pdu_len pdu = q + 1 + length (m_pay msg)"
      using len False by (simp add: q_def enc_pay_def)
    moreover have "pdu_len pdu \<le> length (pdu_buf pdu)" using rep by (simp add: pdu_rep_def)
    ultimately have "rdn (pdu_buf pdu) (q + 1) (length (m_pay msg)) = Some (m_pay msg)"
      by (intro rdn_drop) auto
    moreover note pl
    then have "szsub (szsub (pdu_len pdu) q) 1 = length (m_pay msg)"
      using small by (simp add: szsub_le)
    ultimately show ?thesis using walk k False by (simp add: coap_get_payload_def)
  qed
qed

subsection \<open>Finding an option by its number\<close>

text \<open>\<open>opt\<close> is the last option seen: number \<open>prev\<close>, its value ends at \<open>p\<close> (at first: none, 0).\<close>

definition at_option :: "coap_pdu \<Rightarrow> coap_msg \<Rightarrow> nat \<Rightarrow> nat \<Rightarrow> coap_option \<Rightarrow> bool" where
  "at_option pdu msg prev p opt \<longleftrightarrow> prev < 65536 \<and> 0 < p \<and>
     (if prev = 0 then co_num opt = 0 \<and> p = 4 + length (m_tok msg)
      else co_num opt = word_of_nat prev \<and> (\<exists>v. co_val opt = Some v \<and> v + co_len opt = p))"

lemma word_of_nat_u16_inj: "m < 65536 \<Longrightarrow> n < 65536 \<Longrightarrow> ((word_of_nat m :: u16) = word_of_nat n) = (m = n)"
  by (metis unat_of_nat_u16)

lemma word_of_nat_u16_less: "m < 65536 \<Longrightarrow> n < 65536 \<Longrightarrow> ((word_of_nat m :: u16) < word_of_nat n) = (m < n)"
  by (simp add: word_less_nat_alt unat_of_nat_u16 del: unat_of_nat)

lemma coap_get_option_at:
  assumes rep: "pdu_rep pdu msg" and at: "at_option pdu msg prev p opt" and p: "p \<le> pdu_len pdu"
  shows "coap_get_option pdu (Some opt) =
     Option.bind (coap_decode_option (pdu_buf pdu) p (szsub (pdu_len pdu) p) (word_of_nat prev)) (\<lambda>r.
       case r of
         Inr (num', len, val) \<Rightarrow> Some \<lparr>co_num = num', co_len = len, co_val = Some val\<rparr>
       | Inl err \<Rightarrow>
           if err = CE_FOUND_PAYLOAD_MARKER then
             (if prev = 0 then
                Some \<lparr>co_num = 0, co_len = szsub (szsub (pdu_len pdu) p) 1, co_val = Some (p + 1)\<rparr>
              else None)
           else Some \<lparr>co_num = 0, co_len = 0, co_val = None\<rparr>)"
proof -
  obtain k where k: "coap_get_tkl pdu = Some k" "unat k = length (m_tok msg)"
    using coap_get_tkl_rep [OF rep] by blast
  have z: "(word_of_nat prev :: u16) = 0 \<longleftrightarrow> prev = 0"
    using at word_of_nat_u16_inj [of prev 0] by (simp add: at_option_def)
  show ?thesis
    using at p by (auto simp: coap_get_option_def k at_option_def Let_def z
        split: if_splits intro!: bind_option_cong)
qed

text \<open>The walk stands in front of the options \<open>os\<close>, with \<open>tail\<close> the marker and the payload.\<close>

definition in_front ::
  "coap_pdu \<Rightarrow> coap_msg \<Rightarrow> nat \<Rightarrow> (nat \<times> u8 list) list \<Rightarrow> nat \<Rightarrow> coap_option \<Rightarrow> bool" where
  "in_front pdu msg prev os p opt \<longleftrightarrow>
     pdu_rep pdu msg \<and> at_option pdu msg prev p opt \<and> wf_opts prev os \<and> (\<forall>nv \<in> set os. 0 < fst nv) \<and>
     pdu_len pdu = p + length (enc_opts prev os @ enc_pay (m_pay msg)) \<and>
     (\<exists>rest. drop p (pdu_buf pdu) = enc_opts prev os @ enc_pay (m_pay msg) @ rest)"

lemma in_front_first:
  assumes "pdu_rep pdu msg" and "\<forall>nv \<in> set (m_opts msg). 0 < fst nv" and "co_num opt = 0"
  shows "in_front pdu msg 0 (m_opts msg) (4 + length (m_tok msg)) opt"
  using assms pdu_rep_drops [OF assms(1)] pdu_rep_wf [OF assms(1)] pdu_rep_len [OF assms(1)]
  by (auto simp: in_front_def at_option_def)

lemma in_front_lengths:
  assumes "in_front pdu msg prev os p opt"
  shows "p \<le> pdu_len pdu" "pdu_len pdu < 2 ^ 64" "pdu_len pdu \<le> length (pdu_buf pdu)"
  using assms by (auto simp: in_front_def pdu_rep_def)

lemma get_option_end:
  assumes f: "in_front pdu msg prev [] p opt"
  shows "coap_get_option pdu (Some opt) =
     (if m_pay msg = [] then Some \<lparr>co_num = 0, co_len = 0, co_val = None\<rparr>
      else if prev = 0 then Some \<lparr>co_num = 0, co_len = length (m_pay msg), co_val = Some (p + 1)\<rparr>
      else None)"
proof -
  from f obtain rest where rep: "pdu_rep pdu msg" and at: "at_option pdu msg prev p opt"
    and d: "drop p (pdu_buf pdu) = enc_pay (m_pay msg) @ rest"
    and len: "pdu_len pdu = p + length (enc_pay (m_pay msg))"
    by (auto simp: in_front_def)
  note l = in_front_lengths [OF f]
  show ?thesis
  proof (cases "m_pay msg = []")
    case True
    with len l(2) have "szsub (pdu_len pdu) p = 0" by (simp add: szsub_le)
    with True show ?thesis
      by (simp add: coap_get_option_at [OF rep at l(1)] coap_decode_option_end)
  next
    case False
    then have "drop p (pdu_buf pdu) = 0xFF # m_pay msg @ rest" "szsub (pdu_len pdu) p \<noteq> 0"
      using d len l(2) by (simp_all add: enc_pay_def szsub_le)
    from coap_decode_option_marker [OF this(2,1)] False show ?thesis
      using len l(2) by (simp add: coap_get_option_at [OF rep at l(1)] enc_pay_def szsub_le)
  qed
qed

lemma get_option_next:
  assumes f: "in_front pdu msg prev ((n, v) # os) p opt"
  shows "\<exists>opt' q. coap_get_option pdu (Some opt) = Some opt' \<and> co_num opt' = word_of_nat n \<and>
     co_len opt' = length v \<and> co_val opt' = Some q \<and> rdn (pdu_buf pdu) q (length v) = Some v \<and>
     in_front pdu msg n os (q + length v) opt'"
proof -
  let ?h = "enc_opt_hdr (n - prev) (length v)"
  from f obtain rest where rep: "pdu_rep pdu msg" and at: "at_option pdu msg prev p opt"
    and d: "drop p (pdu_buf pdu) = ?h @ v @ enc_opts n os @ enc_pay (m_pay msg) @ rest"
    and len: "pdu_len pdu = p + length ?h + length v + length (enc_opts n os @ enc_pay (m_pay msg))"
    and wf: "prev \<le> n" "n < 65536" "length v < 65536" "wf_opts n os" "0 < n" "\<forall>nv \<in> set os. 0 < fst nv"
    by (auto simp: in_front_def)
  note l = in_front_lengths [OF f]
  have "szsub (pdu_len pdu) p \<noteq> 0" using len l(2) by (simp add: szsub_le enc_opt_hdr_def)
  moreover have "word_of_nat prev + word_of_nat (n - prev) = (word_of_nat n :: u16)"
    using wf(1) by (metis le_add_diff_inverse of_nat_add)
  ultimately have dec: "coap_decode_option (pdu_buf pdu) p (szsub (pdu_len pdu) p) (word_of_nat prev) =
      Some (Inr (word_of_nat n, length v, p + length ?h))"
    using coap_decode_option_enc [of "n - prev" "length v", OF _ _ _ d] wf by (metis less_imp_diff_less)
  have dv: "drop (p + length ?h) (pdu_buf pdu) = v @ enc_opts n os @ enc_pay (m_pay msg) @ rest"
    by (rule drop_add_append [OF d])
  have do: "drop (p + length ?h + length v) (pdu_buf pdu) = enc_opts n os @ enc_pay (m_pay msg) @ rest"
    by (rule drop_add_append [OF dv])
  have "rdn (pdu_buf pdu) (p + length ?h) (length v) = Some v"
    using rdn_drop [OF dv] len l(3) by simp
  with dec do wf rep len show ?thesis
    by (intro exI [of _ "\<lparr>co_num = word_of_nat n, co_len = length v, co_val = Some (p + length ?h)\<rparr>"]
        exI [of _ "p + length ?h"])
      (auto simp: coap_get_option_at [OF rep at l(1)] in_front_def at_option_def enc_opt_hdr_def)
qed

text \<open>The values of the options with a given number, in order.\<close>

definition nth_occ :: "nat \<Rightarrow> (nat \<times> u8 list) list \<Rightarrow> u8 list list" where
  "nth_occ num os = map snd (filter (\<lambda>nv. fst nv = num) os)"

lemma nth_occ_none: "wf_opts prev os \<Longrightarrow> num < prev \<Longrightarrow> nth_occ num os = []"
proof (induction prev os rule: wf_opts.induct)
  case (2 prev n v os)
  then show ?case by (simp add: nth_occ_def)
qed (simp add: nth_occ_def)

lemma option_by_num_found:
  assumes "in_front pdu msg prev os p opt" and "num < 65536" "0 < num" and "unat occ < 255" "i \<le> occ"
    and "unat occ - unat i < length (nth_occ num os)"
  shows "\<exists>opt' q. option_by_num_loop pdu (word_of_nat num) occ i opt = Some opt' \<and>
     co_num opt' = word_of_nat num \<and> co_val opt' = Some q \<and>
     co_len opt' = length (nth_occ num os ! (unat occ - unat i)) \<and>
     rdn (pdu_buf pdu) q (co_len opt') = Some (nth_occ num os ! (unat occ - unat i))"
  using assms
proof (induction prev os arbitrary: p opt i rule: enc_opts.induct)
  case (1 prev)
  then show ?case by (simp add: nth_occ_def)
next
  case (2 prev n v os)
  obtain opt1 q where o: "coap_get_option pdu (Some opt) = Some opt1" "co_num opt1 = word_of_nat n"
    "co_len opt1 = length v" "co_val opt1 = Some q" "rdn (pdu_buf pdu) q (length v) = Some v"
    "in_front pdu msg n os (q + length v) opt1"
    using get_option_next [OF "2.prems"(1)] by blast
  have n: "n < 65536" "wf_opts n os" "0 < n" using "2.prems"(1) by (auto simp: in_front_def)
  have le: "unat i \<le> unat occ" using "2.prems"(5) by (simp add: word_le_nat_alt)
  have si: "unat (i + 1) = unat i + 1" using le "2.prems"(4) by (simp add: unat_word_ariths)
  note loop = option_by_num_loop.simps [of pdu "word_of_nat num" occ i opt]
  consider "n = num" | "n < num" | "num < n" by linarith
  then show ?case
  proof cases
    case 1
    show ?thesis
    proof (cases "unat i = unat occ")
      case True
      with 1 si "2.prems" o show ?thesis
        by (simp add: loop nth_occ_def word_le_nat_alt)
    next
      case False
      then have i1: "i + 1 \<le> occ" using le si by (simp add: word_le_nat_alt)
      have k: "unat occ - unat i = Suc (unat occ - unat (i + 1))" using False le si by simp
      from 1 i1 k "2.IH" [OF o(6) "2.prems"(2-4) i1] "2.prems"(6) o(1,2) show ?thesis
        by (simp add: loop nth_occ_def)
    qed
  next
    case 2
    then have "nth_occ num ((n, v) # os) = nth_occ num os" by (simp add: nth_occ_def)
    moreover have "(word_of_nat n :: u16) \<noteq> word_of_nat num" "\<not> (word_of_nat n :: u16) > word_of_nat num"
      "(word_of_nat n :: u16) \<noteq> 0"
      using 2 n "2.prems"(2) word_of_nat_u16_inj [of n 0]
      by (auto simp: word_of_nat_u16_inj word_of_nat_u16_less)
    ultimately show ?thesis
      using "2.IH" [OF o(6) "2.prems"(2-5)] "2.prems"(5,6) o(1,2) by (simp add: loop)
  next
    case 3
    with nth_occ_none [OF n(2), of num] "2.prems"(6) show ?thesis by (simp add: nth_occ_def)
  qed
qed

text \<open>
  When the occurrence does not exist, the search answers number 0 if a larger option number ends it
  or there is no payload; otherwise it runs into the payload marker.
\<close>

lemma option_by_num_missing:
  assumes "in_front pdu msg prev os p opt" and "num < 65536" "0 < num" and "unat occ < 255" "i \<le> occ"
    and "length (nth_occ num os) \<le> unat occ - unat i"
  shows "option_by_num_loop pdu (word_of_nat num) occ i opt =
     (if (\<exists>nv \<in> set os. num < fst nv) \<or> m_pay msg = []
      then Some \<lparr>co_num = 0, co_len = 0, co_val = None\<rparr>
      else if prev = 0 \<and> os = [] then Some \<lparr>co_num = 0, co_len = length (m_pay msg), co_val = Some (p + 1)\<rparr>
      else None)"
  using assms
proof (induction prev os arbitrary: p opt i rule: enc_opts.induct)
  case (1 prev)
  have "(word_of_nat num :: u16) \<noteq> 0" using 1 word_of_nat_u16_inj [of num 0] by simp
  then show ?case
    using get_option_end [OF "1.prems"(1)]
    by (simp add: option_by_num_loop.simps [of pdu "word_of_nat num" occ i opt])
next
  case (2 prev n v os)
  obtain opt1 q where o: "coap_get_option pdu (Some opt) = Some opt1" "co_num opt1 = word_of_nat n"
    "in_front pdu msg n os (q + length v) opt1"
    using get_option_next [OF "2.prems"(1)] by blast
  have n: "n < 65536" "wf_opts n os" "0 < n" using "2.prems"(1) by (auto simp: in_front_def)
  have le: "unat i \<le> unat occ" using "2.prems"(5) by (simp add: word_le_nat_alt)
  have si: "unat (i + 1) = unat i + 1" using le "2.prems"(4) by (simp add: unat_word_ariths)
  note loop = option_by_num_loop.simps [of pdu "word_of_nat num" occ i opt]
  consider "n = num" | "n < num" | "num < n" by linarith
  then show ?case
  proof cases
    case 1
    then have i1: "i + 1 \<le> occ" "unat occ - unat (i + 1) = unat occ - unat i - 1"
      using "2.prems"(6) le si by (auto simp: nth_occ_def word_le_nat_alt)
    with 1 "2.IH" [OF o(3) "2.prems"(2-4) i1(1)] "2.prems"(3,6) o(1,2) show ?thesis
      by (auto simp: loop nth_occ_def)
  next
    case 2
    then have "nth_occ num ((n, v) # os) = nth_occ num os" by (simp add: nth_occ_def)
    moreover have "(word_of_nat n :: u16) \<noteq> word_of_nat num" "\<not> (word_of_nat n :: u16) > word_of_nat num"
      "(word_of_nat n :: u16) \<noteq> 0"
      using 2 n "2.prems"(2) word_of_nat_u16_inj [of n 0]
      by (auto simp: word_of_nat_u16_inj word_of_nat_u16_less)
    ultimately show ?thesis
      using "2.IH" [OF o(3) "2.prems"(2-5)] "2.prems"(5,6) o(1,2) n(3) 2 by (auto simp: loop)
  next
    case 3
    then have "(word_of_nat n :: u16) \<noteq> word_of_nat num" "(word_of_nat n :: u16) > word_of_nat num"
      using n "2.prems"(2) by (auto simp: word_of_nat_u16_inj word_of_nat_u16_less)
    with 3 o(1,2) show ?thesis by (auto simp: loop)
  qed
qed

subsection \<open>Properties\<close>

text \<open>A message with two path segments and a payload, in a buffer with room, for the witnesses.\<close>

definition ex_msg :: coap_msg where
  "ex_msg = \<lparr>m_type = 0, m_code = 1, m_id0 = 0, m_id1 = 7, m_tok = [0xAB, 0xCD],
     m_opts = [(11, bytes ''a''), (11, bytes ''bc'')], m_pay = bytes ''x''\<rparr>"

definition pdu_of :: "coap_msg \<Rightarrow> coap_pdu" where
  "pdu_of msg = \<lparr>pdu_buf = enc_msg msg @ replicate 10 0, pdu_len = length (enc_msg msg),
     pdu_max = length (enc_msg msg) + 10\<rparr>"

lemma pdu_of_rep: "wf_msg msg \<Longrightarrow> length (enc_msg msg) < 1000 \<Longrightarrow> pdu_rep (pdu_of msg) msg"
  by (simp add: pdu_rep_def pdu_of_def)

lemma ex_msg_wf: "wf_msg ex_msg"
  by (simp add: wf_msg_def ex_msg_def)

lemma ex_msg_length: "length (enc_msg ex_msg) = 13"
  by (simp add: ex_msg_def enc_msg_def enc_opt_hdr_def opt_ext_def enc_pay_def bytes_def)

lemma ex_pdu_rep: "pdu_rep (pdu_of ex_msg) ex_msg"
  using pdu_of_rep [OF ex_msg_wf] ex_msg_length by simp

text \<open>The option the search starts with.\<close>

definition no_option :: coap_option where
  "no_option = \<lparr>co_num = 0, co_len = 0, co_val = None\<rparr>"

lemma coap_getters_rep:
  assumes "pdu_rep pdu msg"
  shows "coap_get_version pdu = Some 1 \<and> coap_get_type pdu = Some (word_of_nat (m_type msg)) \<and>
     coap_get_tkl pdu = Some (word_of_nat (length (m_tok msg))) \<and> coap_get_code pdu = Some (m_code msg) \<and>
     coap_get_mid pdu = Some (word_of_nat (unat (m_id0 msg) * 256 + unat (m_id1 msg))) \<and>
     coap_get_token pdu = Some (le_word (m_tok msg)) \<and>
     (\<exists>pl. coap_get_payload pdu = Some pl \<and> pl_len pl = length (m_pay msg) \<and>
        (case pl_val pl of None \<Rightarrow> m_pay msg = []
         | Some p \<Rightarrow> m_pay msg \<noteq> [] \<and> rdn (pdu_buf pdu) p (pl_len pl) = Some (m_pay msg)))"
proof -
  note r = pdu_rep_nth [OF assms] and wf = pdu_rep_wf [OF assms]
  let ?x = "msg_first (m_type msg) (length (m_tok msg))"
  have u: "unat ?x = 64 + m_type msg * 16 + length (m_tok msg)" using wf by (intro unat_msg_first) auto
  have ver: "drop_bit 6 ?x = 1" using wf by (intro msg_first_version) auto
  have "unat (drop_bit 4 ?x AND 0x03) = unat (drop_bit 4 ?x AND mask 2)" by (simp add: mask_eq_exp_minus_1)
  also have "\<dots> = (64 + m_type msg * 16 + length (m_tok msg)) div 16 mod 4"
    by (simp add: unat_and_mask unat_drop u)
  also have "(64 + m_type msg * 16 + length (m_tok msg)) div 16 = 4 + m_type msg"
    using wf by (intro div_nat_eqI) auto
  also have "(4 + m_type msg) mod 4 = m_type msg" using wf by simp
  finally have ty: "drop_bit 4 ?x AND 0x03 = word_of_nat (m_type msg)" by (rule word_value)
  have tk: "?x AND 0x0F = word_of_nat (length (m_tok msg))" using wf by (intro msg_first_tkl) auto
  have ut: "unat (word_of_nat (length (m_tok msg)) :: u8) = length (m_tok msg)"
    using wf by (intro unat_of_nat_u8) simp
  obtain rest where "drop 4 (pdu_buf pdu) = m_tok msg @ rest" using pdu_rep_drops [OF assms] by auto
  moreover have len: "4 + length (m_tok msg) \<le> pdu_len pdu" "pdu_len pdu \<le> length (pdu_buf pdu)"
    using pdu_rep_len [OF assms] assms by (auto simp: pdu_rep_def)
  ultimately have "rdn (pdu_buf pdu) 4 (length (m_tok msg)) = Some (m_tok msg)"
    by (intro rdn_drop) auto
  then show ?thesis
    using coap_get_payload_rep [OF assms] ver ty tk wf len
    by (simp add: coap_get_version_def coap_get_type_def coap_get_tkl_def coap_get_code_def
        coap_get_mid_def coap_get_token_def r be16_or ut del: unat_of_nat rd_in One_nat_def)
qed

text \<open>
  C23. The getters read back what the buffer holds: on the encoding of any well-formed message, in a
  buffer of any size, version, type, token length, code and message id are the fields of the
  message, the token is its bytes read as a little-endian number, and the payload found is the
  payload of the message, empty or not.
\<close>

theorem coap_getters_correct:
  assumes "pdu_rep pdu msg"
  shows "coap_get_version pdu = Some 1 \<and> coap_get_type pdu = Some (word_of_nat (m_type msg)) \<and>
     coap_get_tkl pdu = Some (word_of_nat (length (m_tok msg))) \<and> coap_get_code pdu = Some (m_code msg) \<and>
     coap_get_mid pdu = Some (word_of_nat (unat (m_id0 msg) * 256 + unat (m_id1 msg))) \<and>
     coap_get_token pdu = Some (le_word (m_tok msg)) \<and>
     (\<exists>pl. coap_get_payload pdu = Some pl \<and> pl_len pl = length (m_pay msg) \<and>
        (case pl_val pl of None \<Rightarrow> m_pay msg = []
         | Some p \<Rightarrow> m_pay msg \<noteq> [] \<and> rdn (pdu_buf pdu) p (pl_len pl) = Some (m_pay msg)))"
  by (rule coap_getters_rep [OF assms])

theorem coap_getters_correct_witness:
  "coap_get_mid (pdu_of ex_msg) = Some 7 \<and> coap_get_token (pdu_of ex_msg) = Some 0xCDAB \<and>
   (\<exists>pl. coap_get_payload (pdu_of ex_msg) = Some pl \<and> pl_len pl = 1)"
  using coap_getters_correct [OF ex_pdu_rep] by (auto simp: ex_msg_def)

text \<open>
  C24. Searching an option by number returns, although the loop has no evident bound: when the message
  has more than \<open>occ\<close> options of that number, the answer is the one with index \<open>occ\<close> among them, and its value
  in the buffer is that option's value.
\<close>

theorem coap_get_option_by_num_finds:
  assumes "pdu_rep pdu msg" and "\<forall>nv \<in> set (m_opts msg). 0 < fst nv" and "0 < num" "num < 65536"
    and "unat occ < 255" and "unat occ < length (nth_occ num (m_opts msg))"
  shows "\<exists>opt p. coap_get_option_by_num pdu (word_of_nat num) occ = Some opt \<and>
     co_num opt = word_of_nat num \<and> co_val opt = Some p \<and>
     rdn (pdu_buf pdu) p (co_len opt) = Some (nth_occ num (m_opts msg) ! unat occ)"
  unfolding coap_get_option_by_num_def
  using option_by_num_found [OF in_front_first [OF assms(1,2)] assms(4,3,5), of no_option 0] assms(6)
  by (auto simp: no_option_def)

theorem coap_get_option_by_num_finds_witness:
  "\<exists>opt p. coap_get_option_by_num (pdu_of ex_msg) 11 1 = Some opt \<and> co_val opt = Some p \<and>
     rdn (pdu_buf (pdu_of ex_msg)) p (co_len opt) = Some (bytes ''bc'')"
  using coap_get_option_by_num_finds [OF ex_pdu_rep, of 11 1] by (auto simp: ex_msg_def nth_occ_def)

text \<open>
  Searching for an option that is not there answers number 0, except in one case: when the message
  has options and a payload and no option number above the wanted one, the search runs into the
  payload marker behind an option and computes with a NULL pointer; the result is undefined.
\<close>

lemma coap_get_option_by_num_missing:
  assumes "pdu_rep pdu msg" and "\<forall>nv \<in> set (m_opts msg). 0 < fst nv" and "0 < num" "num < 65536"
    and "unat occ < 255" and "length (nth_occ num (m_opts msg)) \<le> unat occ"
  shows "(m_opts msg \<noteq> [] \<and> m_pay msg \<noteq> [] \<and> (\<forall>nv \<in> set (m_opts msg). fst nv \<le> num) \<longrightarrow>
            coap_get_option_by_num pdu (word_of_nat num) occ = None) \<and>
         (m_opts msg = [] \<or> m_pay msg = [] \<or> (\<exists>nv \<in> set (m_opts msg). num < fst nv) \<longrightarrow>
            map_option co_num (coap_get_option_by_num pdu (word_of_nat num) occ) = Some 0)"
proof -
  have "coap_get_option_by_num pdu (word_of_nat num) occ =
     (if (\<exists>nv \<in> set (m_opts msg). num < fst nv) \<or> m_pay msg = [] then Some no_option
      else if m_opts msg = []
      then Some \<lparr>co_num = 0, co_len = length (m_pay msg), co_val = Some (4 + length (m_tok msg) + 1)\<rparr>
      else None)"
    using option_by_num_missing [OF in_front_first [OF assms(1,2)] assms(4,3,5), of no_option 0] assms(6)
    by (simp add: coap_get_option_by_num_def no_option_def)
  moreover have "(\<forall>nv \<in> set (m_opts msg). fst nv \<le> num) \<longleftrightarrow> \<not> (\<exists>nv \<in> set (m_opts msg). num < fst nv)"
    by (auto simp: not_less)
  ultimately show ?thesis by (simp add: no_option_def)
qed

lemma coap_get_option_by_num_missing_witness:
  "coap_get_option_by_num (pdu_of ex_msg) 12 0 = None \<and>
   map_option co_num (coap_get_option_by_num (pdu_of ex_msg) 3 0) = Some 0"
proof -
  have "nth_occ 12 (m_opts ex_msg) = []" "nth_occ 3 (m_opts ex_msg) = []" "m_opts ex_msg \<noteq> []"
    "m_pay ex_msg \<noteq> []" "\<forall>nv \<in> set (m_opts ex_msg). 0 < fst nv \<and> fst nv = 11"
    by (simp_all add: ex_msg_def nth_occ_def bytes_def)
  then show ?thesis
    using coap_get_option_by_num_missing [OF ex_pdu_rep, of 12 0]
      coap_get_option_by_num_missing [OF ex_pdu_rep, of 3 0] by (auto simp: ex_msg_def)
qed

text \<open>Validation accepts every well-formed message in a buffer that holds it.\<close>

lemma coap_validate_pkt_rep:
  assumes "pdu_rep pdu msg"
  shows "coap_validate_pkt pdu = Some CE_NONE"
proof -
  note r = pdu_rep_nth(1) [OF assms] and wf = pdu_rep_wf [OF assms] and len = pdu_rep_len [OF assms]
  let ?t = "length (m_tok msg)"
  obtain k where k: "coap_get_tkl pdu = Some k" "unat k = ?t" using coap_get_tkl_rep [OF assms] by blast
  have "drop_bit 6 (msg_first (m_type msg) ?t) = 1"
    using wf by (intro msg_first_version) auto
  then have ver: "coap_get_version pdu = Some 1" by (simp add: coap_get_version_def r)
  have l: "\<not> pdu_max pdu < pdu_len pdu" "\<not> pdu_len pdu < 4" "pdu_len pdu < 2 ^ 64"
    using assms len by (auto simp: pdu_rep_def)
  obtain rest where d: "drop (4 + ?t) (pdu_buf pdu) = enc_opts 0 (m_opts msg) @ enc_pay (m_pay msg) @ rest"
    using pdu_rep_drops [OF assms] by blast
  define pk where "pk = szsub (pdu_len pdu) (4 + ?t)"
  have pk: "pk = length (enc_opts 0 (m_opts msg) @ enc_pay (m_pay msg))"
    using len l(3) by (simp add: pk_def szsub_le)
  have ne: "enc_opts 0 ((n, v) # os) \<noteq> []" for n v os by (simp add: enc_opt_hdr_def)
  have "(\<exists>x. coap_decode_option (pdu_buf pdu) (4 + ?t) pk 0 = Some (Inr x)) \<or>
      coap_decode_option (pdu_buf pdu) (4 + ?t) pk 0 = Some (Inl CE_END_OF_PACKET) \<or>
      coap_decode_option (pdu_buf pdu) (4 + ?t) pk 0 = Some (Inl CE_FOUND_PAYLOAD_MARKER) \<and> pdu_len pdu \<noteq> 4 + ?t"
  proof (cases "m_opts msg")
    case Nil
    show ?thesis
    proof (cases "m_pay msg = []")
      case True
      with Nil pk show ?thesis by (simp add: coap_decode_option_end enc_pay_def)
    next
      case False
      with Nil pk d len coap_decode_option_marker [of pk "4 + ?t" "pdu_buf pdu"] show ?thesis
        by (simp add: enc_pay_def)
    qed
  next
    case (Cons nv os)
    obtain n v where nv: "nv = (n, v)" by fastforce
    from d Cons nv wf ne [of n v os] pk show ?thesis
      using coap_decode_option_enc [of n "length v" pk "4 + ?t" "pdu_buf pdu"] by auto
  qed
  then show ?thesis
    using l k wf ver by (auto simp: coap_validate_pkt_def word_less_nat_alt pk_def)
qed

text \<open>
  Validation is not a check of the whole packet: it accepts a payload marker without a payload
  and a packet whose second option has a reserved length, and it reads behind the buffer on a
  packet that ends in the middle of an option header.
\<close>

lemma coap_validate_pkt_too_weak:
  "coap_validate_pkt \<lparr>pdu_buf = [0x40, 1, 0, 7, 0xFF], pdu_len = 5, pdu_max = 5\<rparr> = Some CE_NONE \<and>
   coap_validate_pkt \<lparr>pdu_buf = [0x40, 1, 0, 7, 0x10, 0x1F], pdu_len = 6, pdu_max = 6\<rparr> = Some CE_NONE \<and>
   coap_validate_pkt \<lparr>pdu_buf = [0x40, 1, 0, 7, 0xD0], pdu_len = 5, pdu_max = 5\<rparr> = None"
  by (simp add: coap_validate_pkt_def coap_get_version_def coap_get_tkl_def coap_decode_option_def
      decode_ext_def rd_def szsub_def)

end
