(* ===== verification/Picocoap_Build.thy ===== *)
theory Picocoap_Build
  imports Picocoap_Decode
begin

section \<open>Building messages with the client's CoAP library\<close>

text \<open>
  Every setter of the library refines an update of the message the buffer holds: the header
  setters and \<open>coap_set_token\<close> at any time, \<open>coap_add_option\<close> for an option that does not come
  before the last one and before a payload is set, \<open>coap_set_payload\<close> once.  These are the uses
  the client makes of the library.  What happens outside them is shown by example.
\<close>

subsection \<open>Tokens\<close>

lemma length_le_bytes [simp]: "length (le_bytes n w) = n"
  by (induction n arbitrary: w) auto

lemma le_word_cons: "le_word (b # bs) = ucast b OR push_bit 8 (le_word bs)"
  by simp

lemma le_word_le_bytes: "n \<le> 8 \<Longrightarrow> le_word (le_bytes n w) = take_bit (8 * n) w"
proof (induction n arbitrary: w)
  case (Suc n)
  then have "le_word (le_bytes (Suc n) w) = ucast (ucast w :: u8) OR push_bit 8 (take_bit (8 * n) (drop_bit 8 w))"
    by simp
  also have "\<dots> = take_bit (8 * Suc n) w"
    by (rule bit_word_eqI) (auto simp: bit_simps)
  finally show ?case .
qed simp

lemma le_bytes_le_word: "length bs \<le> 8 \<Longrightarrow> le_bytes (length bs) (le_word bs) = bs"
proof (induction bs)
  case (Cons b bs)
  have "ucast (ucast b OR push_bit 8 (le_word bs)) = b"
    by (rule bit_word_eqI) (auto simp: bit_simps)
  moreover have "drop_bit 8 (ucast b OR push_bit 8 (le_word bs)) = take_bit 56 (le_word bs)"
    by (rule bit_word_eqI) (auto simp: bit_simps dest: bit_imp_le_length)
  moreover have "take_bit 56 (le_word bs) = le_word bs"
  proof -
    have "le_word bs = take_bit (8 * length bs) (le_word bs)"
      using Cons le_word_le_bytes [of "length bs" "le_word bs"] by simp
    moreover have "take_bit 56 (take_bit (8 * length bs) (le_word bs)) = take_bit (8 * length bs) (le_word bs)"
      using Cons.prems by (simp add: min_def)
    ultimately show ?thesis by metis
  qed
  ultimately show ?case using Cons by simp
qed simp

subsection \<open>The first byte\<close>

lemma msg_first_bits: "t < 4 \<Longrightarrow> k < 16 \<Longrightarrow> msg_first t k = 0x40 OR push_bit 4 (word_of_nat t) OR word_of_nat k"
proof -
  assume "t < 4" "k < 16"
  then have "push_bit 4 (word_of_nat t :: u8) OR word_of_nat k = word_of_nat (t * 16 + k)"
    using word_or_add [of k 4 t, where 'a = 8] by simp
  moreover have "(0x40 :: u8) OR word_of_nat (t * 16 + k) = word_of_nat (64 + (t * 16 + k))"
    using word_or_add [of "t * 16 + k" 6 1, where 'a = 8] \<open>t < 4\<close> \<open>k < 16\<close>
    by (simp add: push_bit_eq_mult)
  ultimately show ?thesis by (simp add: msg_first_def or.assoc add.assoc)
qed

lemma small_type: "t < 4 \<Longrightarrow> (word_of_nat t :: u8) AND 3 = word_of_nat t"
  using and_mask_id [of "word_of_nat t :: u8" 2]
  by (simp add: mask_eq_exp_minus_1 unat_of_nat_u8 del: unat_of_nat)

lemma small_tkl: "k < 16 \<Longrightarrow> (word_of_nat k :: u8) AND 0x0F = word_of_nat k"
  using and_mask_id [of "word_of_nat k :: u8" 4]
  by (simp add: mask_eq_exp_minus_1 unat_of_nat_u8 del: unat_of_nat)

lemma msg_first_masks:
  assumes "t < 4" "k < 16"
  shows "msg_first t k AND 0xCF = 0x40 OR word_of_nat k"
    and "msg_first t k AND 0xF0 = 0x40 OR push_bit 4 (word_of_nat t)"
    and "msg_first t k AND 0x3F = push_bit 4 (word_of_nat t) OR word_of_nat k"
proof -
  have p: "push_bit 4 (w AND 3) AND 0xCF = (0 :: u8)" "push_bit 4 (w AND 3) AND 0xF0 = push_bit 4 (w AND 3)"
    "push_bit 4 (w AND 3) AND 0x3F = push_bit 4 (w AND 3)" for w :: u8
    by (simp_all add: push_bit_and and.assoc)
  have q: "(w AND 0x0F) AND 0xCF = w AND 0x0F" "(w AND 0x0F) AND 0xF0 = 0" "(w AND 0x0F) AND 0x3F = w AND 0x0F"
    for w :: u8
    by (simp_all add: and.assoc)
  note pt = p [of "word_of_nat t", unfolded small_type [OF assms(1)]]
  note qk = q [of "word_of_nat k", unfolded small_tkl [OF assms(2)]]
  show "msg_first t k AND 0xCF = 0x40 OR word_of_nat k"
    by (simp only: msg_first_bits [OF assms] bit.conj_disj_distrib2 pt qk) simp
  show "msg_first t k AND 0xF0 = 0x40 OR push_bit 4 (word_of_nat t)"
    by (simp only: msg_first_bits [OF assms] bit.conj_disj_distrib2 pt qk) simp
  show "msg_first t k AND 0x3F = push_bit 4 (word_of_nat t) OR word_of_nat k"
    by (simp only: msg_first_bits [OF assms] bit.conj_disj_distrib2 pt qk) simp
qed

lemma msg_first_set_version:
  "t < 4 \<Longrightarrow> k < 16 \<Longrightarrow> push_bit 6 COAP_V1 OR (msg_first t k AND 0x3F) = msg_first t k"
  by (simp only: msg_first_masks) (simp add: msg_first_bits COAP_V1_def or.assoc)

lemma msg_first_set_type:
  "t < 4 \<Longrightarrow> t' < 4 \<Longrightarrow> k < 16 \<Longrightarrow> push_bit 4 (word_of_nat t') OR (msg_first t k AND 0xCF) = msg_first t' k"
  by (simp only: msg_first_masks) (simp add: msg_first_bits ac_simps)

lemma msg_first_set_tkl:
  "t < 4 \<Longrightarrow> k < 16 \<Longrightarrow> k' < 16 \<Longrightarrow>
     (word_of_nat k' AND 0x0F) OR (msg_first t k AND 0xF0) = msg_first t k'"
  by (simp only: msg_first_masks) (simp add: msg_first_bits small_tkl ac_simps)

subsection \<open>Header setters\<close>

lemma pdu_repI:
  assumes "wf_msg msg" and "pdu_buf pdu = enc_msg msg @ rest" and "pdu_max pdu = length (pdu_buf pdu)"
    and "pdu_max pdu < 2 ^ 63" and "pdu_len pdu = length (enc_msg msg)"
  shows "pdu_rep pdu msg"
  using assms by (simp add: pdu_rep_def)

text \<open>What a successful setter leaves: the new message in a buffer of the same size.\<close>

definition now_holds :: "(coap_error \<times> coap_pdu) option \<Rightarrow> coap_pdu \<Rightarrow> coap_msg \<Rightarrow> bool" where
  "now_holds r pdu msg \<longleftrightarrow>
     (\<exists>pdu'. r = Some (CE_NONE, pdu') \<and> pdu_rep pdu' msg \<and> pdu_max pdu' = pdu_max pdu)"

lemma enc_msg_ge_4: "4 \<le> length (enc_msg msg)"
  by (simp add: enc_msg_def)

lemma pdu_rep_max:
  assumes "pdu_rep pdu msg"
  shows "4 \<le> pdu_max pdu" "4 \<le> pdu_len pdu" "pdu_max pdu = length (pdu_buf pdu)" "pdu_max pdu < 2 ^ 63"
    "wf_msg msg" "pdu_len pdu \<le> pdu_max pdu" "pdu_len pdu = length (enc_msg msg)"
  using assms enc_msg_ge_4 [of msg] by (auto simp: pdu_rep_def)

lemma coap_set_version_rep:
  assumes rep: "pdu_rep pdu msg"
  shows "now_holds (coap_set_version pdu COAP_V1) pdu msg"
proof -
  note m = pdu_rep_max [OF rep] and wf = pdu_rep_wf [OF rep]
  obtain rest where b: "pdu_buf pdu = enc_msg msg @ rest" using rep by (rule pdu_rep_buf)
  have "(pdu_buf pdu)[0 := msg_first (m_type msg) (length (m_tok msg))] = pdu_buf pdu"
    using b by (simp add: enc_msg_def)
  with m wf pdu_rep_nth(1) [OF rep] b show ?thesis
    by (auto simp: coap_set_version_def now_holds_def msg_first_set_version intro!: pdu_repI)
qed

lemma coap_set_type_rep:
  assumes rep: "pdu_rep pdu msg" and t: "t < 4"
  shows "now_holds (coap_set_type pdu (word_of_nat t)) pdu (msg\<lparr>m_type := t\<rparr>)"
proof -
  note m = pdu_rep_max [OF rep] and wf = pdu_rep_wf [OF rep]
  obtain rest where b: "pdu_buf pdu = enc_msg msg @ rest" using rep by (rule pdu_rep_buf)
  have "(pdu_buf pdu)[0 := msg_first t (length (m_tok msg))] = enc_msg (msg\<lparr>m_type := t\<rparr>) @ rest"
    using b by (simp add: enc_msg_def)
  moreover have "length (enc_msg (msg\<lparr>m_type := t\<rparr>)) = length (enc_msg msg)" by (simp add: enc_msg_def)
  moreover have "wf_msg (msg\<lparr>m_type := t\<rparr>)" using m(5) t by (simp add: wf_msg_def)
  ultimately show ?thesis
    using m wf t pdu_rep_nth(1) [OF rep] b
    by (auto simp: coap_set_type_def now_holds_def msg_first_set_type intro!: pdu_repI)
qed

lemma coap_set_code_rep:
  assumes rep: "pdu_rep pdu msg"
  shows "now_holds (coap_set_code pdu code) pdu (msg\<lparr>m_code := code\<rparr>)"
proof -
  note m = pdu_rep_max [OF rep]
  obtain rest where b: "pdu_buf pdu = enc_msg msg @ rest" using rep by (rule pdu_rep_buf)
  have "(pdu_buf pdu)[1 := code] = enc_msg (msg\<lparr>m_code := code\<rparr>) @ rest"
    using b by (simp add: enc_msg_def)
  moreover have "length (enc_msg (msg\<lparr>m_code := code\<rparr>)) = length (enc_msg msg)" by (simp add: enc_msg_def)
  moreover have "wf_msg (msg\<lparr>m_code := code\<rparr>)" using m(5) by (simp add: wf_msg_def)
  ultimately show ?thesis
    using m b by (auto simp: coap_set_code_def now_holds_def intro!: pdu_repI)
qed

definition mid_hi :: "u16 \<Rightarrow> u8" where
  "mid_hi mid = ucast (drop_bit 8 mid)"

definition mid_lo :: "u16 \<Rightarrow> u8" where
  "mid_lo mid = ucast (mid AND 0xFF)"

lemma mid_join: "push_bit 8 (ucast (mid_hi mid)) OR ucast (mid_lo mid) = mid"
proof -
  have "(mid AND 0xFF) = take_bit 8 mid"
    by (simp add: take_bit_eq_mask mask_eq_exp_minus_1)
  then show ?thesis
    unfolding mid_hi_def mid_lo_def by (intro bit_word_eqI) (auto simp: bit_simps)
qed

lemma coap_set_mid_rep:
  assumes rep: "pdu_rep pdu msg"
  shows "now_holds (coap_set_mid pdu mid) pdu (msg\<lparr>m_id0 := mid_hi mid, m_id1 := mid_lo mid\<rparr>)"
proof -
  let ?msg = "msg\<lparr>m_id0 := mid_hi mid, m_id1 := mid_lo mid\<rparr>"
  note m = pdu_rep_max [OF rep]
  obtain rest where b: "pdu_buf pdu = enc_msg msg @ rest" using rep by (rule pdu_rep_buf)
  have "(pdu_buf pdu)[2 := mid_hi mid, 3 := mid_lo mid] = enc_msg ?msg @ rest"
    using b by (simp add: enc_msg_def)
  moreover have "length (enc_msg ?msg) = length (enc_msg msg)" by (simp add: enc_msg_def)
  moreover have "wf_msg ?msg" using m(5) by (simp add: wf_msg_def)
  ultimately show ?thesis
    using m b
    by (auto simp: coap_set_mid_def now_holds_def mid_hi_def [symmetric] mid_lo_def [symmetric]
        intro!: pdu_repI)
qed

lemma coap_get_mid_rep:
  assumes "pdu_rep pdu msg" and "m_id0 msg = mid_hi mid" and "m_id1 msg = mid_lo mid"
  shows "coap_get_mid pdu = Some mid"
  using assms pdu_rep_nth(3,4) [OF assms(1)] by (simp add: coap_get_mid_def mid_join)

subsection \<open>The token\<close>

text \<open>
  Replacing the token moves what follows it.  \<open>pre\<close> are the four header bytes, \<open>post\<close> the options and
  the payload.
\<close>

lemma token_overwrite:
  assumes b: "b = pre @ old @ post @ rest" and pre: "length pre = 4"
    and fits: "4 + length new + length post \<le> length b"
  shows "\<exists>rest'. Option.bind (memmove b (4 + length new) (4 + length old) (length post)) (\<lambda>b1. wrn b1 4 new) =
     Some (pre @ new @ post @ rest') \<and> length (pre @ new @ post @ rest') = length b"
proof -
  have "drop (4 + length old) b = post @ rest" using b pre by (simp flip: pre)
  then have "rdn b (4 + length old) (length post) = Some post"
    using b pre by (intro rdn_drop) auto
  then have "memmove b (4 + length new) (4 + length old) (length post) = Some (overwrite b (4 + length new) post)"
    using fits by (simp add: memmove_def overwrite_def)
  moreover have "wrn (overwrite b (4 + length new) post) 4 new = Some (overwrite b 4 (new @ post))"
    using fits overwrite_front [of "4 + length new" 4 new post b] by (subst wrn_overwrite) simp_all
  moreover have "overwrite b 4 (new @ post) = pre @ new @ post @ drop (4 + length (new @ post)) b"
    using b pre by (simp add: overwrite_def)
  moreover have "length (overwrite b 4 (new @ post)) = length b" using fits by simp
  ultimately show ?thesis by auto
qed

text \<open>Both branches of the code: nothing needs to be moved when the message is only a header.\<close>

lemma token_moved:
  assumes b: "b = pre @ old @ post @ rest" and pre: "length pre = 4" and len: "len = 4 + length old + length post"
    and fits: "4 + length new + length post \<le> length b"
  obtains b1 rest' where
    "(if 4 < len then memmove b (4 + length new) (4 + length old) (length post) else Some b) = Some b1"
    "wrn b1 4 new = Some (pre @ new @ post @ rest')" "length (pre @ new @ post @ rest') = length b"
proof (cases "4 < len")
  case True
  with token_overwrite [OF b pre fits] that show ?thesis by (auto simp: Option.bind_eq_Some_conv)
next
  case False
  with len have "post = []" "old = []" by auto
  with b fits have "wrn b 4 new = Some (pre @ new @ post @ drop (length new) rest)" "length new \<le> length rest"
    using pre by (simp_all add: wrn_def)
  with that [of b "drop (length new) rest"] False \<open>post = []\<close> \<open>old = []\<close> b show ?thesis by simp
qed

lemma coap_set_token_rep:
  assumes rep: "pdu_rep pdu msg" and k: "k \<le> 8"
    and fits: "length (enc_msg (msg\<lparr>m_tok := le_bytes k token\<rparr>)) \<le> pdu_max pdu"
  shows "now_holds (coap_set_token pdu token (word_of_nat k)) pdu (msg\<lparr>m_tok := le_bytes k token\<rparr>)"
proof -
  let ?msg = "msg\<lparr>m_tok := le_bytes k token\<rparr>" and ?new = "le_bytes k token" and ?old = "m_tok msg"
  define pre where "pre = [msg_first (m_type msg) (length ?old), m_code msg, m_id0 msg, m_id1 msg]"
  define post where "post = enc_opts 0 (m_opts msg) @ enc_pay (m_pay msg)"
  note m = pdu_rep_max [OF rep] and wf = pdu_rep_wf [OF rep]
  obtain rest where b: "pdu_buf pdu = pre @ ?old @ post @ rest"
    using rep by (rule pdu_rep_buf) (simp add: enc_msg_def pre_def post_def)
  obtain kw where kw: "coap_get_tkl pdu = Some kw" "unat kw = length ?old"
    using coap_get_tkl_rep [OF rep] by blast
  have uk: "unat (word_of_nat k :: u8) = k" using k by (intro unat_of_nat_u8) simp
  have pre4: "length pre = 4" by (simp add: pre_def)
  have len: "pdu_len pdu = 4 + length ?old + length post" using m(7) by (simp add: enc_msg_def post_def)
  have fit: "4 + length ?new + length post \<le> length (pdu_buf pdu)"
    using fits m(3) by (simp add: enc_msg_def post_def)
  have sub: "szsub (pdu_len pdu + k) (length ?old) = 4 + k + length post"
    "szsub (pdu_len pdu) (4 + length ?old) = length post"
    using len m(4,6) k by (simp_all add: szsub_le)
  obtain b1 rest' where b1: "(if 4 < pdu_len pdu
         then memmove (pdu_buf pdu) (4 + k) (4 + length ?old) (length post) else Some (pdu_buf pdu)) = Some b1"
    "wrn b1 4 ?new = Some (pre @ ?new @ post @ rest')" "length (pre @ ?new @ post @ rest') = length (pdu_buf pdu)"
    using token_moved [OF b pre4 len fit, unfolded length_le_bytes] by blast
  define c where "c = tl pre @ ?new @ post @ rest'"
  have w: "wrn b1 4 ?new = Some (msg_first (m_type msg) (length ?old) # c)" "Suc (length c) = length (pdu_buf pdu)"
    using b1(2,3) by (simp_all add: c_def pre_def)
  have c: "msg_first (m_type msg) k # c = enc_msg ?msg @ rest'"
    by (simp add: c_def enc_msg_def pre_def post_def)
  have "(word_of_nat k AND 0x0F) OR (msg_first (m_type msg) (length ?old) AND 0xF0) = msg_first (m_type msg) k"
    using wf k by (intro msg_first_set_tkl) auto
  then have "coap_set_token pdu token (word_of_nat k) =
      Some (CE_NONE, pdu\<lparr>pdu_buf := enc_msg ?msg @ rest', pdu_len := 4 + k + length post\<rparr>)"
    using m(3) k fit b1(1) w(1)
    by (cases "4 < pdu_len pdu")
      (simp_all add: coap_set_token_def Let_def kw uk sub word_less_nat_alt c del: unat_of_nat)
  moreover have "pdu_rep (pdu\<lparr>pdu_buf := enc_msg ?msg @ rest', pdu_len := 4 + k + length post\<rparr>) ?msg"
    using m(3-5) k w(2) c
    by (intro pdu_repI [where rest = rest'])
      (auto simp: wf_msg_def enc_msg_def post_def dest: arg_cong [where f = length])
  ultimately show ?thesis by (simp add: now_holds_def)
qed

subsection \<open>Starting a message\<close>

definition ping :: coap_msg where
  "ping = \<lparr>m_type = 3, m_code = 0, m_id0 = 0, m_id1 = 0, m_tok = [], m_opts = [], m_pay = []\<rparr>"

lemma coap_init_pdu_rep:
  assumes "pdu_max pdu = length (pdu_buf pdu)" "4 \<le> pdu_max pdu" "pdu_max pdu < 2 ^ 63"
  shows "now_holds (coap_init_pdu pdu) pdu ping"
proof -
  let ?rest = "drop 4 (pdu_buf pdu)"
  have z: "szsub (Suc 0) 0 = 1" by (simp add: szsub_def)
  have ne: "pdu_buf pdu \<noteq> []" using assms(1,2) by auto
  have w: "wrn (pdu_buf pdu) 0 (replicate 4 0) = Some (0 # 0 # 0 # 0 # ?rest)"
    using assms(1,2) by (simp add: wrn_def numeral_eq_Suc)
  have w0: "wrn bs 4 [] = Some bs" if "4 \<le> length bs" for bs :: "u8 list"
    using that by (simp add: wrn_def)
  have "coap_init_pdu pdu =
      Some (CE_NONE, pdu\<lparr>pdu_len := 4, pdu_buf := 0x70 # 0 # 0 # 0 # ?rest\<rparr>)"
    using assms
    by (simp add: coap_init_pdu_def w w0 coap_set_version_def coap_set_type_def coap_set_token_def
        coap_get_tkl_def coap_set_code_def coap_set_mid_def COAP_V1_def CT_RST_def CC_EMPTY_def
        rd_def wr_def Let_def z ne)
  then show ?thesis
    using assms
    by (auto simp: now_holds_def ping_def enc_msg_def msg_first_def enc_pay_def wf_msg_def
        intro!: pdu_repI [where rest = ?rest])
qed

subsection \<open>Option headers\<close>

lemma build_ext_enc:
  assumes "n < 65536" and "start \<le> p" and "p + length (opt_ext n) \<le> start + max_len"
    and "p + length (opt_ext n) \<le> length b"
  shows "build_ext b start max_len p (int n) =
     Some (Some (word_of_nat (opt_nib n), overwrite b p (opt_ext n), p + length (opt_ext n)))"
proof -
  consider "n < 13" | "13 \<le> n" "n < 269" | "269 \<le> n" by linarith
  then show ?thesis
  proof cases
    case 1
    then show ?thesis by (simp add: build_ext_def opt_ext_def opt_nib_def)
  next
    case 2
    then have e: "opt_ext n = [word_of_nat (n - 13)]" by (simp add: opt_ext_def)
    have "int n - 13 = int (n - 13)" using 2 by simp
    then have "word_of_int (int n - 13) = (word_of_nat (n - 13) :: u8)" by (simp only: of_int_of_nat_eq)
    with 2 e assms show ?thesis
      by (simp add: build_ext_def opt_nib_def wr_overwrite del: wr_in)
  next
    case 3
    define h l where "h = (n - 269) div 256" and "l = (n - 269) mod 256"
    then have e: "opt_ext n = [word_of_nat h, word_of_nat l]" using 3 by (simp add: opt_ext_def)
    have i: "int n - 269 = int (n - 269)" using 3 by simp
    have "(int n - 269) div 256 = int h" "(int n - 269) mod 256 = int l"
      unfolding i h_def l_def by (simp_all only: zdiv_int zmod_int of_nat_numeral)
    then have w: "word_of_int ((int n - 269) div 256) = (word_of_nat h :: u8)"
      "word_of_int ((int n - 269) mod 256) = (word_of_nat l :: u8)"
      by (simp_all only: of_int_of_nat_eq)
    have "wr b p (word_of_nat h) = Some (overwrite b p [word_of_nat h])"
      using assms e by (intro wr_overwrite) simp
    moreover have "wr (overwrite b p [word_of_nat h]) (p + 1) (word_of_nat l) = Some (overwrite b p (opt_ext n))"
      using assms e overwrite_overwrite [of "p + 1" p "[word_of_nat h]" "[word_of_nat l]" b]
      by (subst wr_overwrite) simp_all
    ultimately show ?thesis
      using 3 assms e w by (simp add: build_ext_def opt_nib_def del: wr_in)
  qed
qed

lemma coap_compute_option_header_len_enc:
  "coap_compute_option_header_len (int d) (int l) = length (enc_opt_hdr d l)"
  by (simp add: coap_compute_option_header_len_def length_enc_opt_hdr length_opt_ext)

lemma coap_build_option_header_enc:
  assumes d: "d < 65536" and l: "l < 65536" and room: "start + length (enc_opt_hdr d l) \<le> length b"
  shows "coap_build_option_header b start (length (enc_opt_hdr d l)) (int d) (int l) =
     Some (length (enc_opt_hdr d l), overwrite b start (enc_opt_hdr d l))"
proof -
  let ?k = "length (enc_opt_hdr d l)" and ?p1 = "start + 1 + length (opt_ext d)"
  have k: "?k = 1 + length (opt_ext d) + length (opt_ext l)" by (rule length_enc_opt_hdr)
  have "build_ext b start ?k (start + 1) (int d) =
      Some (Some (word_of_nat (opt_nib d), overwrite b (start + 1) (opt_ext d), ?p1))"
    using room k by (intro build_ext_enc [OF d]) auto
  moreover have "build_ext (overwrite b (start + 1) (opt_ext d)) start ?k ?p1 (int l) =
      Some (Some (word_of_nat (opt_nib l), overwrite b (start + 1) (opt_ext d @ opt_ext l), start + ?k))"
    using room k overwrite_overwrite [of ?p1 "start + 1" "opt_ext d" "opt_ext l" b]
    by (subst build_ext_enc [OF l]) (auto simp: ac_simps)
  moreover have "push_bit 4 (word_of_nat (opt_nib d)) OR word_of_nat (opt_nib l) = opt_first d l"
    using word_or_add [of "opt_nib l" 4 "opt_nib d", where 'a = 8] opt_nib_less [of l]
    by (simp add: opt_first_def)
  moreover have "wr (overwrite b (start + 1) (opt_ext d @ opt_ext l)) start (opt_first d l) =
      Some (overwrite b start (enc_opt_hdr d l))"
    using room k overwrite_front [of "start + 1" start "[opt_first d l]" "opt_ext d @ opt_ext l" b]
    by (subst wr_overwrite) (simp_all add: enc_opt_hdr_def)
  ultimately show ?thesis using k by (simp add: coap_build_option_header_def)
qed

subsection \<open>Adding an option at the end\<close>

lemma overwrite_at_end:
  assumes "b = xs @ rest" and "length ys \<le> length rest"
  shows "overwrite b (length xs) ys = xs @ ys @ drop (length ys) rest"
  using assms by (simp add: overwrite_def)

definition no_pay :: "coap_msg \<Rightarrow> coap_msg" where
  "no_pay msg = msg\<lparr>m_pay := []\<rparr>"

lemma enc_msg_no_pay: "enc_msg msg = enc_msg (no_pay msg) @ enc_pay (m_pay msg)"
  by (simp add: enc_msg_def no_pay_def enc_pay_def)

lemma enc_msg_add_option:
  assumes "last_num 0 (m_opts msg) \<le> n"
  shows "enc_msg (msg\<lparr>m_opts := m_opts msg @ [(n, v)]\<rparr>) =
     enc_msg (no_pay msg) @ (enc_opt_hdr (n - last_num 0 (m_opts msg)) (length v) @ v) @ enc_pay (m_pay msg)"
  using assms by (simp add: enc_msg_def no_pay_def enc_opts_append enc_pay_def)

lemma wf_opts_le_last: "wf_opts prev os \<Longrightarrow> \<forall>nv \<in> set os. fst nv \<le> last_num prev os"
proof (induction prev os rule: wf_opts.induct)
  case (2 prev n v os)
  then show ?case using last_num_ge [of n os] by auto
qed simp

lemma last_num_less: "wf_opts prev os \<Longrightarrow> prev < 65536 \<Longrightarrow> last_num prev os < 65536"
  by (induction prev os rule: wf_opts.induct) auto

lemma add_option_position:
  assumes rep: "pdu_rep pdu msg" and n: "last_num 0 (m_opts msg) \<le> n"
  shows "add_option_seek (pdu_buf pdu) (pdu_len pdu) (int n) (4 + length (m_tok msg)) 0 =
     Some (if m_pay msg = [] then CE_END_OF_PACKET else CE_FOUND_PAYLOAD_MARKER,
       length (enc_msg (no_pay msg)), word_of_nat (last_num 0 (m_opts msg)))"
proof -
  note m = pdu_rep_max [OF rep] and wf = pdu_rep_wf [OF rep]
  obtain rest where d: "drop (4 + length (m_tok msg)) (pdu_buf pdu) =
      enc_opts 0 (m_opts msg) @ enc_pay (m_pay msg) @ rest"
    using pdu_rep_drops [OF rep] by auto
  have "\<forall>nv \<in> set (m_opts msg). uint (word_of_nat (fst nv) :: u16) \<le> int n"
  proof
    fix nv assume "nv \<in> set (m_opts msg)"
    then have "fst nv \<le> n" using wf_opts_le_last [of 0 "m_opts msg"] wf n by fastforce
    moreover have "unat (word_of_nat (fst nv) :: u16) \<le> fst nv" by (simp add: unat_of_nat)
    moreover have "uint (word_of_nat (fst nv) :: u16) = int (unat (word_of_nat (fst nv) :: u16))" by simp
    ultimately show "uint (word_of_nat (fst nv) :: u16) \<le> int n" by linarith
  qed
  from add_option_walk.walk_enc [OF _ this d pdu_rep_len [OF rep] _ enc_pay_marker] wf m(4,6)
  show ?thesis by (simp add: enc_msg_def no_pay_def enc_pay_def)
qed

text \<open>
  A payload behind the options is slid up by the size \<open>k\<close> of the new option; the loop over the options
  behind the new one ends at once, at the payload marker.
\<close>

definition slide ::
  "u8 list \<Rightarrow> nat \<Rightarrow> nat \<Rightarrow> nat \<Rightarrow> nat \<Rightarrow> int \<Rightarrow> (u8 list \<times> nat) option" where
  "slide buf len ptr k max_len offset =
     (if len \<noteq> ptr then do {
        b \<leftarrow> memmove buf (ptr + k) ptr (szsub len ptr);
        let l1 = sz (len + k);
        let opts_len = szsub l1 ptr;
        (_, b', opts_len') \<leftarrow> coap_adjust_option_deltas b (ptr + k) opts_len max_len offset;
        Some (b', szsub (l1 + opts_len') (szsub l1 ptr))
      }
      else Some (buf, sz (len + k)))"

lemma slide_payload:
  assumes b: "buf = pre @ tail @ rest" and tail: "tail = [] \<or> hd tail = 0xFF"
    and k: "0 < k" "k \<le> length rest" and len: "length buf < 2 ^ 63"
  shows "slide buf (length (pre @ tail)) (length pre) k max_len offset =
     Some (overwrite buf (length pre + k) tail, length (pre @ tail) + k)"
proof (cases tail)
  case Nil
  with assms show ?thesis by (simp add: slide_def sz_id)
next
  case (Cons c t)
  with tail have c: "c = 0xFF" by simp
  let ?b = "overwrite buf (length pre + k) tail" and ?l = "length pre + length tail + k"
  have total: "?l < 2 ^ 63" using b k(2) len by simp
  have sizes: "szsub (length pre + length tail) (length pre) = length tail" "sz ?l = ?l"
    "szsub ?l (length pre) = length tail + k" "szsub (?l + (length tail + k)) (length tail + k) = ?l"
    using total by (simp_all add: szsub_le sz_id)
  have ne: "tail \<noteq> []" using Cons by simp
  have "rdn buf (length pre) (length tail) = Some tail" unfolding b by (rule rdn_append)
  then have mv: "memmove buf (length pre + k) (length pre) (length tail) = Some ?b"
    using b k(2) by (simp add: memmove_def wrn_overwrite del: wrn_in)
  have "drop (length pre + k) ?b = 0xFF # t @ drop (length pre + k + length tail) buf"
    using b k(2) Cons c by (simp add: overwrite_def)
  then have "coap_decode_option ?b (length pre + k) (length tail + k) 0 = Some (Inl CE_FOUND_PAYLOAD_MARKER)"
    using k(1) by (intro coap_decode_option_marker) auto
  then have "coap_adjust_option_deltas ?b (length pre + k) (length tail + k) max_len offset =
      Some (CE_NONE, ?b, length tail + k)"
    using total by (simp add: coap_adjust_option_deltas_def adjust_loop.simps szsub_le)
  with mv ne sizes show ?thesis by (simp add: slide_def)
qed

text \<open>
  What the code does to the buffer once it knows where the option goes: it makes room, writes the
  header and then the value.
\<close>

definition put_option ::
  "u8 list \<Rightarrow> nat \<Rightarrow> nat \<Rightarrow> nat \<Rightarrow> nat \<Rightarrow> int \<Rightarrow> int \<Rightarrow> u8 list \<Rightarrow> nat \<Rightarrow> (u8 list \<times> nat) option" where
  "put_option buf len ptr hdr_len max_len offset delta value vlen =
     do {
       (b1, len1) \<leftarrow> slide buf len ptr (hdr_len + vlen) max_len offset;
       (_, b2) \<leftarrow> coap_build_option_header b1 ptr hdr_len delta (int vlen);
       w \<leftarrow> rdn value 0 vlen;
       b3 \<leftarrow> wrn b2 (ptr + hdr_len) w;
       Some (b3, len1)
     }"

lemma put_option_appends:
  assumes b: "buf = pre @ tail @ rest" and tail: "tail = [] \<or> hd tail = 0xFF" and h: "h = enc_opt_hdr d (length v)"
    and dv: "d < 65536" "length v < 65536" and room: "length h + length v \<le> length rest" and len: "length buf < 2 ^ 63"
  shows "put_option buf (length (pre @ tail)) (length pre) (length h) max_len offset (int d) (v @ vs) (length v) =
     Some ((pre @ h @ v @ tail) @ drop (length h + length v) rest, length (pre @ h @ v @ tail))"
proof -
  let ?b1 = "overwrite buf (length pre + (length h + length v)) tail"
  have "slide buf (length (pre @ tail)) (length pre) (length h + length v) max_len offset =
      Some (?b1, length (pre @ h @ v @ tail))"
    using slide_payload [OF b tail _ room len] by (simp add: h enc_opt_hdr_def ac_simps)
  moreover have b1: "length ?b1 = length buf" using room b by simp
  moreover have "coap_build_option_header ?b1 (length pre) (length h) (int d) (int (length v)) =
      Some (length h, overwrite ?b1 (length pre) h)"
    unfolding h using dv room b b1 by (intro coap_build_option_header_enc) (auto simp: h)
  moreover have "wrn (overwrite ?b1 (length pre) h) (length pre + length h) v = Some (overwrite ?b1 (length pre) (h @ v))"
    using room b b1 overwrite_overwrite [of "length pre + length h" "length pre" h v ?b1]
    by (subst wrn_overwrite) simp_all
  moreover have "overwrite ?b1 (length pre) (h @ v) = (pre @ h @ v @ tail) @ drop (length h + length v) rest"
    using room b overwrite_front [of _ "length pre" "h @ v" tail buf] by (simp add: overwrite_def)
  ultimately show ?thesis by (simp add: put_option_def del: wrn_in)
qed

lemma coap_add_option_put:
  assumes rep: "pdu_rep pdu msg"
    and n: "last_num 0 (m_opts msg) \<le> n" "n < 65536" and v: "length v < 65536"
    and h: "h = enc_opt_hdr (n - last_num 0 (m_opts msg)) (length v)"
    and l: "l = length (enc_msg (msg\<lparr>m_opts := m_opts msg @ [(n, v)]\<rparr>))"
  shows "\<exists>max_len offset. coap_add_option pdu (int n) (v @ vs) (word_of_nat (length v)) =
     (if pdu_max pdu < l then Some (CE_INSUFFICIENT_BUFFER, pdu)
      else map_option (\<lambda>(b, len). (CE_NONE, pdu\<lparr>pdu_buf := b, pdu_len := len\<rparr>))
        (put_option (pdu_buf pdu) (pdu_len pdu) (length (enc_msg (no_pay msg))) (length h) max_len offset
          (int (n - last_num 0 (m_opts msg))) (v @ vs) (length v)))"
proof -
  let ?ln = "last_num 0 (m_opts msg)"
  note m = pdu_rep_max [OF rep] and wf = pdu_rep_wf [OF rep]
  obtain k where k: "coap_get_tkl pdu = Some k" "unat k = length (m_tok msg)"
    using coap_get_tkl_rep [OF rep] by blast
  have uv: "unat (word_of_nat (length v) :: u16) = length v" using v by (rule unat_of_nat_u16)
  have ul: "int n - uint (word_of_nat ?ln :: u16) = int (n - ?ln)"
    using n last_num_less [of 0 "m_opts msg"] wf unat_of_nat_u16 [of ?ln]
    by (simp add: unat_eq_nat_uint [symmetric] uint_nat del: unat_of_nat)
  have total: "sz (pdu_len pdu + length h + length v) = l"
    using m v length_enc_opt_hdr_le [of "n - ?ln" "length v"] enc_msg_no_pay [of msg]
    by (subst sz_id) (auto simp: l h enc_msg_add_option [OF n(1)])
  show ?thesis
    using k add_option_position [OF rep n(1)] uv ul coap_compute_option_header_len_enc [of "n - ?ln" "length v"] total
    by (intro exI [of _ "szsub (pdu_max pdu) (length (enc_msg (no_pay msg)))"]
        exI [of _ "uint (word_of_nat ?ln :: u16) - int n"])
      (auto simp add: coap_add_option_def put_option_def slide_def Let_def ac_simps h simp del: unat_of_nat
        split: bind_splits)
qed

lemma coap_add_option_rep:
  assumes rep: "pdu_rep pdu msg"
    and n: "last_num 0 (m_opts msg) \<le> n" "n < 65536" and v: "length v < 65536"
  shows "if length (enc_msg (msg\<lparr>m_opts := m_opts msg @ [(n, v)]\<rparr>)) \<le> pdu_max pdu
     then now_holds (coap_add_option pdu (int n) (v @ vs) (word_of_nat (length v))) pdu
       (msg\<lparr>m_opts := m_opts msg @ [(n, v)]\<rparr>)
     else coap_add_option pdu (int n) (v @ vs) (word_of_nat (length v)) = Some (CE_INSUFFICIENT_BUFFER, pdu)"
proof -
  let ?msg = "msg\<lparr>m_opts := m_opts msg @ [(n, v)]\<rparr>" and ?d = "n - last_num 0 (m_opts msg)"
  let ?h = "enc_opt_hdr ?d (length v)" and ?pre = "enc_msg (no_pay msg)" and ?tail = "enc_pay (m_pay msg)"
  note m = pdu_rep_max [OF rep] and enc = enc_msg_add_option [OF n(1), of v]
  obtain rest where b: "pdu_buf pdu = ?pre @ ?tail @ rest"
    using pdu_rep_buf [OF rep] enc_msg_no_pay [of msg] by (metis append.assoc)
  have len: "pdu_len pdu = length (?pre @ ?tail)" using m(7) enc_msg_no_pay [of msg] by simp
  obtain ml off where add: "coap_add_option pdu (int n) (v @ vs) (word_of_nat (length v)) =
      (if pdu_max pdu < length (enc_msg ?msg) then Some (CE_INSUFFICIENT_BUFFER, pdu)
       else map_option (\<lambda>(b, len). (CE_NONE, pdu\<lparr>pdu_buf := b, pdu_len := len\<rparr>))
         (put_option (pdu_buf pdu) (pdu_len pdu) (length ?pre) (length ?h) ml off (int ?d) (v @ vs) (length v)))"
    using coap_add_option_put [OF rep n v refl refl] by blast
  show ?thesis
  proof (cases "length (enc_msg ?msg) \<le> pdu_max pdu")
    case False
    then show ?thesis by (simp add: add)
  next
    case True
    have room: "length ?h + length v \<le> length rest" using True m(3) b by (simp add: enc)
    have "coap_add_option pdu (int n) (v @ vs) (word_of_nat (length v)) =
        Some (CE_NONE, pdu\<lparr>pdu_buf := enc_msg ?msg @ drop (length ?h + length v) rest,
          pdu_len := length (enc_msg ?msg)\<rparr>)"
      using True add put_option_appends [OF b enc_pay_marker refl _ v room, of ml off vs] m(3,4) n(2)
      by (simp add: len enc)
    moreover have "wf_msg ?msg" using m(5) n v by (simp add: wf_msg_def wf_opts_append)
    ultimately show ?thesis
      using True m(3,4) room b by (auto simp: now_holds_def enc intro!: pdu_repI)
  qed
qed

subsection \<open>The payload\<close>

lemma set_payload_position:
  assumes rep: "pdu_rep pdu msg"
  shows "set_payload_seek (pdu_buf pdu) (pdu_len pdu) (4 + length (m_tok msg)) 0 =
     Some (if m_pay msg = [] then CE_END_OF_PACKET else CE_FOUND_PAYLOAD_MARKER, length (enc_msg (no_pay msg)))"
proof -
  note m = pdu_rep_max [OF rep] and wf = pdu_rep_wf [OF rep]
  obtain rest where d: "drop (4 + length (m_tok msg)) (pdu_buf pdu) =
      enc_opts 0 (m_opts msg) @ enc_pay (m_pay msg) @ rest"
    using pdu_rep_drops [OF rep] by auto
  from set_payload_walk.walk_enc [OF _ _ d pdu_rep_len [OF rep] _ enc_pay_marker] wf m(4,6)
  show ?thesis by (simp add: enc_msg_def no_pay_def enc_pay_def)
qed

lemma coap_set_payload_rep:
  assumes rep: "pdu_rep pdu msg" and pay: "m_pay msg = []" and v: "v \<noteq> []" "length v < 2 ^ 62"
  shows "if length (enc_msg (msg\<lparr>m_pay := v\<rparr>)) \<le> pdu_max pdu
     then now_holds (coap_set_payload pdu (v @ vs) (length v)) pdu (msg\<lparr>m_pay := v\<rparr>)
     else coap_set_payload pdu (v @ vs) (length v) = Some (CE_INSUFFICIENT_BUFFER, pdu)"
proof -
  let ?msg = "msg\<lparr>m_pay := v\<rparr>"
  note m = pdu_rep_max [OF rep]
  obtain k where k: "coap_get_tkl pdu = Some k" "unat k = length (m_tok msg)"
    using coap_get_tkl_rep [OF rep] by blast
  obtain rest where b: "pdu_buf pdu = enc_msg msg @ rest" using rep by (rule pdu_rep_buf)
  have enc: "enc_msg ?msg = enc_msg msg @ 0xFF # v"
    using v(1) pay by (simp add: enc_msg_def enc_pay_def)
  have "no_pay msg = msg" using pay by (simp add: no_pay_def)
  then have seek: "set_payload_seek (pdu_buf pdu) (pdu_len pdu) (4 + length (m_tok msg)) 0 =
      Some (CE_END_OF_PACKET, pdu_len pdu)"
    using set_payload_position [OF rep] pay m(7) by simp
  have s: "sz (pdu_len pdu + length v + 1) = length (enc_msg ?msg)"
    "sz (pdu_len pdu + 1 + length v) = length (enc_msg ?msg)"
    using m v(2) by (subst sz_id; simp add: enc)+
  show ?thesis
  proof (cases "length (enc_msg ?msg) \<le> pdu_max pdu")
    case False
    with s(1) show ?thesis by (simp add: coap_set_payload_def k seek)
  next
    case True
    then have room: "Suc (length v) \<le> length rest" using m(3) b by (simp add: enc)
    have "wr (pdu_buf pdu) (pdu_len pdu) 0xFF = Some (overwrite (pdu_buf pdu) (pdu_len pdu) [0xFF])"
      using room b m(7) by (intro wr_overwrite) auto
    moreover have "wrn (overwrite (pdu_buf pdu) (pdu_len pdu) [0xFF]) (pdu_len pdu + 1) v =
        Some (enc_msg ?msg @ drop (Suc (length v)) rest)"
      using room b m(7) overwrite_overwrite [of "pdu_len pdu + 1" "pdu_len pdu" "[0xFF]" v "pdu_buf pdu"]
        overwrite_at_end [OF b, of "0xFF # v"]
      by (subst wrn_overwrite) (simp_all add: enc)
    ultimately have "coap_set_payload pdu (v @ vs) (length v) =
        Some (CE_NONE, pdu\<lparr>pdu_buf := enc_msg ?msg @ drop (Suc (length v)) rest,
          pdu_len := length (enc_msg ?msg)\<rparr>)"
      using True s by (simp add: coap_set_payload_def k seek del: wrn_in wr_in)
    moreover have "wf_msg ?msg" using m(5) by (simp add: wf_msg_def)
    ultimately show ?thesis
      using True m(3,4) room b by (auto simp: now_holds_def enc intro!: pdu_repI)
  qed
qed

text \<open>Setting a payload again, and setting an empty payload.\<close>

lemma coap_set_payload_again:
  assumes rep: "pdu_rep pdu msg" and pay: "m_pay msg \<noteq> []"
    and fits: "pdu_len pdu + length v \<le> pdu_max pdu"
  shows "\<exists>pdu'. coap_set_payload pdu (v @ vs) (length v) = Some (CE_NONE, pdu') \<and>
     take (pdu_len pdu') (pdu_buf pdu') = enc_msg (no_pay msg) @ v"
proof -
  note m = pdu_rep_max [OF rep]
  obtain k where k: "coap_get_tkl pdu = Some k" "unat k = length (m_tok msg)"
    using coap_get_tkl_rep [OF rep] by blast
  obtain rest where b: "pdu_buf pdu = enc_msg (no_pay msg) @ enc_pay (m_pay msg) @ rest"
    using rep by (rule pdu_rep_buf) (simp add: enc_msg_no_pay [of msg])
  have l: "length (enc_msg (no_pay msg)) \<le> pdu_len pdu" using m(7) by (simp add: enc_msg_no_pay [of msg])
  have s: "sz (pdu_len pdu + length v) = pdu_len pdu + length v"
    "sz (length (enc_msg (no_pay msg)) + length v) = length (enc_msg (no_pay msg)) + length v"
    using m fits l by (subst sz_id; simp)+
  have "wrn (pdu_buf pdu) (length (enc_msg (no_pay msg))) v =
      Some (overwrite (pdu_buf pdu) (length (enc_msg (no_pay msg))) v)"
    using fits l m(3) by (intro wrn_overwrite) simp
  then have "coap_set_payload pdu (v @ vs) (length v) =
      Some (CE_NONE, pdu\<lparr>pdu_buf := overwrite (pdu_buf pdu) (length (enc_msg (no_pay msg))) v,
        pdu_len := length (enc_msg (no_pay msg)) + length v\<rparr>)"
    using fits s set_payload_position [OF rep] pay
    by (simp add: coap_set_payload_def k del: wrn_in)
  moreover have "take (length (enc_msg (no_pay msg)) + length v)
      (overwrite (pdu_buf pdu) (length (enc_msg (no_pay msg))) v) = enc_msg (no_pay msg) @ v"
    using fits l m(3) b by (subst take_overwrite) simp_all
  ultimately show ?thesis by simp
qed

lemma coap_set_payload_empty:
  assumes rep: "pdu_rep pdu msg" and pay: "m_pay msg = []" and fits: "pdu_len pdu < pdu_max pdu"
  shows "\<exists>pdu'. coap_set_payload pdu vs 0 = Some (CE_NONE, pdu') \<and>
     take (pdu_len pdu') (pdu_buf pdu') = enc_msg msg @ [0xFF] \<and> pdu_len pdu' \<le> length (pdu_buf pdu') \<and>
     pdu_max pdu' = pdu_max pdu"
proof -
  note m = pdu_rep_max [OF rep]
  obtain k where k: "coap_get_tkl pdu = Some k" "unat k = length (m_tok msg)"
    using coap_get_tkl_rep [OF rep] by blast
  obtain rest where b: "pdu_buf pdu = enc_msg msg @ rest" using rep by (rule pdu_rep_buf)
  have "no_pay msg = msg" using pay by (simp add: no_pay_def)
  then have seek: "set_payload_seek (pdu_buf pdu) (pdu_len pdu) (4 + length (m_tok msg)) 0 =
      Some (CE_END_OF_PACKET, pdu_len pdu)"
    using set_payload_position [OF rep] pay m(7) by simp
  have s: "sz (Suc (pdu_len pdu)) = Suc (pdu_len pdu)" using m by (intro sz_id) simp
  have w: "wr (pdu_buf pdu) (pdu_len pdu) 0xFF = Some (overwrite (pdu_buf pdu) (pdu_len pdu) [0xFF])"
    using fits m(3) by (intro wr_overwrite) simp
  have "coap_set_payload pdu vs 0 =
      Some (CE_NONE, pdu\<lparr>pdu_buf := overwrite (pdu_buf pdu) (pdu_len pdu) [0xFF], pdu_len := Suc (pdu_len pdu)\<rparr>)"
    using fits s w m(3) by (simp add: coap_set_payload_def k seek wrn_overwrite del: wr_in wrn_in)
  moreover have "take (Suc (pdu_len pdu)) (overwrite (pdu_buf pdu) (pdu_len pdu) [0xFF]) = enc_msg msg @ [0xFF]"
    using take_overwrite [of "pdu_len pdu" "[0xFF]" "pdu_buf pdu"] fits m(3,7) b by (simp add: Suc_le_eq)
  ultimately show ?thesis using fits m(3) by simp
qed

lemma coap_set_payload_empty_full:
  assumes rep: "pdu_rep pdu msg" and pay: "m_pay msg = []" and full: "\<not> pdu_len pdu < pdu_max pdu"
  shows "coap_set_payload pdu vs 0 = Some (CE_INSUFFICIENT_BUFFER, pdu)"
proof -
  note m = pdu_rep_max [OF rep]
  obtain k where k: "coap_get_tkl pdu = Some k" "unat k = length (m_tok msg)"
    using coap_get_tkl_rep [OF rep] by blast
  have "no_pay msg = msg" using pay by (simp add: no_pay_def)
  then have seek: "set_payload_seek (pdu_buf pdu) (pdu_len pdu) (4 + length (m_tok msg)) 0 =
      Some (CE_END_OF_PACKET, pdu_len pdu)"
    using set_payload_position [OF rep] pay m(7) by simp
  have "sz (Suc (pdu_len pdu)) = Suc (pdu_len pdu)" using m by (intro sz_id) simp
  with full show ?thesis by (simp add: coap_set_payload_def k seek)
qed

subsection \<open>The interface of the message writer\<close>

text \<open>
  What a client of the library relies on when it builds a request in a fresh buffer: each call
  refines an update of the abstract message, as long as the message fits.  The lemma of the
  locale is the sequence of calls in \<open>CoapClient\<close>.
\<close>

locale message_writer =
  fixes rep :: "'p \<Rightarrow> nat \<Rightarrow> coap_msg \<Rightarrow> bool"
    and empty :: "'p \<Rightarrow> nat \<Rightarrow> bool"
    and init :: "'p \<Rightarrow> (coap_error \<times> 'p) option"
    and set_version :: "'p \<Rightarrow> u8 \<Rightarrow> (coap_error \<times> 'p) option"
    and set_type :: "'p \<Rightarrow> u8 \<Rightarrow> (coap_error \<times> 'p) option"
    and set_code :: "'p \<Rightarrow> u8 \<Rightarrow> (coap_error \<times> 'p) option"
    and set_mid :: "'p \<Rightarrow> u16 \<Rightarrow> (coap_error \<times> 'p) option"
    and set_token :: "'p \<Rightarrow> u64 \<Rightarrow> u8 \<Rightarrow> (coap_error \<times> 'p) option"
    and add_option :: "'p \<Rightarrow> int \<Rightarrow> u8 list \<Rightarrow> u16 \<Rightarrow> (coap_error \<times> 'p) option"
    and set_payload :: "'p \<Rightarrow> u8 list \<Rightarrow> nat \<Rightarrow> (coap_error \<times> 'p) option"
  assumes init_law: "empty p c \<Longrightarrow> 4 \<le> c \<Longrightarrow> \<exists>p'. init p = Some (CE_NONE, p') \<and> rep p' c ping"
    and version_law: "rep p c msg \<Longrightarrow> \<exists>p'. set_version p COAP_V1 = Some (CE_NONE, p') \<and> rep p' c msg"
    and type_law: "rep p c msg \<Longrightarrow> t < 4 \<Longrightarrow>
      \<exists>p'. set_type p (word_of_nat t) = Some (CE_NONE, p') \<and> rep p' c (msg\<lparr>m_type := t\<rparr>)"
    and code_law: "rep p c msg \<Longrightarrow>
      \<exists>p'. set_code p code = Some (CE_NONE, p') \<and> rep p' c (msg\<lparr>m_code := code\<rparr>)"
    and mid_law: "rep p c msg \<Longrightarrow>
      \<exists>p'. set_mid p mid = Some (CE_NONE, p') \<and> rep p' c (msg\<lparr>m_id0 := mid_hi mid, m_id1 := mid_lo mid\<rparr>)"
    and token_law: "rep p c msg \<Longrightarrow> k \<le> 8 \<Longrightarrow>
      length (enc_msg (msg\<lparr>m_tok := le_bytes k token\<rparr>)) \<le> c \<Longrightarrow>
      \<exists>p'. set_token p token (word_of_nat k) = Some (CE_NONE, p') \<and> rep p' c (msg\<lparr>m_tok := le_bytes k token\<rparr>)"
    and option_law: "rep p c msg \<Longrightarrow> last_num 0 (m_opts msg) \<le> n \<Longrightarrow> n < 65536 \<Longrightarrow>
      length v < 65536 \<Longrightarrow>
      (if length (enc_msg (msg\<lparr>m_opts := m_opts msg @ [(n, v)]\<rparr>)) \<le> c
       then \<exists>p'. add_option p (int n) (v @ vs) (word_of_nat (length v)) = Some (CE_NONE, p') \<and>
              rep p' c (msg\<lparr>m_opts := m_opts msg @ [(n, v)]\<rparr>)
       else add_option p (int n) (v @ vs) (word_of_nat (length v)) = Some (CE_INSUFFICIENT_BUFFER, p))"
    and payload_law: "rep p c msg \<Longrightarrow> m_pay msg = [] \<Longrightarrow> v \<noteq> [] \<Longrightarrow> length v < 2 ^ 62 \<Longrightarrow>
      (if length (enc_msg (msg\<lparr>m_pay := v\<rparr>)) \<le> c
       then \<exists>p'. set_payload p (v @ vs) (length v) = Some (CE_NONE, p') \<and> rep p' c (msg\<lparr>m_pay := v\<rparr>)
       else set_payload p (v @ vs) (length v) = Some (CE_INSUFFICIENT_BUFFER, p))"
begin

lemma header_built:
  assumes "empty p c" and "6 \<le> c" and "t < 4"
  shows "\<exists>p'. do {
      (_, p1) \<leftarrow> init p;
      (_, p2) \<leftarrow> set_version p1 COAP_V1;
      (_, p3) \<leftarrow> set_type p2 (word_of_nat t);
      (_, p4) \<leftarrow> set_code p3 code;
      (_, p5) \<leftarrow> set_mid p4 mid;
      (_, p6) \<leftarrow> set_token p5 token 2;
      Some p6
    } = Some p' \<and>
    rep p' c \<lparr>m_type = t, m_code = code, m_id0 = mid_hi mid, m_id1 = mid_lo mid,
              m_tok = le_bytes 2 token, m_opts = [], m_pay = []\<rparr>"
proof -
  obtain p1 where 1: "init p = Some (CE_NONE, p1)" "rep p1 c ping"
    using init_law [of p c] assms by auto
  obtain p2 where 2: "set_version p1 COAP_V1 = Some (CE_NONE, p2)" "rep p2 c ping"
    using version_law [OF 1(2)] by blast
  obtain p3 where 3: "set_type p2 (word_of_nat t) = Some (CE_NONE, p3)" "rep p3 c (ping\<lparr>m_type := t\<rparr>)"
    using type_law [OF 2(2) assms(3)] by blast
  obtain p4 where 4: "set_code p3 code = Some (CE_NONE, p4)" "rep p4 c (ping\<lparr>m_type := t, m_code := code\<rparr>)"
    using code_law [OF 3(2)] by blast
  let ?m = "ping\<lparr>m_type := t, m_code := code, m_id0 := mid_hi mid, m_id1 := mid_lo mid\<rparr>"
  obtain p5 where 5: "set_mid p4 mid = Some (CE_NONE, p5)" "rep p5 c ?m"
    using mid_law [OF 4(2)] by blast
  have "length (enc_msg (?m\<lparr>m_tok := le_bytes 2 token\<rparr>)) \<le> c"
    using assms(2) by (simp add: enc_msg_def ping_def enc_pay_def)
  with token_law [OF 5(2), of 2 token] obtain p6 where
    6: "set_token p5 token 2 = Some (CE_NONE, p6)" "rep p6 c (?m\<lparr>m_tok := le_bytes 2 token\<rparr>)"
    by auto
  show ?thesis using 1 2 3 4 5 6 by (simp add: ping_def)
qed

end

interpretation pico: message_writer "\<lambda>pdu c msg. pdu_rep pdu msg \<and> pdu_max pdu = c"
  "\<lambda>pdu c. pdu_max pdu = length (pdu_buf pdu) \<and> pdu_max pdu = c \<and> c < 2 ^ 63"
  coap_init_pdu coap_set_version coap_set_type coap_set_code coap_set_mid coap_set_token
  coap_add_option coap_set_payload
proof (unfold_locales, goal_cases)
  case (1 p c)
  then show ?case using coap_init_pdu_rep [of p] by (auto simp: now_holds_def)
next
  case (2 p c msg)
  then show ?case using coap_set_version_rep [of p msg] by (auto simp: now_holds_def)
next
  case (3 p c msg t)
  then show ?case using coap_set_type_rep [of p msg t] by (auto simp: now_holds_def)
next
  case (4 p c msg code)
  then show ?case using coap_set_code_rep [of p msg code] by (auto simp: now_holds_def)
next
  case (5 p c msg mid)
  then show ?case using coap_set_mid_rep [of p msg mid] by (auto simp: now_holds_def)
next
  case (6 p c msg k token)
  then show ?case using coap_set_token_rep [of p msg k token] by (auto simp: now_holds_def)
next
  case (7 p c msg n v vs)
  then show ?case using coap_add_option_rep [of p msg n v vs] by (auto simp: now_holds_def split: if_splits)
next
  case (8 p c msg v vs)
  then show ?case using coap_set_payload_rep [of p msg v vs] by (auto simp: now_holds_def split: if_splits)
qed

subsection \<open>Properties\<close>

text \<open>
  C21. Adding an option in order: when the new option number is not below the last one, the call appends
  exactly that option to the options of the message, in front of the payload if there is one, and the
  buffer holds the encoding of the longer message; when that does not fit, the call says so and
  changes nothing.
\<close>

theorem coap_add_option_appends:
  assumes "pdu_rep pdu msg" and "last_num 0 (m_opts msg) \<le> n" "n < 65536" and "length v < 65536"
  shows "if length (enc_msg (msg\<lparr>m_opts := m_opts msg @ [(n, v)]\<rparr>)) \<le> pdu_max pdu
     then \<exists>pdu'. coap_add_option pdu (int n) v (word_of_nat (length v)) = Some (CE_NONE, pdu') \<and>
            pdu_rep pdu' (msg\<lparr>m_opts := m_opts msg @ [(n, v)]\<rparr>) \<and> pdu_max pdu' = pdu_max pdu
     else coap_add_option pdu (int n) v (word_of_nat (length v)) = Some (CE_INSUFFICIENT_BUFFER, pdu)"
  using coap_add_option_rep [OF assms, of "[]"] by (simp only: append_Nil2 now_holds_def)

theorem coap_add_option_appends_witness:
  "\<exists>pdu'. coap_add_option (pdu_of ping) 11 (bytes ''a'') 1 = Some (CE_NONE, pdu') \<and>
     pdu_rep pdu' (ping\<lparr>m_opts := [(11, bytes ''a'')]\<rparr>)"
proof -
  have "wf_msg ping" "length (enc_msg ping) = 4"
    by (simp_all add: wf_msg_def ping_def enc_msg_def enc_pay_def)
  moreover have "length (enc_msg (ping\<lparr>m_opts := [(11, bytes ''a'')]\<rparr>)) = 6"
    by (simp add: ping_def enc_msg_def enc_pay_def enc_opt_hdr_def opt_ext_def)
  moreover have "m_opts ping = []" "m_pay ping = []" by (simp_all add: ping_def)
  ultimately show ?thesis
    using coap_add_option_appends [OF pdu_of_rep, of ping 11 "bytes ''a''"] by (auto simp: pdu_of_def)
qed

text \<open>
  C22. Setting the payload of a message that has none.  For a payload that is not empty the buffer then
  holds the encoding of the message with that payload, or the call reports that it does not fit and
  changes nothing.  For an empty payload the call does not leave the message as it is: it appends a
  payload marker without payload, which no encoding has, or reports that there is no room for the marker.
\<close>

theorem coap_set_payload_sets:
  assumes "pdu_rep pdu msg" and "m_pay msg = []" and "length v < 2 ^ 62"
  shows "(v \<noteq> [] \<longrightarrow>
       (if length (enc_msg (msg\<lparr>m_pay := v\<rparr>)) \<le> pdu_max pdu
        then \<exists>pdu'. coap_set_payload pdu v (length v) = Some (CE_NONE, pdu') \<and>
               pdu_rep pdu' (msg\<lparr>m_pay := v\<rparr>) \<and> pdu_max pdu' = pdu_max pdu
        else coap_set_payload pdu v (length v) = Some (CE_INSUFFICIENT_BUFFER, pdu))) \<and>
     (v = [] \<longrightarrow>
       (if pdu_len pdu < pdu_max pdu
        then \<exists>pdu'. coap_set_payload pdu v (length v) = Some (CE_NONE, pdu') \<and>
               take (pdu_len pdu') (pdu_buf pdu') = enc_msg msg @ [0xFF] \<and> pdu_max pdu' = pdu_max pdu
        else coap_set_payload pdu v (length v) = Some (CE_INSUFFICIENT_BUFFER, pdu)))"
proof (cases "v = []")
  case True
  with coap_set_payload_empty [OF assms(1,2), of v] coap_set_payload_empty_full [OF assms(1,2), of v] show ?thesis
    by (cases "pdu_len pdu < pdu_max pdu") auto
next
  case False
  with coap_set_payload_rep [OF assms(1,2) False assms(3), of "[]"] show ?thesis
    by (simp only: append_Nil2 now_holds_def) simp
qed

theorem coap_set_payload_sets_witness:
  "(\<exists>pdu'. coap_set_payload (pdu_of ping) (bytes ''hi'') 2 = Some (CE_NONE, pdu') \<and>
     pdu_rep pdu' (ping\<lparr>m_pay := bytes ''hi''\<rparr>)) \<and>
   (\<exists>pdu'. coap_set_payload (pdu_of ping) [] 0 = Some (CE_NONE, pdu') \<and>
     take (pdu_len pdu') (pdu_buf pdu') = enc_msg ping @ [0xFF])"
proof -
  have ne: "bytes ''hi'' \<noteq> []" by (simp add: bytes_def)
  have p: "wf_msg ping" "length (enc_msg ping) = 4"
    by (simp_all add: wf_msg_def ping_def enc_msg_def enc_pay_def)
  have l: "length (enc_msg (ping\<lparr>m_pay := bytes ''hi''\<rparr>)) = 7"
    using ne by (simp add: ping_def enc_msg_def enc_pay_def)
  have m: "m_pay ping = []" "length (bytes ''hi'') = 2" by (simp_all add: ping_def)
  have rep: "pdu_rep (pdu_of ping) ping" using p by (intro pdu_of_rep) simp_all
  have room: "pdu_len (pdu_of ping) < pdu_max (pdu_of ping)" "7 \<le> pdu_max (pdu_of ping)"
    using p(2) by (simp_all add: pdu_of_def)
  have "\<exists>pdu'. coap_set_payload (pdu_of ping) (bytes ''hi'') 2 = Some (CE_NONE, pdu') \<and>
     pdu_rep pdu' (ping\<lparr>m_pay := bytes ''hi''\<rparr>)"
    using coap_set_payload_sets [OF rep m(1), of "bytes ''hi''", unfolded m(2) l] ne room(2) by auto
  moreover have "\<exists>pdu'. coap_set_payload (pdu_of ping) [] 0 = Some (CE_NONE, pdu') \<and>
     take (pdu_len pdu') (pdu_buf pdu') = enc_msg ping @ [0xFF]"
    using coap_set_payload_sets [OF rep m(1), of "[]"] room(1) by auto
  ultimately show ?thesis ..
qed

text \<open>
  Setting a payload on a message that already has one destroys the message: the new bytes are
  written over the payload marker, so that they follow the options without a marker; and setting
  an empty payload leaves a payload marker with nothing behind it.
\<close>

lemma coap_set_payload_marker:
  assumes "pdu_rep pdu msg" and "pdu_len pdu + length v < pdu_max pdu"
  shows "\<exists>pdu'. (m_pay msg \<noteq> [] \<longrightarrow> coap_set_payload pdu v (length v) = Some (CE_NONE, pdu') \<and>
            take (pdu_len pdu') (pdu_buf pdu') = enc_msg (msg\<lparr>m_pay := []\<rparr>) @ v) \<and>
         (m_pay msg = [] \<longrightarrow> coap_set_payload pdu v 0 = Some (CE_NONE, pdu') \<and>
            take (pdu_len pdu') (pdu_buf pdu') = enc_msg msg @ [0xFF])"
proof (cases "m_pay msg = []")
  case True
  with coap_set_payload_empty [OF assms(1), of v] assms(2) show ?thesis by auto
next
  case False
  with coap_set_payload_again [OF assms(1), of v "[]"] assms(2) show ?thesis by (auto simp: no_pay_def)
qed

lemma coap_set_payload_marker_witness:
  "\<exists>pdu'. coap_set_payload (pdu_of ex_msg) (bytes ''y'') 1 = Some (CE_NONE, pdu') \<and>
     take (pdu_len pdu') (pdu_buf pdu') = enc_msg (ex_msg\<lparr>m_pay := []\<rparr>) @ bytes ''y''"
proof -
  have "m_pay ex_msg \<noteq> []" by (simp add: ex_msg_def bytes_def)
  then show ?thesis
    using coap_set_payload_marker [OF ex_pdu_rep, of "bytes ''y''"] ex_msg_length by (auto simp: pdu_of_def)
qed

text \<open>
  C29. A token set is the token read: replacing the token of a message, whatever options and payload
  follow it, gives the message with the new token, from which \<open>coap_get_token\<close> reads the low \<open>8 * k\<close>
  bits of the number that was set.
\<close>

theorem coap_set_get_token:
  assumes "pdu_rep pdu msg" and "k \<le> 8"
    and "length (enc_msg (msg\<lparr>m_tok := le_bytes k token\<rparr>)) \<le> pdu_max pdu"
  shows "\<exists>pdu'. coap_set_token pdu token (word_of_nat k) = Some (CE_NONE, pdu') \<and>
     pdu_rep pdu' (msg\<lparr>m_tok := le_bytes k token\<rparr>) \<and>
     coap_get_token pdu' = Some (take_bit (8 * k) token)"
proof -
  obtain pdu' where p: "coap_set_token pdu token (word_of_nat k) = Some (CE_NONE, pdu')"
    "pdu_rep pdu' (msg\<lparr>m_tok := le_bytes k token\<rparr>)"
    using coap_set_token_rep [OF assms] by (auto simp: now_holds_def)
  obtain kw where kw: "coap_get_tkl pdu' = Some kw" "unat kw = k"
    using coap_get_tkl_rep [OF p(2)] by auto
  obtain rest where "drop 4 (pdu_buf pdu') = le_bytes k token @ rest" using pdu_rep_drops [OF p(2)] by auto
  moreover have len: "4 + k \<le> pdu_len pdu'" "pdu_len pdu' \<le> length (pdu_buf pdu')"
    using pdu_rep_len [OF p(2)] p(2) by (auto simp: pdu_rep_def)
  ultimately have "rdn (pdu_buf pdu') 4 (length (le_bytes k token)) = Some (le_bytes k token)"
    by (intro rdn_drop) auto
  with p kw len assms(2) show ?thesis by (simp add: coap_get_token_def le_word_le_bytes)
qed

theorem coap_set_get_token_witness:
  "\<exists>pdu'. coap_set_token (pdu_of ex_msg) 0x123456 3 = Some (CE_NONE, pdu') \<and>
     coap_get_token pdu' = Some 0x123456"
proof -
  have "length (enc_msg (ex_msg\<lparr>m_tok := le_bytes 3 0x123456\<rparr>)) \<le> pdu_max (pdu_of ex_msg)"
    using ex_msg_length by (simp add: enc_msg_def ex_msg_def pdu_of_def)
  from coap_set_get_token [OF ex_pdu_rep _ this] show ?thesis by (simp add: take_bit_eq_mask mask_eq_exp_minus_1) blast
qed

lemma in_front_seek: "add_option_seek [0x40, 1, 0, 7, 0xB1, 0x61, 0x01, 0x62, 0, 0, 0, 0] 8 3 4 0 = Some (CE_NONE, 4, 0)"
  by (simp add: add_option_seek.simps coap_decode_option_def decode_ext_def rd_def szsub_def)

lemma in_front_adjust: "coap_adjust_option_deltas [0x40, 1, 0, 7, 0xB1, 0x61, 0xB1, 0x61, 0x01, 0x62, 0, 0] 6 6 8 (- 3) =
   Some (CE_NONE, [0x40, 1, 0, 7, 0xB1, 0x61, 0x81, 0x61, 0x81, 0x62, 0x80, 0x80], 6)"
  by (simp add: coap_adjust_option_deltas_def adjust_loop.simps coap_decode_option_def decode_ext_def rd_def szsub_def
    coap_compute_option_header_len_def coap_build_option_header_def build_ext_def wr_def Let_def)

text \<open>
  Inserting an option in front of others damages those behind the next one: a Uri-Host option (3)
  added to a message with the path segments a and b leaves a message whose second segment has
  become option 19.
\<close>

lemma coap_add_option_in_front:
  "\<exists>pdu'. coap_add_option
       \<lparr>pdu_buf = [0x40, 1, 0, 7, 0xB1, 0x61, 0x01, 0x62, 0, 0, 0, 0], pdu_len = 8, pdu_max = 12\<rparr>
       3 [0x68] 1 = Some (CE_NONE, pdu') \<and>
     take (pdu_len pdu') (pdu_buf pdu') =
       enc_msg \<lparr>m_type = 0, m_code = 1, m_id0 = 0, m_id1 = 7, m_tok = [],
         m_opts = [(3, [0x68]), (11, [0x61]), (19, [0x62])], m_pay = []\<rparr>"
  by (simp add: coap_add_option_def coap_get_tkl_def in_front_seek in_front_adjust
      coap_compute_option_header_len_def
      coap_build_option_header_def build_ext_def memmove_def rdn_def wrn_def rd_def wr_def szsub_def sz_def
      enc_msg_def msg_first_def enc_opt_hdr_def opt_first_def opt_nib_def opt_ext_def enc_pay_def)

end
