(* ===== verification/Microcoap.thy ===== *)
theory Microcoap
  imports Gateway_Prelude
begin

section \<open>The CoAP parser and builder of the server: coapServer/microcoap.c\<close>

text \<open>
  The parser keeps pointers into the received buffer and copies nothing; the builder follows such
  pointers while it writes another (or the same) buffer.  The model therefore has an explicit
  memory: a map from regions (the arrays of the program) to their bytes, and pointers that are
  NULL or a region with an offset.  Reads and writes outside a region are \<open>None\<close>.

  Comparisons of pointers into one buffer are comparisons of offsets; an offset past the end of
  the region is harmless until it is dereferenced, as on the flat memory of the target.
\<close>

datatype 'r ptr = NULL | Ptr 'r nat

type_synonym 'r mem = "'r \<Rightarrow> u8 list"

subsection \<open>Data\<close>

record coap_header_t =
  h_ver :: u8
  h_t :: u8
  h_tkl :: u8
  h_code :: u8
  h_id0 :: u8
  h_id1 :: u8

record 'r coap_buffer_t =
  b_p :: "'r ptr"
  b_len :: nat

record 'r coap_option_t =
  o_num :: u8
  o_buf :: "'r coap_buffer_t"

record 'r coap_packet_t =
  p_hdr :: coap_header_t
  p_tok :: "'r coap_buffer_t"
  p_numopts :: u8
  p_opts :: "'r coap_option_t list"
  p_payload :: "'r coap_buffer_t"

definition MAXOPT :: u8 where
  "MAXOPT = 16"

datatype coap_error_t =
    COAP_ERR_NONE
  | COAP_ERR_HEADER_TOO_SHORT
  | COAP_ERR_VERSION_NOT_1
  | COAP_ERR_TOKEN_TOO_SHORT
  | COAP_ERR_OPTION_TOO_SHORT_FOR_HEADER
  | COAP_ERR_OPTION_TOO_SHORT
  | COAP_ERR_OPTION_OVERRUNS_PACKET
  | COAP_ERR_OPTION_TOO_BIG
  | COAP_ERR_OPTION_LEN_INVALID
  | COAP_ERR_BUFFER_TOO_SMALL
  | COAP_ERR_UNSUPPORTED
  | COAP_ERR_OPTION_DELTA_INVALID

definition COAP_OPTION_URI_PATH :: u8 where
  "COAP_OPTION_URI_PATH = 11"

definition COAP_OPTION_CONTENT_FORMAT :: u8 where
  "COAP_OPTION_CONTENT_FORMAT = 12"

definition COAP_TYPE_ACK :: u8 where
  "COAP_TYPE_ACK = 2"

definition MAKE_RSPCODE :: "u8 \<Rightarrow> u8 \<Rightarrow> u8" where
  "MAKE_RSPCODE clas det = push_bit 5 clas OR det"

definition COAP_RSPCODE_CONTENT :: u8 where
  "COAP_RSPCODE_CONTENT = MAKE_RSPCODE 2 5"

definition COAP_RSPCODE_NOT_FOUND :: u8 where
  "COAP_RSPCODE_NOT_FOUND = MAKE_RSPCODE 4 4"

definition COAP_RSPCODE_BAD_REQUEST :: u8 where
  "COAP_RSPCODE_BAD_REQUEST = MAKE_RSPCODE 4 0"

definition COAP_RSPCODE_CHANGED :: u8 where
  "COAP_RSPCODE_CHANGED = MAKE_RSPCODE 2 4"

definition COAP_CONTENTTYPE_NONE :: int where
  "COAP_CONTENTTYPE_NONE = -1"

definition COAP_CONTENTTYPE_TEXT_PLAIN :: int where
  "COAP_CONTENTTYPE_TEXT_PLAIN = 0"

definition COAP_CONTENTTYPE_APPLICATION_LINKFORMAT :: int where
  "COAP_CONTENTTYPE_APPLICATION_LINKFORMAT = 40"

subsection \<open>Memory accesses through pointers\<close>

definition load_n :: "'r mem \<Rightarrow> 'r ptr \<Rightarrow> nat \<Rightarrow> u8 list option" where
  "load_n m p n =
     (if n = 0 then Some []
      else (case p of NULL \<Rightarrow> None | Ptr r i \<Rightarrow> rdn (m r) i n))"

definition store_n :: "'r mem \<Rightarrow> 'r \<Rightarrow> nat \<Rightarrow> u8 list \<Rightarrow> 'r mem option" where
  "store_n m r i ys = map_option (\<lambda>b. m(r := b)) (wrn (m r) i ys)"

subsection \<open>Parsing\<close>

text \<open>
  \<open>buf\<close> is the start of region \<open>r\<close>.  The out-parameters of the C functions are returned beside the
  code; what they held before the call is an argument, since an early return leaves them alone.
\<close>

definition coap_parseHeader ::
  "'r mem \<Rightarrow> coap_header_t \<Rightarrow> 'r \<Rightarrow> nat \<Rightarrow> (coap_error_t \<times> coap_header_t) option" where
  "coap_parseHeader m hdr r buflen =
     (if buflen < 4 then Some (COAP_ERR_HEADER_TOO_SHORT, hdr)
      else do {
        b0 \<leftarrow> rd (m r) 0;
        let hdr1 = hdr\<lparr>h_ver := drop_bit 6 (b0 AND 0xC0)\<rparr>;
        if h_ver hdr1 \<noteq> 1 then Some (COAP_ERR_VERSION_NOT_1, hdr1)
        else do {
          b1 \<leftarrow> rd (m r) 1;
          b2 \<leftarrow> rd (m r) 2;
          b3 \<leftarrow> rd (m r) 3;
          Some (COAP_ERR_NONE,
            hdr1\<lparr>h_t := drop_bit 4 (b0 AND 0x30), h_tkl := b0 AND 0x0F, h_code := b1,
                 h_id0 := b2, h_id1 := b3\<rparr>)
        }
      })"

definition coap_parseToken ::
  "'r coap_buffer_t \<Rightarrow> coap_header_t \<Rightarrow> 'r \<Rightarrow> nat \<Rightarrow> coap_error_t \<times> 'r coap_buffer_t" where
  "coap_parseToken tokbuf hdr r buflen =
     (if h_tkl hdr = 0 then (COAP_ERR_NONE, \<lparr>b_p = NULL, b_len = 0\<rparr>)
      else if h_tkl hdr \<le> 8 then
        (if 4 + unat (h_tkl hdr) > buflen then (COAP_ERR_TOKEN_TOO_SHORT, tokbuf)
         else (COAP_ERR_NONE, \<lparr>b_p = Ptr r 4, b_len = unat (h_tkl hdr)\<rparr>))
      else (COAP_ERR_TOKEN_TOO_SHORT, tokbuf))"

text \<open>
  The code for an extended delta and the code for an extended length of an option differ only
  in the error for the reserved value 15; \<open>parse_ext_field\<close> is that code.  It returns the error,
  or the value with the advanced \<open>headlen\<close> and \<open>p\<close>.
\<close>

definition parse_ext_field ::
  "u8 list \<Rightarrow> nat \<Rightarrow> nat \<Rightarrow> nat \<Rightarrow> u16 \<Rightarrow> coap_error_t
     \<Rightarrow> (coap_error_t + u16 \<times> nat \<times> nat) option" where
  "parse_ext_field b p headlen buflen v inval =
     (if v = 13 then
        (if buflen < headlen + 1 then Some (Inl COAP_ERR_OPTION_TOO_SHORT_FOR_HEADER)
         else do {
           x \<leftarrow> rd b (p + 1);
           Some (Inr (ucast x + 13, headlen + 1, p + 1))
         })
      else if v = 14 then
        (if buflen < headlen + 2 then Some (Inl COAP_ERR_OPTION_TOO_SHORT_FOR_HEADER)
         else do {
           x \<leftarrow> rd b (p + 1);
           y \<leftarrow> rd b (p + 2);
           Some (Inr ((push_bit 8 (ucast x) OR ucast y) + 269, headlen + 2, p + 2))
         })
      else if v = 15 then Some (Inl inval)
      else Some (Inr (v, headlen, p)))"

definition coap_parseOption ::
  "'r mem \<Rightarrow> 'r coap_option_t \<Rightarrow> u16 \<Rightarrow> 'r \<Rightarrow> nat \<Rightarrow> nat
     \<Rightarrow> (coap_error_t \<times> 'r coap_option_t \<times> u16 \<times> nat) option" where
  "coap_parseOption m option running_delta r buf buflen =
     (if buflen < 1 then
        Some (COAP_ERR_OPTION_TOO_SHORT_FOR_HEADER, option, running_delta, buf)
      else do {
        b0 \<leftarrow> rd (m r) buf;
        d \<leftarrow> parse_ext_field (m r) buf 1 buflen (ucast (drop_bit 4 (b0 AND 0xF0)))
               COAP_ERR_OPTION_DELTA_INVALID;
        (case d of
           Inl e \<Rightarrow> Some (e, option, running_delta, buf)
         | Inr (delta, headlen, p) \<Rightarrow>
             do {
               l \<leftarrow> parse_ext_field (m r) p headlen buflen (ucast (b0 AND 0x0F))
                      COAP_ERR_OPTION_LEN_INVALID;
               (case l of
                  Inl e \<Rightarrow> Some (e, option, running_delta, buf)
                | Inr (len, headlen', p') \<Rightarrow>
                    if p' + 1 + unat len > buf + buflen then
                      Some (COAP_ERR_OPTION_TOO_BIG, option, running_delta, buf)
                    else
                      Some (COAP_ERR_NONE,
                        \<lparr>o_num = ucast (delta + running_delta),
                         o_buf = \<lparr>b_p = Ptr r (p' + 1), b_len = unat len\<rparr>\<rparr>,
                        running_delta + delta, p' + 1 + unat len))
             })
      })"

text \<open>
  The loop of \<open>coap_parseOptionsAndPayload\<close>: \<open>n\<close> is \<open>*numOptions\<close>, \<open>i\<close> is \<open>optionIndex\<close>.  It
  returns the code (an error returns at once), the options, the index, the delta and \<open>p\<close>.
\<close>

function parse_options ::
  "'r mem \<Rightarrow> 'r \<Rightarrow> nat \<Rightarrow> nat \<Rightarrow> 'r coap_option_t list \<Rightarrow> nat \<Rightarrow> u16 \<Rightarrow> nat
     \<Rightarrow> (coap_error_t \<times> 'r coap_option_t list \<times> nat \<times> nat) option" where
  "parse_options m r fin n opts i delta p =
     (if i < n \<and> p < fin then
        (case rd (m r) p of
           None \<Rightarrow> None
         | Some b \<Rightarrow>
             if b = 0xFF then Some (COAP_ERR_NONE, opts, i, p)
             else
               (case rd opts i of
                  None \<Rightarrow> None
                | Some option \<Rightarrow>
                    (case coap_parseOption m option delta r p (fin - p) of
                       None \<Rightarrow> None
                     | Some (rc, option', delta', p') \<Rightarrow>
                         if rc \<noteq> COAP_ERR_NONE then Some (rc, opts, i, p)
                         else parse_options m r fin n (opts[i := option']) (i + 1) delta' p')))
      else Some (COAP_ERR_NONE, opts, i, p))"
  by pat_completeness auto
termination
  by (relation "measure (\<lambda>(m, r, fin, n, opts, i, delta, p). n - i)") auto

declare parse_options.simps [simp del]

text \<open>
  The end pointer \<open>buf + buflen\<close> is only defined when \<open>buflen\<close> does not exceed the array: this is
  where a negative result of \<open>recvfrom\<close>, converted to \<open>size_t\<close>, becomes undefined.
\<close>

definition coap_parseOptionsAndPayload ::
  "'r mem \<Rightarrow> 'r coap_option_t list \<Rightarrow> u8 \<Rightarrow> 'r coap_buffer_t \<Rightarrow> coap_header_t \<Rightarrow> 'r \<Rightarrow> nat
     \<Rightarrow> (coap_error_t \<times> 'r coap_option_t list \<times> u8 \<times> 'r coap_buffer_t) option" where
  "coap_parseOptionsAndPayload m opts numOptions payload hdr r buflen =
     (let p = 4 + unat (h_tkl hdr) in
      if buflen > length (m r) then None
      else if p > buflen then Some (COAP_ERR_OPTION_OVERRUNS_PACKET, opts, numOptions, payload)
      else do {
        (rc, opts', i, p') \<leftarrow> parse_options m r buflen (unat numOptions) opts 0 0 p;
        if rc \<noteq> COAP_ERR_NONE then Some (rc, opts', numOptions, payload)
        else if p' + 1 < buflen then do {
          b \<leftarrow> rd (m r) p';
          Some (COAP_ERR_NONE, opts', word_of_nat i,
            if b = 0xFF then \<lparr>b_p = Ptr r (p' + 1), b_len = buflen - (p' + 1)\<rparr>
            else \<lparr>b_p = NULL, b_len = 0\<rparr>)
        }
        else Some (COAP_ERR_NONE, opts', word_of_nat i, \<lparr>b_p = NULL, b_len = 0\<rparr>)
      })"

definition coap_parse ::
  "'r mem \<Rightarrow> 'r coap_packet_t \<Rightarrow> 'r \<Rightarrow> nat \<Rightarrow> (coap_error_t \<times> 'r coap_packet_t) option" where
  "coap_parse m pkt r buflen =
     do {
       (rc, hdr) \<leftarrow> coap_parseHeader m (p_hdr pkt) r buflen;
       let pkt1 = pkt\<lparr>p_hdr := hdr\<rparr>;
       if rc \<noteq> COAP_ERR_NONE then Some (rc, pkt1)
       else do {
         let (rc, tok) = coap_parseToken (p_tok pkt1) hdr r buflen;
         let pkt2 = pkt1\<lparr>p_tok := tok\<rparr>;
         if rc \<noteq> COAP_ERR_NONE then Some (rc, pkt2)
         else do {
           let pkt3 = pkt2\<lparr>p_numopts := MAXOPT\<rparr>;
           (rc, opts, n, payload) \<leftarrow>
             coap_parseOptionsAndPayload m (p_opts pkt3) (p_numopts pkt3) (p_payload pkt3) hdr r
               buflen;
           Some (rc, pkt3\<lparr>p_opts := opts, p_numopts := n, p_payload := payload\<rparr>)
         }
       }
     }"

subsection \<open>Looking up options\<close>

text \<open>
  The result is the index of the first option of the block (NULL is \<open>None\<close>) and the count.
\<close>

function find_options ::
  "'r coap_option_t list \<Rightarrow> nat \<Rightarrow> u8 \<Rightarrow> nat \<Rightarrow> nat option \<Rightarrow> u8 \<Rightarrow> (nat option \<times> u8) option" where
  "find_options opts n num i first count =
     (if i < n then
        (case rd opts i of
           None \<Rightarrow> None
         | Some option \<Rightarrow>
             if o_num option = num then
               find_options opts n num (i + 1) (if first = None then Some i else first) (count + 1)
             else if first \<noteq> None then Some (first, count)
             else find_options opts n num (i + 1) first count)
      else Some (first, count))"
  by pat_completeness auto
termination
  by (relation "measure (\<lambda>(opts, n, num, i, first, count). n - i)") auto

declare find_options.simps [simp del]

definition coap_findOptions :: "'r coap_packet_t \<Rightarrow> u8 \<Rightarrow> (nat option \<times> u8) option" where
  "coap_findOptions pkt num = find_options (p_opts pkt) (unat (p_numopts pkt)) num 0 None 0"

definition coap_buffer_to_string ::
  "'r mem \<Rightarrow> 'r \<Rightarrow> nat \<Rightarrow> 'r coap_buffer_t \<Rightarrow> (coap_error_t \<times> 'r mem) option" where
  "coap_buffer_to_string m strbuf strbuflen buf =
     (if sz (b_len buf + 1) > strbuflen then Some (COAP_ERR_BUFFER_TOO_SMALL, m)
      else do {
        s \<leftarrow> load_n m (b_p buf) (b_len buf);
        m1 \<leftarrow> store_n m strbuf 0 s;
        m2 \<leftarrow> store_n m1 strbuf (b_len buf) [0];
        Some (COAP_ERR_NONE, m2)
      })"

subsection \<open>Building\<close>

text \<open>\<open>None\<close> when the call leaves \<open>*nibble\<close> as it was.\<close>

definition coap_option_nibble :: "u32 \<Rightarrow> u8 option" where
  "coap_option_nibble value =
     (if value < 13 then Some (ucast (0xFF AND value))
      else if value \<le> 0xFF + 13 then Some 13
      else if value \<le> 0xFFFF + 269 then Some 14
      else None)"

text \<open>
  One turn of the option loop of \<open>coap_build\<close> after the length check: the bytes written at \<open>p\<close>
  before the option's value.  \<open>len\<close> has no initial value, so a length that
  \<open>coap_option_nibble\<close> does not encode is \<open>None\<close>; \<open>delta\<close> starts as 0.
\<close>

definition build_option_header :: "u32 \<Rightarrow> nat \<Rightarrow> u8 list option" where
  "build_option_header optDelta blen =
     do {
       let delta = (case coap_option_nibble optDelta of None \<Rightarrow> 0 | Some d \<Rightarrow> d);
       len \<leftarrow> coap_option_nibble (word_of_nat blen);
       Some ((0xFF AND (push_bit 4 delta OR len)) #
         (if delta = 13 then [ucast (optDelta - 13)]
          else if delta = 14 then
            [ucast (drop_bit 8 (optDelta - 269)), ucast (0xFF AND (optDelta - 269))]
          else []) @
         (if len = 13 then [word_of_nat (szsub blen 13)]
          else if len = 14 then
            [word_of_nat (blen div 256), 0xFF AND word_of_nat (szsub blen 269)]
          else []))
     }"

function build_options ::
  "'r \<Rightarrow> nat \<Rightarrow> 'r coap_option_t list \<Rightarrow> nat \<Rightarrow> nat \<Rightarrow> 'r mem \<Rightarrow> nat \<Rightarrow> u16
     \<Rightarrow> (coap_error_t \<times> 'r mem \<times> nat) option" where
  "build_options r buflen opts n i m p running_delta =
     (if i < n then
        (if p > buflen then Some (COAP_ERR_BUFFER_TOO_SMALL, m, p)
         else
           (case rd opts i of
              None \<Rightarrow> None
            | Some option \<Rightarrow>
                (case build_option_header (ucast (o_num option) - ucast running_delta)
                        (b_len (o_buf option)) of
                   None \<Rightarrow> None
                 | Some hbytes \<Rightarrow>
                     (case store_n m r p hbytes of
                        None \<Rightarrow> None
                      | Some m1 \<Rightarrow>
                          (case load_n m1 (b_p (o_buf option)) (b_len (o_buf option)) of
                             None \<Rightarrow> None
                           | Some v \<Rightarrow>
                               (case store_n m1 r (p + length hbytes) v of
                                  None \<Rightarrow> None
                                | Some m2 \<Rightarrow>
                                    build_options r buflen opts n (i + 1) m2
                                      (p + length hbytes + b_len (o_buf option))
                                      (ucast (o_num option))))))))
      else Some (COAP_ERR_NONE, m, p))"
  by pat_completeness auto
termination
  by (relation "measure (\<lambda>(r, buflen, opts, n, i, m, p, d). n - i)") auto

declare build_options.simps [simp del]

definition coap_build ::
  "'r mem \<Rightarrow> 'r \<Rightarrow> nat \<Rightarrow> 'r coap_packet_t \<Rightarrow> (coap_error_t \<times> 'r mem \<times> nat) option" where
  "coap_build m r buflen pkt =
     (let hdr = p_hdr pkt; tkl = unat (h_tkl hdr) in
      if buflen < 4 + tkl then Some (COAP_ERR_BUFFER_TOO_SMALL, m, buflen)
      else do {
        m1 \<leftarrow> store_n m r 0
               [push_bit 6 (h_ver hdr AND 3) OR push_bit 4 (h_t hdr AND 3) OR (h_tkl hdr AND 0x0F),
                h_code hdr, h_id0 hdr, h_id1 hdr];
        if tkl > 0 \<and> tkl \<noteq> b_len (p_tok pkt) then Some (COAP_ERR_UNSUPPORTED, m1, buflen)
        else do {
          tok \<leftarrow> load_n m1 (b_p (p_tok pkt)) tkl;
          m2 \<leftarrow> store_n m1 r 4 tok;
          (rc, m3, p) \<leftarrow>
            build_options r buflen (p_opts pkt) (unat (p_numopts pkt)) 0 m2 (4 + tkl) 0;
          if rc \<noteq> COAP_ERR_NONE then Some (rc, m3, buflen)
          else do {
            let opts_len = p - 4;
            let plen = b_len (p_payload pkt);
            if plen > 0 then
              (if buflen < sz (4 + 1 + plen + opts_len) then
                 Some (COAP_ERR_BUFFER_TOO_SMALL, m3, buflen)
               else do {
                 m4 \<leftarrow> store_n m3 r (4 + opts_len) [0xFF];
                 pl \<leftarrow> load_n m4 (b_p (p_payload pkt)) plen;
                 m5 \<leftarrow> store_n m4 r (5 + opts_len) pl;
                 Some (COAP_ERR_NONE, m5, opts_len + 5 + plen)
               })
            else Some (COAP_ERR_NONE, m3, opts_len + 4)
          }
        }
      })"

text \<open>
  \<open>scratch\<close> is the start of region \<open>sr\<close> with \<open>slen\<close> bytes.  \<open>tok\<close> is \<open>None\<close> for a NULL token.
\<close>

definition coap_make_response ::
  "'r mem \<Rightarrow> 'r \<Rightarrow> nat \<Rightarrow> 'r coap_packet_t \<Rightarrow> 'r ptr \<Rightarrow> nat \<Rightarrow> u8 \<Rightarrow> u8
     \<Rightarrow> 'r coap_buffer_t option \<Rightarrow> u8 \<Rightarrow> int
     \<Rightarrow> (coap_error_t \<times> 'r mem \<times> 'r coap_packet_t) option" where
  "coap_make_response m sr slen pkt content content_len msgid_hi msgid_lo tok rspcode content_type =
     do {
       let pkt1 = pkt\<lparr>p_hdr := \<lparr>h_ver = 1, h_t = COAP_TYPE_ACK, h_tkl = 0, h_code = rspcode,
                              h_id0 = msgid_hi, h_id1 = msgid_lo\<rparr>,
                      p_numopts := 1\<rparr>;
       let pkt2 = (case tok of
                     None \<Rightarrow> pkt1
                   | Some t \<Rightarrow>
                       pkt1\<lparr>p_hdr := (p_hdr pkt1)\<lparr>h_tkl := word_of_nat (b_len t)\<rparr>,
                            p_tok := t\<rparr>);
       o0 \<leftarrow> rd (p_opts pkt2) 0;
       let o1 = o0\<lparr>o_num := COAP_OPTION_CONTENT_FORMAT,
                   o_buf := (o_buf o0)\<lparr>b_p := Ptr sr 0\<rparr>\<rparr>;
       if slen < 2 then
         Some (COAP_ERR_BUFFER_TOO_SMALL, m, pkt2\<lparr>p_opts := (p_opts pkt2)[0 := o1]\<rparr>)
       else do {
         let ct = (word_of_int content_type :: u16);
         m1 \<leftarrow> store_n m sr 0 [ucast (drop_bit 8 (ct AND 0xFF00)), ucast (ct AND 0x00FF)];
         let o2 = o1\<lparr>o_buf := (o_buf o1)\<lparr>b_len := 2\<rparr>\<rparr>;
         Some (COAP_ERR_NONE, m1,
           pkt2\<lparr>p_opts := (p_opts pkt2)[0 := o2],
                p_payload := \<lparr>b_p = content, b_len = content_len\<rparr>\<rparr>)
       }
     }"

end
