(* ===== verification/Microcoap_Parse.thy ===== *)
theory Microcoap_Parse
  imports Microcoap Coap_Msg
begin

section \<open>Correctness of the server's CoAP parser\<close>

text \<open>
  Two results about \<open>coap_parse\<close>.  Safety: on any bytes it returns, never reads outside the
  \<open>buflen\<close> bytes it was given, and every pointer of an accepted packet stays inside them.
  Completeness: on the encoding of a well-formed message with at most 16 options it accepts and
  the packet's pointers denote exactly that message.
\<close>

subsection \<open>Packets inside a buffer\<close>

definition buf_in :: "'r \<Rightarrow> nat \<Rightarrow> nat \<Rightarrow> 'r coap_buffer_t \<Rightarrow> bool" where
  "buf_in r lo hi b \<longleftrightarrow>
     (case b_p b of
        NULL \<Rightarrow> b_len b = 0
      | Ptr r' i \<Rightarrow> r' = r \<and> lo \<le> i \<and> i + b_len b \<le> hi)"

text \<open>The token of a packet is NULL, or starts right after the header.\<close>

definition tok_in :: "'r \<Rightarrow> nat \<Rightarrow> 'r coap_buffer_t \<Rightarrow> bool" where
  "tok_in r n b \<longleftrightarrow>
     (case b_p b of
        NULL \<Rightarrow> b_len b = 0
      | Ptr r' i \<Rightarrow> r' = r \<and> i = 4 \<and> 4 + b_len b \<le> n)"

definition pkt_in :: "'r \<Rightarrow> nat \<Rightarrow> 'r coap_packet_t \<Rightarrow> bool" where
  "pkt_in r n pkt \<longleftrightarrow>
     h_ver (p_hdr pkt) = 1 \<and> unat (h_t (p_hdr pkt)) < 4 \<and> h_tkl (p_hdr pkt) \<le> 8 \<and>
     b_len (p_tok pkt) = unat (h_tkl (p_hdr pkt)) \<and> tok_in r n (p_tok pkt) \<and>
     unat (p_numopts pkt) \<le> 16 \<and> length (p_opts pkt) = 16 \<and>
     (\<forall>i < unat (p_numopts pkt). buf_in r (4 + unat (h_tkl (p_hdr pkt))) n (o_buf (p_opts pkt ! i))) \<and>
     buf_in r (4 + unat (h_tkl (p_hdr pkt))) n (p_payload pkt)"

subsection \<open>Safety\<close>

lemma parse_ext_field_total:
  assumes "p + 1 + buflen \<le> length b + headlen"
  shows "\<exists>res. parse_ext_field b p headlen buflen v inval = Some res \<and>
     (case res of Inl e \<Rightarrow> e \<noteq> COAP_ERR_NONE \<or> e = inval
      | Inr (x, h', p') \<Rightarrow> p' + headlen = p + h' \<and> p \<le> p')"
  using assms by (auto simp: parse_ext_field_def rd_def)

lemma coap_parseOption_total:
  assumes "p + buflen \<le> length (m r)"
  shows "\<exists>rc o' d' p'. coap_parseOption m o1 d r p buflen = Some (rc, o', d', p') \<and>
     (rc = COAP_ERR_NONE \<longrightarrow> p < p' \<and> p' \<le> p + buflen \<and> buf_in r p (p + buflen) (o_buf o'))"
proof (cases "buflen < 1")
  case True
  then show ?thesis by (simp add: coap_parseOption_def)
next
  case False
  with assms have b0: "rd (m r) p = Some (m r ! p)" by simp
  let ?v = "ucast (drop_bit 4 (m r ! p AND 0xF0)) :: u16"
  let ?w = "ucast (m r ! p AND 0x0F) :: u16"
  obtain res where res: "parse_ext_field (m r) p 1 buflen ?v COAP_ERR_OPTION_DELTA_INVALID = Some res"
    and res': "case res of Inl e \<Rightarrow> e \<noteq> COAP_ERR_NONE \<or> e = COAP_ERR_OPTION_DELTA_INVALID
        | Inr (x, h', p') \<Rightarrow> p' + 1 = p + h' \<and> p \<le> p'"
    using parse_ext_field_total [of p buflen "m r" 1 ?v COAP_ERR_OPTION_DELTA_INVALID] assms
    by auto
  show ?thesis
  proof (cases res)
    case (Inl e)
    with res res' False b0 show ?thesis by (auto simp: coap_parseOption_def)
  next
    case (Inr t)
    obtain x h1 p1 where t: "t = (x, h1, p1)" by (cases t)
    with Inr res' have h1: "p1 + 1 = p + h1" "p \<le> p1" by auto
    obtain res2 where res2: "parse_ext_field (m r) p1 h1 buflen ?w COAP_ERR_OPTION_LEN_INVALID = Some res2"
      and res2': "case res2 of Inl e \<Rightarrow> e \<noteq> COAP_ERR_NONE \<or> e = COAP_ERR_OPTION_LEN_INVALID
        | Inr (x, h', p') \<Rightarrow> p' + h1 = p1 + h' \<and> p1 \<le> p'"
      using parse_ext_field_total [of p1 buflen "m r" h1 ?w COAP_ERR_OPTION_LEN_INVALID] assms h1
      by auto
    show ?thesis
      using False b0 res res2 res2' Inr t h1
      by (cases res2) (auto simp: coap_parseOption_def buf_in_def)
  qed
qed

lemma parse_options_total:
  assumes "fin \<le> length (m r)" and "n \<le> length opts" and "i \<le> n" and "p \<le> fin"
    and "\<forall>j < i. buf_in r lo fin (o_buf (opts ! j))" and "lo \<le> p"
  shows "\<exists>rc opts' i' p'. parse_options m r fin n opts i d p = Some (rc, opts', i', p') \<and>
     length opts' = length opts \<and> i' \<le> n \<and> lo \<le> p' \<and> p' \<le> fin \<and>
     (\<forall>j < i'. buf_in r lo fin (o_buf (opts' ! j)))"
  using assms
proof (induction m r fin n opts i d p rule: parse_options.induct)
  case (1 m r fin n opts i d p)
  show ?case
  proof (cases "i < n \<and> p < fin \<and> m r ! p \<noteq> 0xFF")
    case False
    with "1.prems" show ?thesis
      by (auto simp: parse_options.simps [of m r fin n opts i d p])
  next
    case True
    with "1.prems" have b: "rd (m r) p = Some (m r ! p)" and o: "rd opts i = Some (opts ! i)"
      by auto
    from True "1.prems" obtain rc o' d' p' where
      o': "coap_parseOption m (opts ! i) d r p (fin - p) = Some (rc, o', d', p')"
      and ok: "rc = COAP_ERR_NONE \<longrightarrow> p < p' \<and> p' \<le> fin \<and> buf_in r p fin (o_buf o')"
      using coap_parseOption_total [of p "fin - p" m r "opts ! i" d] by auto
    show ?thesis
    proof (cases "rc = COAP_ERR_NONE")
      case False
      with True "1.prems" b o o' show ?thesis
        by (auto simp: parse_options.simps [of m r fin n opts i d p])
    next
      case rc: True
      have "\<forall>j < i + 1. buf_in r lo fin (o_buf (opts[i := o'] ! j))"
        using ok rc "1.prems" True
        by (auto simp: nth_list_update less_Suc_eq buf_in_def split: ptr.splits)
      with "1.IH" [OF _ b _ o o'] True rc ok "1.prems" show ?thesis
        by (auto simp: parse_options.simps [of m r fin n opts i d p] b o o')
    qed
  qed
qed

lemma coap_parseHeader_total:
  assumes "buflen \<le> length (m r)"
  shows "\<exists>rc hdr. coap_parseHeader m h r buflen = Some (rc, hdr) \<and>
     (rc = COAP_ERR_NONE \<longrightarrow> 4 \<le> buflen \<and> h_ver hdr = 1 \<and> unat (h_t hdr) < 4)"
proof (cases "buflen < 4")
  case True
  then show ?thesis by (simp add: coap_parseHeader_def)
next
  case False
  with assms have "0 < length (m r)" "1 < length (m r)" "2 < length (m r)" "3 < length (m r)"
    by linarith+
  with False show ?thesis
    by (simp add: coap_parseHeader_def Let_def u8_mid_two del: drop_bit_and)
qed

lemma coap_parseToken_ok:
  "coap_parseToken t hdr r buflen = (COAP_ERR_NONE, t') \<Longrightarrow>
     h_tkl hdr \<le> 8 \<and> b_len t' = unat (h_tkl hdr) \<and> tok_in r buflen t'"
  by (auto simp: coap_parseToken_def tok_in_def split: if_splits)

lemma coap_parseOptionsAndPayload_total:
  assumes "buflen \<le> length (m r)" and "unat n \<le> length opts"
  shows "\<exists>rc opts' n' pl.
     coap_parseOptionsAndPayload m opts n payload hdr r buflen = Some (rc, opts', n', pl) \<and>
     length opts' = length opts \<and>
     (rc = COAP_ERR_NONE \<longrightarrow> n' \<le> n \<and>
        (\<forall>i < unat n'. buf_in r (4 + unat (h_tkl hdr)) buflen (o_buf (opts' ! i))) \<and>
        buf_in r (4 + unat (h_tkl hdr)) buflen pl)"
proof (cases "4 + unat (h_tkl hdr) > buflen")
  case True
  with assms(1) show ?thesis by (simp add: coap_parseOptionsAndPayload_def)
next
  case False
  obtain rc opts' i p where
    run: "parse_options m r buflen (unat n) opts 0 0 (4 + unat (h_tkl hdr)) = Some (rc, opts', i, p)"
    and inv: "length opts' = length opts" "i \<le> unat n" "4 + unat (h_tkl hdr) \<le> p" "p \<le> buflen"
      "\<forall>j < i. buf_in r (4 + unat (h_tkl hdr)) buflen (o_buf (opts' ! j))"
    using parse_options_total [of buflen m r "unat n" opts 0 "4 + unat (h_tkl hdr)"
        "4 + unat (h_tkl hdr)" 0] False assms
    by auto
  have i: "unat (word_of_nat i :: u8) = i"
    using inv(2) u8_less [of n] by (intro unat_of_nat_u8) linarith
  with inv(2) have "(word_of_nat i :: u8) \<le> n" by (simp add: word_le_nat_alt)
  with False run inv i assms(1) show ?thesis
    by (auto simp: coap_parseOptionsAndPayload_def Let_def buf_in_def)
qed

lemma coap_parse_total:
  assumes len: "buflen \<le> length (m r)" and opts: "length (p_opts pkt) = 16"
  shows "\<exists>rc pkt'. coap_parse m pkt r buflen = Some (rc, pkt') \<and> length (p_opts pkt') = 16 \<and>
           (rc = COAP_ERR_NONE \<longrightarrow> pkt_in r buflen pkt')"
proof -
  obtain rc1 hdr where h: "coap_parseHeader m (p_hdr pkt) r buflen = Some (rc1, hdr)"
    "rc1 = COAP_ERR_NONE \<longrightarrow> 4 \<le> buflen \<and> h_ver hdr = 1 \<and> unat (h_t hdr) < 4"
    using coap_parseHeader_total [of buflen m r] len by blast
  obtain rc2 tok where t: "coap_parseToken (p_tok pkt) hdr r buflen = (rc2, tok)"
    by fastforce
  obtain rc3 opts' n pl where
    o: "coap_parseOptionsAndPayload m (p_opts pkt) MAXOPT (p_payload pkt) hdr r buflen =
          Some (rc3, opts', n, pl)" "length opts' = 16"
    and ok: "rc3 = COAP_ERR_NONE \<longrightarrow> n \<le> MAXOPT \<and>
        (\<forall>i < unat n. buf_in r (4 + unat (h_tkl hdr)) buflen (o_buf (opts' ! i))) \<and>
        buf_in r (4 + unat (h_tkl hdr)) buflen pl"
    using coap_parseOptionsAndPayload_total
      [of buflen m r MAXOPT "p_opts pkt" "p_payload pkt" hdr] len
    by (auto simp: opts MAXOPT_def)
  have n: "n \<le> MAXOPT \<Longrightarrow> unat n \<le> 16"
    by (simp add: MAXOPT_def word_le_nat_alt)
  show ?thesis
    using h t o ok n opts coap_parseToken_ok [of "p_tok pkt" hdr r buflen tok]
    by (cases "rc1 = COAP_ERR_NONE"; cases "rc2 = COAP_ERR_NONE")
      (auto simp: coap_parse_def Let_def pkt_in_def)
qed

subsection \<open>Locality\<close>

text \<open>
  Only the \<open>buflen\<close> bytes of the packet matter: what an earlier packet left behind them in the
  buffer has no influence.
\<close>

lemma rd_take_cong: "take k b = take k b' \<Longrightarrow> i < k \<Longrightarrow> rd b i = rd b' i"
proof -
  assume e: "take k b = take k b'" and i: "i < k"
  have "i < length b \<longleftrightarrow> i < length b'"
    using arg_cong [OF e, of length] i by (simp add: min_def split: if_splits)
  moreover have "i < length b \<Longrightarrow> b ! i = b' ! i"
    using e i by (metis nth_take)
  ultimately show ?thesis by (simp add: rd_def)
qed

lemma parse_ext_field_local:
  assumes "take k b = take k b'" and "p + 1 + buflen \<le> k + headlen"
  shows "parse_ext_field b p headlen buflen v inval = parse_ext_field b' p headlen buflen v inval"
proof -
  have "headlen + 1 \<le> buflen \<Longrightarrow> rd b (p + 1) = rd b' (p + 1)"
    using assms by (intro rd_take_cong) auto
  moreover have "headlen + 2 \<le> buflen \<Longrightarrow> rd b (p + 2) = rd b' (p + 2)"
    using assms by (intro rd_take_cong) auto
  ultimately show ?thesis by (auto simp: parse_ext_field_def not_less)
qed

lemma parse_ext_field_pos:
  "parse_ext_field b p headlen buflen v inval = Some (Inr (x, h', p')) \<Longrightarrow> p' + headlen = p + h'"
  by (auto simp: parse_ext_field_def split: if_splits bind_splits)

lemma coap_parseOption_local:
  assumes e: "take k (m r) = take k (m' r)" and k: "p + buflen \<le> k"
  shows "coap_parseOption m o1 d r p buflen = coap_parseOption m' o1 d r p buflen"
proof (cases "buflen < 1")
  case True
  then show ?thesis by (simp add: coap_parseOption_def)
next
  case False
  then have b0: "rd (m r) p = rd (m' r) p"
    using k by (intro rd_take_cong [OF e]) simp
  have f1: "parse_ext_field (m r) p 1 buflen v i = parse_ext_field (m' r) p 1 buflen v i" for v i
    using k by (intro parse_ext_field_local [OF e]) simp
  have f2: "parse_ext_field (m r) p1 h1 buflen w i = parse_ext_field (m' r) p1 h1 buflen w i"
    if "parse_ext_field (m' r) p 1 buflen v j = Some (Inr (x, h1, p1))" for v w i j x h1 p1
    using k parse_ext_field_pos [OF that] by (intro parse_ext_field_local [OF e]) simp
  show ?thesis
    unfolding coap_parseOption_def b0 f1
    using f2 by (intro if_cong refl Option.bind_cong) (auto split: sum.splits intro!: Option.bind_cong)
qed

lemma parse_options_local:
  assumes "take fin (m r) = take fin (m' r)"
  shows "parse_options m r fin n opts i d p = parse_options m' r fin n opts i d p"
  using assms
proof (induction m r fin n opts i d p rule: parse_options.induct)
  case (1 m r fin n opts i d p)
  show ?case
  proof (cases "i < n \<and> p < fin")
    case False
    then show ?thesis
      by (auto simp: parse_options.simps [of m r fin n opts i d p] parse_options.simps [of m' r fin n opts i d p])
  next
    case True
    then have b: "rd (m r) p = rd (m' r) p"
      using rd_take_cong [OF "1.prems"] by simp
    have o: "coap_parseOption m o1 d r p (fin - p) = coap_parseOption m' o1 d r p (fin - p)" for o1
      using True by (intro coap_parseOption_local [where m = m and m' = m' and r = r, OF "1.prems"]) simp
    show ?thesis
      using "1.IH" [OF True] "1.prems"
      by (auto simp: parse_options.simps [of m r fin n opts i d p]
          parse_options.simps [of m' r fin n opts i d p] b o split: option.splits prod.splits)
  qed
qed

lemma coap_parse_local:
  assumes e: "take n (m r) = take n (m' r)" and len: "n \<le> length (m r)" "n \<le> length (m' r)"
  shows "coap_parse m pkt r n = coap_parse m' pkt r n"
proof -
  have h: "coap_parseHeader m h r n = coap_parseHeader m' h r n" for h
  proof (cases "n < 4")
    case True
    then show ?thesis by (simp add: coap_parseHeader_def)
  next
    case False
    then have r: "rd (m r) 0 = rd (m' r) 0" "rd (m r) 1 = rd (m' r) 1" "rd (m r) 2 = rd (m' r) 2"
      "rd (m r) 3 = rd (m' r) 3"
      by (auto intro: rd_take_cong [OF e])
    show ?thesis by (simp only: coap_parseHeader_def r)
  qed
  have o: "coap_parseOptionsAndPayload m opts k pl hdr r n = coap_parseOptionsAndPayload m' opts k pl hdr r n"
    for opts k pl hdr
    using len parse_options_local [where m = m and m' = m' and r = r, OF e] rd_take_cong [OF e]
    by (auto simp: coap_parseOptionsAndPayload_def Let_def intro!: bind_option_cong)
  show ?thesis unfolding coap_parse_def h o by (rule refl)
qed

subsection \<open>Completeness\<close>

lemma parse_ext_field_enc:
  assumes n: "n < 65536" and b: "drop (p + 1) b = opt_ext n @ rest"
    and len: "headlen + length (opt_ext n) \<le> buflen"
  shows "parse_ext_field b p headlen buflen (word_of_nat (opt_nib n)) inval =
           Some (Inr (word_of_nat n, headlen + length (opt_ext n), p + length (opt_ext n)))"
proof -
  consider "n < 13" | "13 \<le> n" "n < 269" | "269 \<le> n" by linarith
  then show ?thesis
  proof cases
    case 1
    then have "unat (word_of_nat n :: u16) = n" by (simp add: unat_of_nat_u16)
    then have "(word_of_nat n :: u16) \<noteq> 13" "(word_of_nat n :: u16) \<noteq> 14" "(word_of_nat n :: u16) \<noteq> 15"
      using 1 by auto
    with 1 show ?thesis by (simp add: parse_ext_field_def opt_nib_def opt_ext_def)
  next
    case 2
    then have e: "opt_ext n = [word_of_nat (n - 13)]" by (simp add: opt_ext_def)
    have "(ucast (word_of_nat (n - 13) :: u8) :: u16) + 13 = word_of_nat n"
      using 2 by (subst ucast_of_nat_u8_u16) auto
    with 2 e b len show ?thesis
      by (simp add: parse_ext_field_def opt_nib_def rd_drop)
  next
    case 3
    then have e: "opt_ext n = [word_of_nat ((n - 269) div 256), word_of_nat ((n - 269) mod 256)]"
      by (simp add: opt_ext_def)
    with b have r: "rd b (p + 1) = Some (word_of_nat ((n - 269) div 256))"
      "rd b (p + 2) = Some (word_of_nat ((n - 269) mod 256))"
      using drop_add_append [of "p + 1" b "[word_of_nat ((n - 269) div 256)]"]
      by (simp_all add: rd_drop)
    have v: "unat (word_of_nat ((n - 269) div 256) :: u8) = (n - 269) div 256"
      using n by (intro unat_of_nat_u8) auto
    have w: "unat (word_of_nat ((n - 269) mod 256) :: u8) = (n - 269) mod 256"
      by (intro unat_of_nat_u8) simp
    have "(push_bit 8 (ucast (word_of_nat ((n - 269) div 256) :: u8)) OR
           ucast (word_of_nat ((n - 269) mod 256) :: u8)) + 269 = (word_of_nat n :: u16)"
    proof -
      have "(n - 269) div 256 * 256 + (n - 269) mod 256 + 269 = n" using 3 by simp
      moreover have "word_of_nat (k + 269) = (word_of_nat k :: u16) + 269" for k by simp
      ultimately show ?thesis
        by (metis be16_or v w)
    qed
    with 3 e r len show ?thesis
      by (simp add: parse_ext_field_def opt_nib_def del: add_2_eq_Suc')
  qed
qed

lemma coap_parseOption_enc:
  assumes d: "delta < 65536" and v: "length v < 65536"
    and b: "drop p (m r) = enc_opt_hdr delta (length v) @ v @ rest"
    and len: "length (enc_opt_hdr delta (length v)) + length v \<le> buflen"
  shows "coap_parseOption m o1 rdelta r p buflen =
           Some (COAP_ERR_NONE,
             \<lparr>o_num = ucast (word_of_nat delta + rdelta),
              o_buf = \<lparr>b_p = Ptr r (p + length (enc_opt_hdr delta (length v))),
                       b_len = length v\<rparr>\<rparr>,
             rdelta + word_of_nat delta,
             p + length (enc_opt_hdr delta (length v)) + length v)"
proof -
  let ?b = "m r" and ?f = "opt_first delta (length v)"
  have b0: "rd ?b p = Some ?f"
    using b by (simp add: enc_opt_hdr_def rd_drop)
  have b1: "drop (p + 1) ?b = opt_ext delta @ opt_ext (length v) @ v @ rest"
    using drop_add_append [of p ?b "[?f]"] b by (simp add: enc_opt_hdr_def)
  have b2: "drop (p + length (opt_ext delta) + 1) ?b = opt_ext (length v) @ v @ rest"
    using drop_add_append [OF b1] by (simp add: ac_simps)
  have nib: "(ucast (word_of_nat (opt_nib n) :: u8) :: u16) = word_of_nat (opt_nib n)" for n
    using opt_nib_less [of n] by (simp add: ucast_of_nat_u8_u16)
  have len': "1 + length (opt_ext delta) + length (opt_ext (length v)) + length v \<le> buflen"
    using len by (simp add: length_enc_opt_hdr)
  have "parse_ext_field ?b p 1 buflen (ucast (drop_bit 4 (?f AND 0xF0))) COAP_ERR_OPTION_DELTA_INVALID =
      Some (Inr (word_of_nat delta, 1 + length (opt_ext delta), p + length (opt_ext delta)))"
    unfolding opt_first_delta nib
    using len' by (intro parse_ext_field_enc [OF d b1]) simp
  moreover have "parse_ext_field ?b (p + length (opt_ext delta)) (1 + length (opt_ext delta)) buflen
      (ucast (?f AND 0x0F)) COAP_ERR_OPTION_LEN_INVALID =
      Some (Inr (word_of_nat (length v), 1 + length (opt_ext delta) + length (opt_ext (length v)),
        p + length (opt_ext delta) + length (opt_ext (length v))))"
    unfolding opt_first_len nib
    using len' by (intro parse_ext_field_enc [OF v b2]) simp
  moreover have "unat (word_of_nat (length v) :: u16) = length v"
    using v by (rule unat_of_nat_u16)
  ultimately show ?thesis
    using len' b0 by (simp add: coap_parseOption_def length_enc_opt_hdr del: unat_of_nat drop_bit_and)
qed

text \<open>The options the parser stores for an encoded list of options that starts at \<open>p\<close>.\<close>

fun opt_recs :: "'r \<Rightarrow> nat \<Rightarrow> nat \<Rightarrow> (nat \<times> u8 list) list \<Rightarrow> 'r coap_option_t list" where
  "opt_recs r p prev [] = []"
| "opt_recs r p prev ((n, v) # os) =
     \<lparr>o_num = word_of_nat n,
      o_buf = \<lparr>b_p = Ptr r (p + length (enc_opt_hdr (n - prev) (length v))), b_len = length v\<rparr>\<rparr>
     # opt_recs r (p + length (enc_opt_hdr (n - prev) (length v)) + length v) n os"

lemma length_opt_recs [simp]: "length (opt_recs r p prev os) = length os"
  by (induction r p prev os rule: opt_recs.induct) auto

lemma parse_options_stop:
  assumes "p = fin \<or> (p < fin \<and> fin \<le> length (m r) \<and> m r ! p = 0xFF)"
  shows "parse_options m r fin n opts i d p = Some (COAP_ERR_NONE, opts, i, p)"
  using assms by (auto simp: parse_options.simps [of m r fin n opts i d p])

lemma parse_options_step:
  assumes d: "n - prev < 65536" and v: "length v < 65536" and le: "prev \<le> n"
    and fin: "fin \<le> length (m r)" and i: "i < k" "k \<le> length opts"
    and b: "drop p (take fin (m r)) = enc_opt_hdr (n - prev) (length v) @ v @ rest"
  shows "parse_options m r fin k opts i (word_of_nat prev) p =
     parse_options m r fin k
       (opts[i := \<lparr>o_num = word_of_nat n,
                   o_buf = \<lparr>b_p = Ptr r (p + length (enc_opt_hdr (n - prev) (length v))),
                            b_len = length v\<rparr>\<rparr>])
       (i + 1) (word_of_nat n) (p + length (enc_opt_hdr (n - prev) (length v)) + length v)"
proof -
  let ?h = "enc_opt_hdr (n - prev) (length v)"
  have len: "length ?h + length v + p \<le> fin"
    using arg_cong [OF b, of length] fin length_enc_opt_hdr [of "n - prev" "length v"] by simp
  have "drop p (m r) = drop p (take fin (m r)) @ drop fin (m r)"
    using len fin by (intro drop_take_append) simp_all
  then have b': "drop p (m r) = ?h @ v @ (rest @ drop fin (m r))"
    using b by simp
  then have first: "rd (m r) p = Some (opt_first (n - prev) (length v))"
    by (simp add: enc_opt_hdr_def rd_drop)
  have w: "word_of_nat prev + word_of_nat (n - prev) = (word_of_nat n :: u16)"
    using le by (simp flip: of_nat_add)
  have "coap_parseOption m (opts ! i) (word_of_nat prev) r p (fin - p) =
      Some (COAP_ERR_NONE,
        \<lparr>o_num = ucast (word_of_nat (n - prev) + word_of_nat prev :: u16),
         o_buf = \<lparr>b_p = Ptr r (p + length ?h), b_len = length v\<rparr>\<rparr>,
        word_of_nat prev + word_of_nat (n - prev), p + length ?h + length v)"
    using len by (intro coap_parseOption_enc [where m = m and r = r, OF d v b']) simp
  moreover have "(ucast (word_of_nat (n - prev) + word_of_nat prev :: u16) :: u8) = word_of_nat n"
    using w by (simp add: add.commute ucast_of_nat_narrow)
  moreover have "p < fin" using len by (simp add: length_enc_opt_hdr)
  ultimately show ?thesis
    using first i w
    by (simp add: parse_options.simps [of m r fin k opts i "word_of_nat prev" p])
qed

lemma parse_options_enc:
  assumes "fin \<le> length (m r)" and "p \<le> fin"
    and "drop p (take fin (m r)) = enc_opts prev os @ tail" and "tail = [] \<or> hd tail = 0xFF"
    and "wf_opts prev os" and "i + length os \<le> k" and "k \<le> length opts"
  shows "parse_options m r fin k opts i (word_of_nat prev) p =
     Some (COAP_ERR_NONE, take i opts @ opt_recs r p prev os @ drop (i + length os) opts,
       i + length os, p + length (enc_opts prev os))"
  using assms
proof (induction prev os arbitrary: p i opts rule: enc_opts.induct)
  case (1 prev)
  then have "p = fin \<or> (p < fin \<and> fin \<le> length (m r) \<and> m r ! p = 0xFF)"
    by (cases tail) (auto simp: Cons_nth_drop_Suc [symmetric] dest: nth_via_drop)
  then show ?case by (simp add: parse_options_stop)
next
  case (2 prev n v os)
  let ?h = "enc_opt_hdr (n - prev) (length v)"
  let ?p = "p + length ?h + length v"
  let ?o = "\<lparr>o_num = word_of_nat n,
      o_buf = \<lparr>b_p = Ptr r (p + length ?h), b_len = length v\<rparr>\<rparr> :: 'a coap_option_t"
  have d: "drop p (take fin (m r)) = ?h @ v @ (enc_opts n os @ tail)"
    using "2.prems"(3) by simp
  have fin: "?p \<le> fin"
    using arg_cong [OF d, of length] "2.prems"(1) by (simp add: length_enc_opt_hdr)
  have rest: "drop ?p (take fin (m r)) = enc_opts n os @ tail"
    using drop_add_append [OF drop_add_append [OF d]] .
  have "parse_options m r fin k opts i (word_of_nat prev) p =
      parse_options m r fin k (opts[i := ?o]) (i + 1) (word_of_nat n) ?p"
    using "2.prems" by (intro parse_options_step [where m = m and r = r, OF _ _ _ _ _ _ d]) auto
  also have "\<dots> = Some (COAP_ERR_NONE,
      take (i + 1) (opts[i := ?o]) @ opt_recs r ?p n os @ drop (i + 1 + length os) (opts[i := ?o]),
      i + 1 + length os, ?p + length (enc_opts n os))"
    using "2.prems" by (intro "2.IH" [OF _ fin rest]) auto
  also have "take (i + 1) (opts[i := ?o]) = take i opts @ [?o]"
    using "2.prems" by (simp add: take_Suc_conv_app_nth)
  finally show ?case by (simp add: ac_simps)
qed

subsection \<open>The message a packet denotes\<close>

definition opt_view :: "'r mem \<Rightarrow> 'r coap_option_t \<Rightarrow> (nat \<times> u8 list) option" where
  "opt_view m opt =
     map_option (\<lambda>v. (unat (o_num opt), v)) (load_n m (b_p (o_buf opt)) (b_len (o_buf opt)))"

definition pkt_msg :: "'r mem \<Rightarrow> 'r coap_packet_t \<Rightarrow> coap_msg option" where
  "pkt_msg m pkt =
     do {
       tok \<leftarrow> load_n m (b_p (p_tok pkt)) (b_len (p_tok pkt));
       opts \<leftarrow> those (map (opt_view m) (take (unat (p_numopts pkt)) (p_opts pkt)));
       pay \<leftarrow> load_n m (b_p (p_payload pkt)) (b_len (p_payload pkt));
       Some \<lparr>m_type = unat (h_t (p_hdr pkt)), m_code = h_code (p_hdr pkt),
             m_id0 = h_id0 (p_hdr pkt), m_id1 = h_id1 (p_hdr pkt),
             m_tok = tok, m_opts = opts, m_pay = pay\<rparr>
     }"

text \<open>The parser keeps option numbers in a \<open>uint8_t\<close>.\<close>

definition trunc_num :: "nat \<times> u8 list \<Rightarrow> nat \<times> u8 list" where
  "trunc_num nv = (fst nv mod 256, snd nv)"

lemma load_n_drop: "drop i (m r) = v @ rest \<Longrightarrow> load_n m (Ptr r i) (length v) = Some v"
proof -
  assume d: "drop i (m r) = v @ rest"
  then have "length v \<le> length (m r) - i"
    by (metis length_append length_drop le_add1)
  with d show ?thesis
    by (cases v) (auto simp: load_n_def rdn_def)
qed

lemma opt_recs_view:
  assumes "drop p (m r) = enc_opts prev os @ rest"
  shows "those (map (opt_view m) (opt_recs r p prev os)) = Some (map trunc_num os)"
  using assms
proof (induction r p prev os rule: opt_recs.induct)
  case (2 r p prev n v os)
  let ?h = "enc_opt_hdr (n - prev) (length v)"
  have d: "drop p (m r) = ?h @ v @ (enc_opts n os @ rest)"
    using "2.prems" by simp
  have dv: "drop (p + length ?h) (m r) = v @ (enc_opts n os @ rest)"
    by (rule drop_add_append [OF d])
  have "those (map (opt_view m) (opt_recs r (p + length ?h + length v) n os)) =
      Some (map trunc_num os)"
    using drop_add_append [OF dv] by (intro "2.IH") simp
  moreover have "opt_view m \<lparr>o_num = word_of_nat n,
      o_buf = \<lparr>b_p = Ptr r (p + length ?h), b_len = length v\<rparr>\<rparr> = Some (trunc_num (n, v))"
    using load_n_drop [where m = m and r = r, OF dv]
    by (simp add: opt_view_def trunc_num_def unat_of_nat)
  ultimately show ?case by simp
qed simp

lemma coap_parseHeader_enc:
  assumes "take buflen (m r) = msg_first type tkl # b1 # b2 # b3 # rest"
    and "type < 4" and "tkl < 16"
  shows "coap_parseHeader m h r buflen =
     Some (COAP_ERR_NONE, \<lparr>h_ver = 1, h_t = word_of_nat type, h_tkl = word_of_nat tkl,
       h_code = b1, h_id0 = b2, h_id1 = b3\<rparr>)"
proof -
  have m: "m r = msg_first type tkl # b1 # b2 # b3 # rest @ drop buflen (m r)"
    using assms(1) by (metis append_Cons append_take_drop_id)
  have "4 \<le> buflen" using arg_cong [OF assms(1), of length] by (simp split: if_splits)
  moreover have "rd (m r) 0 = Some (msg_first type tkl)" "rd (m r) 1 = Some b1"
    "rd (m r) 2 = Some b2" "rd (m r) 3 = Some b3"
    by (subst m, simp add: rd_def)+
  ultimately show ?thesis
    using assms(2,3)
    by (simp add: coap_parseHeader_def Let_def msg_first_ver msg_first_type msg_first_tkl
        del: drop_bit_and)
qed

lemma coap_parseOptionsAndPayload_enc:
  assumes len: "buflen \<le> length (m r)" and tkl: "unat (h_tkl hdr) = tkl" and wf: "wf_opts 0 os"
    and n: "length os \<le> 16" "length opts = 16"
    and d: "drop (4 + tkl) (take buflen (m r)) = enc_opts 0 os @ enc_pay pay"
    and le: "4 + tkl \<le> buflen"
  shows "\<exists>pl. coap_parseOptionsAndPayload m opts MAXOPT payload hdr r buflen =
     Some (COAP_ERR_NONE, opt_recs r (4 + tkl) 0 os @ drop (length os) opts, word_of_nat (length os), pl) \<and>
     load_n m (b_p pl) (b_len pl) = Some pay"
proof -
  define q where "q = 4 + tkl + length (enc_opts 0 os)"
  have run: "parse_options m r buflen (unat MAXOPT) opts 0 0 (4 + tkl) =
      Some (COAP_ERR_NONE, opt_recs r (4 + tkl) 0 os @ drop (length os) opts, length os, q)"
    using parse_options_enc [where m = m and r = r and i = 0 and opts = opts and k = 16,
        OF len le d _ wf] n
    by (simp add: q_def enc_pay_def MAXOPT_def)
  have dpay: "drop q (take buflen (m r)) = enc_pay pay"
    using drop_add_append [OF d] by (simp add: q_def)
  have buflen: "buflen = q + length (enc_pay pay)"
    using arg_cong [OF d, of length] len le by (simp add: q_def)
  show ?thesis
  proof (cases "pay = []")
    case True
    with run tkl le buflen len show ?thesis
      by (simp add: coap_parseOptionsAndPayload_def enc_pay_def load_n_def)
  next
    case False
    then have dp: "drop q (m r) = 0xFF # pay @ drop buflen (m r)"
      using drop_take_append [of q buflen "m r"] dpay buflen len by (simp add: enc_pay_def)
    then have "drop (q + 1) (m r) = pay @ drop buflen (m r)"
      using drop_add_append [of q "m r" "[0xFF]"] by simp
    then have "load_n m (Ptr r (q + 1)) (length pay) = Some pay"
      by (rule load_n_drop)
    moreover have "buflen = q + 1 + length pay"
      using False buflen by (simp add: enc_pay_def)
    ultimately show ?thesis
      using run tkl le len False rd_drop [OF dp]
      by (simp add: coap_parseOptionsAndPayload_def)
  qed
qed

lemma coap_parseToken_enc:
  assumes tok: "length tok \<le> 8" "unat (h_tkl hdr) = length tok" and le: "4 + length tok \<le> buflen"
    and len: "buflen \<le> length (m r)" and d: "drop 4 (take buflen (m r)) = tok @ tail"
  shows "\<exists>buf. coap_parseToken old hdr r buflen = (COAP_ERR_NONE, buf) \<and> load_n m (b_p buf) (b_len buf) = Some tok"
proof -
  have "drop 4 (m r) = tok @ (tail @ drop buflen (m r))" using drop_take_append [of 4 buflen "m r"] le len d by simp
  then have "load_n m (Ptr r 4) (length tok) = Some tok" by (rule load_n_drop)
  with tok le show ?thesis
    by (auto simp: coap_parseToken_def load_n_def word_le_nat_alt word_unat_eq_iff)
qed

lemma coap_parse_enc:
  assumes wf: "wf_msg msg" and n: "length (m_opts msg) \<le> 16" and opts: "length (p_opts pkt) = 16"
    and b: "take buflen (m r) = enc_msg msg" and len: "buflen \<le> length (m r)"
  shows "\<exists>pkt'. coap_parse m pkt r buflen = Some (COAP_ERR_NONE, pkt') \<and>
     pkt_msg m pkt' = Some (msg\<lparr>m_opts := map trunc_num (m_opts msg)\<rparr>) \<and>
     unat (p_numopts pkt') = length (m_opts msg)"
proof -
  define tkl where "tkl = length (m_tok msg)"
  define hdr where "hdr = \<lparr>h_ver = 1, h_t = word_of_nat (m_type msg), h_tkl = word_of_nat tkl,
      h_code = m_code msg, h_id0 = m_id0 msg, h_id1 = m_id1 msg\<rparr>"
  have t: "m_type msg < 4" "tkl \<le> 8" "wf_opts 0 (m_opts msg)"
    using wf by (simp_all add: wf_msg_def tkl_def)
  have u: "unat (word_of_nat tkl :: u8) = tkl" "unat (word_of_nat (m_type msg) :: u8) = m_type msg"
      "unat (word_of_nat (length (m_opts msg)) :: u8) = length (m_opts msg)"
    using t n by (auto intro!: unat_of_nat_u8)
  have buflen: "4 + tkl \<le> buflen"
    using arg_cong [OF b, of length] len by (simp add: enc_msg_def tkl_def)
  have d4: "drop 4 (take buflen (m r)) = m_tok msg @ enc_opts 0 (m_opts msg) @ enc_pay (m_pay msg)"
    by (simp add: b enc_msg_def)
  have dopt: "drop (4 + tkl) (take buflen (m r)) = enc_opts 0 (m_opts msg) @ enc_pay (m_pay msg)"
    using drop_add_append [OF d4] by (simp add: tkl_def)
  have "drop (4 + tkl) (m r) =
      enc_opts 0 (m_opts msg) @ (enc_pay (m_pay msg) @ drop buflen (m r))"
    using drop_take_append [OF buflen len] dopt by simp
  then have view: "those (map (opt_view m) (opt_recs r (4 + tkl) 0 (m_opts msg))) =
      Some (map trunc_num (m_opts msg))"
    by (rule opt_recs_view)
  have "unat (h_tkl hdr) = length (m_tok msg)" using u(1) by (simp add: hdr_def tkl_def)
  then obtain tok where tok: "coap_parseToken (p_tok pkt) hdr r buflen = (COAP_ERR_NONE, tok)"
    "load_n m (b_p tok) (b_len tok) = Some (m_tok msg)"
    using coap_parseToken_enc [where m = m and r = r, OF _ _ _ len d4] t(2) buflen by (auto simp: tkl_def)
  have "coap_parseHeader m (p_hdr pkt) r buflen = Some (COAP_ERR_NONE, hdr)"
    unfolding hdr_def using t b
    by (intro coap_parseHeader_enc) (auto simp: enc_msg_def tkl_def)
  moreover obtain pl where
    "coap_parseOptionsAndPayload m (p_opts pkt) MAXOPT (p_payload pkt) hdr r buflen =
      Some (COAP_ERR_NONE, opt_recs r (4 + tkl) 0 (m_opts msg) @ drop (length (m_opts msg)) (p_opts pkt),
        word_of_nat (length (m_opts msg)), pl)"
    and "load_n m (b_p pl) (b_len pl) = Some (m_pay msg)"
    using coap_parseOptionsAndPayload_enc [where m = m and r = r and hdr = hdr, OF len _ t(3) n opts dopt buflen] u
    by (auto simp: hdr_def)
  ultimately show ?thesis
    using tok view u by (simp add: coap_parse_def pkt_msg_def hdr_def)
qed

subsection \<open>Properties\<close>

text \<open>The packet a caller passes to \<open>coap_parse\<close>, for the witnesses.\<close>

definition blank_pkt :: "'r coap_packet_t" where
  "blank_pkt = \<lparr>p_hdr = \<lparr>h_ver = 0, h_t = 0, h_tkl = 0, h_code = 0, h_id0 = 0, h_id1 = 0\<rparr>,
     p_tok = \<lparr>b_p = NULL, b_len = 0\<rparr>, p_numopts = 0,
     p_opts = replicate 16 \<lparr>o_num = 0, o_buf = \<lparr>b_p = NULL, b_len = 0\<rparr>\<rparr>,
     p_payload = \<lparr>b_p = NULL, b_len = 0\<rparr>\<rparr>"

lemma length_blank_pkt [simp]: "length (p_opts blank_pkt) = 16"
  by (simp add: blank_pkt_def)

text \<open>
  C10. Memory safety of the parser on arbitrary bytes: on any buffer that holds the stated number of
  bytes the parser returns, reading nothing outside it and writing at most 16 options; and when
  it accepts, token, options and payload of the packet all lie inside the received bytes.
\<close>

theorem coap_parse_safe:
  assumes "buflen \<le> length (m r)" and "length (p_opts pkt) = 16"
  shows "\<exists>rc pkt'. coap_parse m pkt r buflen = Some (rc, pkt') \<and> length (p_opts pkt') = 16 \<and>
           (rc = COAP_ERR_NONE \<longrightarrow> pkt_in r buflen pkt')"
  using coap_parse_total [of buflen m r pkt] assms by blast

theorem coap_parse_safe_witness:
  "\<exists>rc pkt'. coap_parse (\<lambda>_ :: unit. [0x40, 1, 0, 7, 0xDD, 0x11]) blank_pkt () 6 = Some (rc, pkt') \<and>
     (rc = COAP_ERR_NONE \<longrightarrow> pkt_in () 6 pkt')"
  using coap_parse_safe [of 6 "\<lambda>_ :: unit. [0x40, 1, 0, 7, 0xDD, 0x11]" "()" blank_pkt] by auto

text \<open>
  C18. Every message of the wire format with at most 16 options is accepted by the parser, whatever
  follows it in the buffer, and the packet denotes that message again, except that the parser
  keeps option numbers modulo 256.
\<close>

theorem coap_parse_decodes:
  assumes "wf_msg msg" and "length (m_opts msg) \<le> 16" and "length (p_opts pkt) = 16"
    and "m r = enc_msg msg @ rest"
  shows "\<exists>pkt'. coap_parse m pkt r (length (enc_msg msg)) = Some (COAP_ERR_NONE, pkt') \<and>
           pkt_msg m pkt' = Some (msg\<lparr>m_opts := map trunc_num (m_opts msg)\<rparr>)"
  using coap_parse_enc [of msg pkt "length (enc_msg msg)" m r] assms by auto

theorem coap_parse_decodes_witness:
  "\<exists>pkt'. coap_parse (\<lambda>_ :: unit. [0x41, 1, 0, 7, 0x55, 0xB1, 0x68, 0xD1, 0xF3, 0x32, 0xFF, 0x31, 9, 9])
       blank_pkt () 12 = Some (COAP_ERR_NONE, pkt') \<and>
     pkt_msg (\<lambda>_. [0x41, 1, 0, 7, 0x55, 0xB1, 0x68, 0xD1, 0xF3, 0x32, 0xFF, 0x31, 9, 9]) pkt' =
       Some \<lparr>m_type = 0, m_code = 1, m_id0 = 0, m_id1 = 7, m_tok = [0x55],
             m_opts = [(11, [0x68]), (11, [0x32])], m_pay = [0x31]\<rparr>"
proof -
  let ?msg = "\<lparr>m_type = 0, m_code = 1, m_id0 = 0, m_id1 = 7, m_tok = [0x55],
             m_opts = [(11, [0x68]), (267, [0x32])], m_pay = [0x31]\<rparr>"
  have e: "enc_msg ?msg = [0x41, 1, 0, 7, 0x55, 0xB1, 0x68, 0xD1, 0xF3, 0x32, 0xFF, 0x31]"
    by (simp add: enc_msg_def msg_first_def enc_opt_hdr_def opt_first_def opt_nib_def opt_ext_def enc_pay_def)
  have l: "length (enc_msg ?msg) = 12" by (simp add: e)
  show ?thesis
    using coap_parse_decodes [of ?msg blank_pkt
        "\<lambda>_ :: unit. [0x41, 1, 0, 7, 0x55, 0xB1, 0x68, 0xD1, 0xF3, 0x32, 0xFF, 0x31, 9, 9]" "()" "[9, 9]"]
    unfolding l unfolding e by (simp add: wf_msg_def trunc_num_def)
qed

text \<open>
  The reasons the parser gives for refusing a header: fewer than four bytes, a version other
  than 1, and a token longer than eight bytes or than the packet are each reported by their own
  code, in this order of precedence.
\<close>

lemma coap_parse_header_errors:
  assumes len: "buflen \<le> length (m r)"
  shows "(buflen < 4 \<longrightarrow>
            map_option fst (coap_parse m pkt r buflen) = Some COAP_ERR_HEADER_TOO_SHORT) \<and>
         (4 \<le> buflen \<and> unat (m r ! 0) div 64 \<noteq> 1 \<longrightarrow>
            map_option fst (coap_parse m pkt r buflen) = Some COAP_ERR_VERSION_NOT_1) \<and>
         (4 \<le> buflen \<and> unat (m r ! 0) div 64 = 1 \<and>
          (8 < unat (m r ! 0) mod 16 \<or> buflen < 4 + unat (m r ! 0) mod 16) \<longrightarrow>
            map_option fst (coap_parse m pkt r buflen) = Some COAP_ERR_TOKEN_TOO_SHORT)"
proof (intro conjI impI)
  have v: "drop_bit 6 (b AND 0xC0) = (1 :: u8) \<longleftrightarrow> unat b div 64 = 1" for b :: u8
    by (simp only: word_unat_eq_iff u8_top_two) simp
  show "map_option fst (coap_parse m pkt r buflen) = Some COAP_ERR_HEADER_TOO_SHORT" if "buflen < 4"
    using that by (simp add: coap_parse_def coap_parseHeader_def)
  show "map_option fst (coap_parse m pkt r buflen) = Some COAP_ERR_VERSION_NOT_1"
    if "4 \<le> buflen \<and> unat (m r ! 0) div 64 \<noteq> 1"
    using that len
    by (auto simp: coap_parse_def coap_parseHeader_def v rd_def Let_def simp del: drop_bit_and)
  show "map_option fst (coap_parse m pkt r buflen) = Some COAP_ERR_TOKEN_TOO_SHORT"
    if "4 \<le> buflen \<and> unat (m r ! 0) div 64 = 1 \<and>
      (8 < unat (m r ! 0) mod 16 \<or> buflen < 4 + unat (m r ! 0) mod 16)"
    using that len
    by (auto simp: coap_parse_def coap_parseHeader_def coap_parseToken_def v rd_def Let_def
        word_unat_eq_iff u8_and_0F u8_top_two word_le_nat_alt simp del: drop_bit_and)
qed

lemma coap_parse_header_errors_witness:
  "map_option fst (coap_parse (\<lambda>_ :: unit. [0x40, 1, 0]) blank_pkt () 3) = Some COAP_ERR_HEADER_TOO_SHORT \<and>
   map_option fst (coap_parse (\<lambda>_ :: unit. [0x80, 1, 0, 7]) blank_pkt () 4) = Some COAP_ERR_VERSION_NOT_1 \<and>
   map_option fst (coap_parse (\<lambda>_ :: unit. [0x42, 1, 0, 7, 1]) blank_pkt () 5) = Some COAP_ERR_TOKEN_TOO_SHORT"
  using coap_parse_header_errors [of 3 "\<lambda>_ :: unit. [0x40, 1, 0]" "()" blank_pkt]
    coap_parse_header_errors [of 4 "\<lambda>_ :: unit. [0x80, 1, 0, 7]" "()" blank_pkt]
    coap_parse_header_errors [of 5 "\<lambda>_ :: unit. [0x42, 1, 0, 7, 1]" "()" blank_pkt]
  by simp

text \<open>
  What an earlier, longer packet left in the buffer behind the received bytes has no influence on
  the parser.
\<close>

lemma coap_parse_ignores_stale_bytes:
  assumes "m r = d @ stale" and "m' r = d @ stale'"
  shows "coap_parse m pkt r (length d) = coap_parse m' pkt r (length d)"
  using assms by (intro coap_parse_local) simp_all

lemma coap_parse_ignores_stale_bytes_witness:
  "coap_parse (\<lambda>_ :: unit. [0x40, 1, 0, 7] @ [0xFF, 0x31]) blank_pkt () 4 =
   coap_parse (\<lambda>_ :: unit. [0x40, 1, 0, 7] @ [0xBF]) blank_pkt () 4"
  using coap_parse_ignores_stale_bytes [of "\<lambda>_ :: unit. [0x40, 1, 0, 7] @ [0xFF, 0x31]" "()"
      "[0x40, 1, 0, 7]" "[0xFF, 0x31]" "\<lambda>_ :: unit. [0x40, 1, 0, 7] @ [0xBF]" "[0xBF]" blank_pkt]
  by (simp add: numeral_eq_Suc)

end
