(* ===== verification/Microcoap_Build.thy ===== *)
theory Microcoap_Build
  imports Microcoap_Parse
begin

section \<open>Correctness of the server's CoAP builder\<close>

text \<open>
  \<open>coap_build\<close> writes the encoding of the message its packet denotes, when the buffer has room, the
  option numbers do not decrease and every option value is shorter than 269 bytes (the two-byte
  extended length is written wrongly; see \<open>build_long_option\<close>).  The packet's pointers must not
  point into the output buffer, except that the token may already be in its final place: that is
  how the server uses it, answering in the buffer that holds the request.
\<close>

subsection \<open>Writing a buffer from its start\<close>

definition put :: "'r mem \<Rightarrow> 'r \<Rightarrow> u8 list \<Rightarrow> 'r mem" where
  "put m r xs = m(r := xs @ drop (length xs) (m r))"

lemma store_put:
  "length xs + length ys \<le> length (m r) \<Longrightarrow> i = length xs \<Longrightarrow>
     store_n (put m r xs) r i ys = Some (put m r (xs @ ys))"
  by (simp add: store_n_def put_def ac_simps)

lemma store_put_start: "length ys \<le> length (m r) \<Longrightarrow> store_n m r 0 ys = Some (put m r ys)"
  by (simp add: store_n_def put_def)

lemma put_other [simp]: "r' \<noteq> r \<Longrightarrow> put m r xs r' = m r'"
  by (simp add: put_def)

lemma put_same: "put m r xs r = xs @ drop (length xs) (m r)"
  by (simp add: put_def)

lemma length_put [simp]: "length xs \<le> length (m r) \<Longrightarrow> length (put m r xs r) = length (m r)"
  by (simp add: put_def)

text \<open>A pointer that does not lead into region \<open>r\<close>.\<close>

definition outside :: "'r \<Rightarrow> 'r ptr \<Rightarrow> bool" where
  "outside r p \<longleftrightarrow> (case p of NULL \<Rightarrow> True | Ptr r' i \<Rightarrow> r' \<noteq> r)"

lemma load_put_outside: "outside r p \<Longrightarrow> load_n (put m r xs) p n = load_n m p n"
  by (auto simp: outside_def load_n_def split: ptr.splits)

lemma load_n_length: "load_n m p n = Some v \<Longrightarrow> length v = n"
  by (auto simp: load_n_def rdn_def split: if_splits ptr.splits)

subsection \<open>Option headers\<close>

lemma coap_option_nibble_enc:
  assumes "x < 65805"
  shows "coap_option_nibble (word_of_nat x) = Some (word_of_nat (opt_nib x))"
proof -
  have u: "unat (word_of_nat x :: u32) = x" using assms by (simp add: unat_of_nat)
  have "ucast (0xFF AND (word_of_nat x :: u32)) = (word_of_nat x :: u8)" if "x < 13"
  proof -
    have "(0xFF :: u32) = mask 8" by (simp add: mask_eq_exp_minus_1)
    then have "0xFF AND (word_of_nat x :: u32) = word_of_nat x"
      using and_mask_id [of "word_of_nat x :: u32" 8] u that by (simp add: and.commute)
    then show ?thesis
      using that u by (simp add: word_unat_eq_iff unsigned_ucast_eq unat_of_nat take_bit_nat_def)
  qed
  with assms show ?thesis
    by (simp add: coap_option_nibble_def opt_nib_def word_less_nat_alt word_le_nat_alt u
        del: unat_of_nat)
qed

lemma build_option_header_enc:
  assumes d: "d < 256" and l: "l < 269"
  shows "build_option_header (word_of_nat d) l = Some (enc_opt_hdr d l)"
proof -
  have nib: "unat (word_of_nat (opt_nib x) :: u8) = opt_nib x" for x
    using opt_nib_less [of x] by (intro unat_of_nat_u8) simp
  have first: "0xFF AND (push_bit 4 (word_of_nat (opt_nib d)) OR word_of_nat (opt_nib l)) = opt_first d l"
    using word_or_add [of "opt_nib l" 4 "opt_nib d", where 'a = 8] opt_nib_less [of l]
    by (simp add: and_255 opt_first_def)
  have is13: "(word_of_nat (opt_nib x) = (13 :: u8)) = (13 \<le> x \<and> x < 269)"
    and is14: "(word_of_nat (opt_nib x) = (14 :: u8)) = (269 \<le> x)" for x
    using nib [of x] by (auto simp: word_unat_eq_iff opt_nib_def simp del: unat_of_nat split: if_splits)
  have ed: "ucast (word_of_nat d - 13 :: u32) = (word_of_nat (d - 13) :: u8)" if "13 \<le> d"
  proof -
    have "(word_of_nat d - 13 :: u32) = word_of_nat (d - 13)" using that by simp
    then show ?thesis
      using d by (simp only:) (simp add: word_unat_eq_iff unsigned_ucast_eq unat_of_nat take_bit_nat_def mod_mod_cancel
        del: of_nat_diff)
  qed
  have el: "szsub l 13 = l - 13" if "13 \<le> l" using that l by (simp add: szsub_le)
  show ?thesis
    using d l ed el
    by (simp add: build_option_header_def coap_option_nibble_enc Let_def first is13 is14
        enc_opt_hdr_def opt_ext_def)
qed

subsection \<open>Options\<close>

text \<open>The options from index \<open>i\<close> on denote \<open>os\<close> and can be built into region \<open>r\<close>.\<close>

definition opts_src :: "'r mem \<Rightarrow> 'r \<Rightarrow> 'r coap_option_t list \<Rightarrow> (nat \<times> u8 list) list \<Rightarrow> bool" where
  "opts_src m r opts os \<longleftrightarrow>
     list_all2 (\<lambda>opt nv. opt_view m opt = Some nv \<and> outside r (b_p (o_buf opt)) \<and>
       length (snd nv) < 269) opts os"

lemma delta32:
  assumes "unat (k :: u8) = n" and "prev \<le> n"
  shows "ucast k - ucast (word_of_nat prev :: u16) = (word_of_nat (n - prev) :: u32)"
proof -
  have "n < 256" using assms(1) u8_less [of k] by simp
  then have "(ucast (word_of_nat prev :: u16) :: u32) = word_of_nat prev"
    using assms(2) by (simp add: word_unat_eq_iff unsigned_ucast_eq unat_of_nat take_bit_nat_def)
  moreover have "(ucast k :: u32) = word_of_nat n"
    using assms(1) by (rule ucast_u8_value)
  ultimately show ?thesis using assms(2) by simp
qed

lemma build_options_enc:
  assumes "opts_src m r (drop i (take n opts)) os" and "n \<le> length opts" and "i \<le> n"
    and "wf_opts prev os"
    and "length xs + length (enc_opts prev os) \<le> buflen" and "buflen \<le> length (m r)"
  shows "build_options r buflen opts n i (put m r xs) (length xs) (word_of_nat prev) =
     Some (COAP_ERR_NONE, put m r (xs @ enc_opts prev os), length xs + length (enc_opts prev os))"
  using assms
proof (induction prev os arbitrary: i xs rule: enc_opts.induct)
  case (1 prev)
  then have "i = n" by (simp add: opts_src_def)
  then show ?case by (simp add: build_options.simps)
next
  case (2 prev k v os)
  then have i: "i < n"
    by (auto simp: opts_src_def dest!: list_all2_lengthD)
  with "2.prems" have dr: "drop i (take n opts) = opts ! i # drop (i + 1) (take n opts)"
    by (simp add: Cons_nth_drop_Suc [symmetric])
  let ?o = "opts ! i" and ?h = "enc_opt_hdr (k - prev) (length v)"
  from "2.prems"(1) dr have o: "opt_view m ?o = Some (k, v)" "outside r (b_p (o_buf ?o))"
      "length v < 269" and rest: "opts_src m r (drop (i + 1) (take n opts)) os"
    by (auto simp: opts_src_def)
  from o(1) have num: "unat (o_num ?o) = k"
    and ld: "load_n m (b_p (o_buf ?o)) (b_len (o_buf ?o)) = Some v"
    by (auto simp: opt_view_def)
  have len: "b_len (o_buf ?o) = length v" using load_n_length [OF ld] by simp
  have k: "k - prev < 256" "prev \<le> k" using num u8_less [of "o_num ?o"] "2.prems" by auto
  have hdr: "build_option_header (ucast (o_num ?o) - ucast (word_of_nat prev :: u16)) (length v) = Some ?h"
    using build_option_header_enc [OF k(1) o(3)] delta32 [OF num k(2)] by simp
  have room: "length xs + length ?h + length v + length (enc_opts k os) \<le> buflen"
    using "2.prems"(5) by simp
  have w: "(ucast (o_num ?o) :: u16) = word_of_nat k"
    using num by (rule ucast_u8_value)
  have "build_options r buflen opts n i (put m r xs) (length xs) (word_of_nat prev) =
      build_options r buflen opts n (i + 1) (put m r (xs @ ?h @ v)) (length (xs @ ?h @ v)) (word_of_nat k)"
    using i "2.prems"(2,6) room hdr ld len o(2)
      store_put [of xs ?h m r] store_put [of "xs @ ?h" v m r]
    by (simp add: build_options.simps [of r buflen opts n i] load_put_outside w ac_simps)
  also have "\<dots> = Some (COAP_ERR_NONE, put m r ((xs @ ?h @ v) @ enc_opts k os),
      length (xs @ ?h @ v) + length (enc_opts k os))"
    using "2.prems" rest i room by (intro "2.IH") auto
  finally show ?case by (simp add: ac_simps)
qed

subsection \<open>Packets\<close>

text \<open>
  A packet that \<open>coap_build\<close> can write into region \<open>r\<close>: what it denotes, and where its pointers
  may lead.
\<close>

definition buildable :: "'r mem \<Rightarrow> 'r \<Rightarrow> 'r coap_packet_t \<Rightarrow> coap_msg \<Rightarrow> bool" where
  "buildable m r pkt msg \<longleftrightarrow>
     pkt_msg m pkt = Some msg \<and> wf_msg msg \<and> h_ver (p_hdr pkt) = 1 \<and>
     unat (h_tkl (p_hdr pkt)) = b_len (p_tok pkt) \<and>
     unat (p_numopts pkt) \<le> length (p_opts pkt) \<and>
     opts_src m r (take (unat (p_numopts pkt)) (p_opts pkt)) (m_opts msg) \<and>
     (outside r (b_p (p_tok pkt)) \<or> b_p (p_tok pkt) = Ptr r 4) \<and>
     outside r (b_p (p_payload pkt))"

lemma those_Some_list_all2: "those xs = Some ys \<Longrightarrow> list_all2 (\<lambda>x y. x = Some y) xs ys"
  by (induction xs arbitrary: ys) (auto split: option.splits)

lemma pkt_msg_SomeD:
  assumes "pkt_msg m pkt = Some msg"
  shows "load_n m (b_p (p_tok pkt)) (b_len (p_tok pkt)) = Some (m_tok msg)"
    and "those (map (opt_view m) (take (unat (p_numopts pkt)) (p_opts pkt))) = Some (m_opts msg)"
    and "load_n m (b_p (p_payload pkt)) (b_len (p_payload pkt)) = Some (m_pay msg)"
    and "m_type msg = unat (h_t (p_hdr pkt))" and "m_code msg = h_code (p_hdr pkt)"
    and "m_id0 msg = h_id0 (p_hdr pkt)" and "m_id1 msg = h_id1 (p_hdr pkt)"
  using assms by (auto simp: pkt_msg_def split: bind_splits)

lemma header_byte:
  assumes "type < 4" and "tkl < 16" and "unat t = type" and "unat k = tkl"
  shows "push_bit 6 ((1 :: u8) AND 3) OR push_bit 4 (t AND 3) OR (k AND 0x0F) = msg_first type tkl"
proof -
  have t: "t = word_of_nat type" and k: "k = word_of_nat tkl"
    using assms(3,4) by (simp_all add: word_value)
  have m: "t AND 3 = t" "k AND 0x0F = k"
    using and_mask_id [of t 2] and_mask_id [of k 4] assms by (simp_all add: mask_eq_exp_minus_1)
  have "push_bit 4 t OR k = word_of_nat (type * 16 + tkl)"
    using word_or_add [of tkl 4 type, where 'a = 8] assms(2) by (simp add: t k)
  moreover have "push_bit 6 (1 :: u8) OR word_of_nat (type * 16 + tkl) = word_of_nat (64 + (type * 16 + tkl))"
    using word_or_add [of "type * 16 + tkl" 6 1, where 'a = 8] assms(1,2) by simp
  ultimately show ?thesis
    by (simp add: m msg_first_def ac_simps)
qed

lemma load_token_after_header:
  assumes "load_n m p n = Some tok" and "outside r p \<or> p = Ptr r 4" and "length hs = 4"
    and "4 + n \<le> length (m r)"
  shows "load_n (put m r hs) p n = Some tok"
proof (cases "outside r p")
  case True
  with assms(1) show ?thesis by (simp add: load_put_outside)
next
  case False
  with assms(2) have "p = Ptr r 4" by simp
  with assms show ?thesis
    by (auto simp: load_n_def rdn_def put_same split: if_splits)
qed

lemma build_payload:
  assumes "load_n m p (length pay) = Some pay" and "outside r p"
    and "length xs + 1 + length pay \<le> length (m r)"
  shows "do {
      m4 \<leftarrow> store_n (put m r xs) r (length xs) [0xFF];
      pl \<leftarrow> load_n m4 p (length pay);
      m5 \<leftarrow> store_n m4 r (length xs + 1) pl;
      Some (rc, m5, k)
    } = Some (rc, put m r (xs @ 0xFF # pay), k)"
  using assms store_put [of xs "[0xFF]" m r] store_put [of "xs @ [0xFF]" pay m r]
  by (simp add: load_put_outside)

text \<open>What a message puts in front of its payload.\<close>

definition msg_head :: "coap_msg \<Rightarrow> u8 list" where
  "msg_head msg = [msg_first (m_type msg) (length (m_tok msg)), m_code msg, m_id0 msg, m_id1 msg]"

definition msg_front :: "coap_msg \<Rightarrow> u8 list" where
  "msg_front msg = msg_head msg @ m_tok msg @ enc_opts 0 (m_opts msg)"

lemma enc_msg_front: "enc_msg msg = msg_front msg @ enc_pay (m_pay msg)"
  by (simp add: enc_msg_def msg_front_def msg_head_def)

lemma length_msg_head [simp]: "length (msg_head msg) = 4"
  by (simp add: msg_head_def)

lemma length_msg_front:
  "length (msg_front msg) = 4 + (length (m_tok msg) + length (enc_opts 0 (m_opts msg)))"
  by (simp add: msg_front_def)

lemma buildableD:
  assumes "buildable m r pkt msg"
  shows "b_len (p_tok pkt) = length (m_tok msg)" "b_len (p_payload pkt) = length (m_pay msg)"
    and "unat (h_tkl (p_hdr pkt)) = length (m_tok msg)" "length (m_tok msg) \<le> 8"
    and "[push_bit 6 (h_ver (p_hdr pkt) AND 3) OR push_bit 4 (h_t (p_hdr pkt) AND 3) OR
        (h_tkl (p_hdr pkt) AND 0x0F), h_code (p_hdr pkt), h_id0 (p_hdr pkt), h_id1 (p_hdr pkt)] =
        msg_head msg"
    and "load_n m (b_p (p_payload pkt)) (length (m_pay msg)) = Some (m_pay msg)"
    and "load_n m (b_p (p_tok pkt)) (length (m_tok msg)) = Some (m_tok msg)"
proof -
  have "pkt_msg m pkt = Some msg" using assms by (simp add: buildable_def)
  note D = pkt_msg_SomeD [OF this]
  show l: "b_len (p_tok pkt) = length (m_tok msg)" "b_len (p_payload pkt) = length (m_pay msg)"
    using load_n_length [OF D(1)] load_n_length [OF D(3)] by simp_all
  show k: "unat (h_tkl (p_hdr pkt)) = length (m_tok msg)" "length (m_tok msg) \<le> 8"
    using assms l by (auto simp: buildable_def wf_msg_def)
  have w: "m_type msg < 4" "h_ver (p_hdr pkt) = 1" using assms by (auto simp: buildable_def wf_msg_def)
  then show "[push_bit 6 (h_ver (p_hdr pkt) AND 3) OR push_bit 4 (h_t (p_hdr pkt) AND 3) OR
      (h_tkl (p_hdr pkt) AND 0x0F), h_code (p_hdr pkt), h_id0 (p_hdr pkt), h_id1 (p_hdr pkt)] =
      msg_head msg"
    unfolding msg_head_def w(2) using k D(4-7)
    by (subst header_byte [of "m_type msg" "length (m_tok msg)"]) simp_all
  show "load_n m (b_p (p_payload pkt)) (length (m_pay msg)) = Some (m_pay msg)"
    "load_n m (b_p (p_tok pkt)) (length (m_tok msg)) = Some (m_tok msg)"
    using D(1,3) l by simp_all
qed

text \<open>\<open>coap_build\<close> up to the payload.\<close>

lemma coap_build_front:
  assumes bd: "buildable m r pkt msg" and fits: "length (msg_front msg) \<le> buflen"
    and room: "buflen \<le> length (m r)"
  shows "coap_build m r buflen pkt =
      (let k = length (m_tok msg) + length (enc_opts 0 (m_opts msg)); plen = length (m_pay msg) in
       if 0 < plen then
         (if buflen < sz (4 + 1 + plen + k) then
            Some (COAP_ERR_BUFFER_TOO_SMALL, put m r (msg_front msg), buflen)
          else do {
            m4 \<leftarrow> store_n (put m r (msg_front msg)) r (4 + k) [0xFF];
            pl \<leftarrow> load_n m4 (b_p (p_payload pkt)) plen;
            m5 \<leftarrow> store_n m4 r (5 + k) pl;
            Some (COAP_ERR_NONE, m5, k + 5 + plen)
          })
       else Some (COAP_ERR_NONE, put m r (msg_front msg), k + 4))"
proof -
  let ?n = "unat (p_numopts pkt)" and ?hs = "msg_head msg" and ?os = "enc_opts 0 (m_opts msg)"
  note D = buildableD [OF bd]
  have total: "4 + length (m_tok msg) + length ?os \<le> buflen"
    using fits by (simp add: length_msg_front)
  have s1: "store_n m r 0 ?hs = Some (put m r ?hs)"
    using total room by (intro store_put_start) simp
  have l1: "load_n (put m r ?hs) (b_p (p_tok pkt)) (length (m_tok msg)) = Some (m_tok msg)"
    using D bd total room by (intro load_token_after_header) (auto simp: buildable_def)
  have s2: "store_n (put m r ?hs) r 4 (m_tok msg) = Some (put m r (?hs @ m_tok msg))"
    using total room by (intro store_put) auto
  have b: "build_options r buflen (p_opts pkt) ?n 0 (put m r (?hs @ m_tok msg))
      (4 + length (m_tok msg)) 0 =
      Some (COAP_ERR_NONE, put m r (msg_front msg), 4 + length (m_tok msg) + length ?os)"
    using build_options_enc [where m = m and r = r and i = 0 and n = ?n and opts = "p_opts pkt"
        and os = "m_opts msg" and prev = 0 and xs = "?hs @ m_tok msg" and buflen = buflen]
      bd total room
    by (simp add: buildable_def wf_msg_def msg_front_def)
  show ?thesis
    unfolding coap_build_def Let_def D(5)
    using total by (simp add: D(1-3) s1 l1 s2 b)
qed

lemma coap_build_enc:
  assumes bd: "buildable m r pkt msg" and len: "length (enc_msg msg) \<le> buflen"
    and room: "buflen \<le> length (m r)" and small: "buflen < 2 ^ 64"
  shows "coap_build m r buflen pkt =
     Some (COAP_ERR_NONE, put m r (enc_msg msg), length (enc_msg msg))"
proof -
  let ?xs = "msg_front msg" and ?pay = "m_pay msg"
    and ?k = "length (m_tok msg) + length (enc_opts 0 (m_opts msg))"
  have "length ?xs \<le> buflen" using len by (simp add: enc_msg_front)
  note front = coap_build_front [OF bd this room, unfolded Let_def]
  show ?thesis
  proof (cases "?pay = []")
    case True
    then show ?thesis by (simp add: front enc_msg_front enc_pay_def length_msg_front)
  next
    case False
    have lx: "4 + ?k = length ?xs" "5 + ?k = length ?xs + 1"
      "?k + 5 + length ?pay = length ?xs + 1 + length ?pay"
      by (simp_all add: length_msg_front)
    have fits: "length ?xs + 1 + length ?pay \<le> buflen"
      using len False by (simp add: enc_msg_front enc_pay_def)
    then have "\<not> buflen < sz (4 + 1 + length ?pay + ?k)"
      using small by (simp add: sz_id length_msg_front)
    moreover have "outside r (b_p (p_payload pkt))" using bd by (simp add: buildable_def)
    ultimately show ?thesis
      unfolding front lx
      using build_payload [of m "b_p (p_payload pkt)" ?pay r ?xs COAP_ERR_NONE
          "length ?xs + 1 + length ?pay"] buildableD(6) [OF bd] fits room False
      by (simp add: enc_msg_front enc_pay_def add.assoc)
  qed
qed

text \<open>A message with a payload that does not fit is refused after its front was written.\<close>

lemma coap_build_too_small:
  assumes bd: "buildable m r pkt msg" and fits: "length (msg_front msg) \<le> buflen"
    and room: "buflen \<le> length (m r)" and big: "buflen < length (enc_msg msg)"
    and small: "length (enc_msg msg) < 2 ^ 64"
  shows "coap_build m r buflen pkt = Some (COAP_ERR_BUFFER_TOO_SMALL, put m r (msg_front msg), buflen)"
proof -
  have "m_pay msg \<noteq> []" using fits big by (auto simp: enc_msg_front enc_pay_def)
  moreover from this have "buflen < sz (4 + 1 + length (m_pay msg) +
      (length (m_tok msg) + length (enc_opts 0 (m_opts msg))))"
    using big small by (simp add: enc_msg_front enc_pay_def length_msg_front sz_id)
  ultimately show ?thesis by (simp add: coap_build_front [OF bd fits room])
qed

subsection \<open>Properties\<close>

text \<open>
  C17. The builder writes the wire format: a packet that denotes a well-formed message (option values
  below 269 bytes, pointers that do not lead into the output, except for a token that is already
  in place) is written as exactly the encoding of that message when it fits, and nothing behind
  it is touched; when the payload does not fit, the call reports it.
\<close>

theorem coap_build_encodes:
  assumes "buildable m r pkt msg" and "length (msg_front msg) \<le> buflen"
    and "buflen \<le> length (m r)" and "length (m r) < 2 ^ 63" and "length (m_pay msg) < 2 ^ 63"
  shows "coap_build m r buflen pkt =
     (if length (enc_msg msg) \<le> buflen
      then Some (COAP_ERR_NONE, m(r := enc_msg msg @ drop (length (enc_msg msg)) (m r)),
             length (enc_msg msg))
      else Some (COAP_ERR_BUFFER_TOO_SMALL, m(r := msg_front msg @ drop (length (msg_front msg)) (m r)),
             buflen))"
proof -
  have "length (enc_msg msg) < 2 ^ 64"
    using assms(2-5) by (simp add: enc_msg_front enc_pay_def)
  then show ?thesis
    using coap_build_enc [OF assms(1) _ assms(3)] coap_build_too_small [OF assms(1-3)] assms(3,4)
    by (auto simp: put_def)
qed

text \<open>A request packet with its value and payload in a region beside the output, for the witnesses.\<close>

definition hello_pkt :: "bool coap_packet_t" where
  "hello_pkt = blank_pkt\<lparr>p_hdr := \<lparr>h_ver = 1, h_t = 0, h_tkl = 0, h_code = 1, h_id0 = 0, h_id1 = 7\<rparr>,
     p_numopts := 1,
     p_opts := \<lparr>o_num = 11, o_buf = \<lparr>b_p = Ptr True 0, b_len = 5\<rparr>\<rparr> # drop 1 (p_opts blank_pkt),
     p_payload := \<lparr>b_p = Ptr True 5, b_len = 1\<rparr>\<rparr>"

definition hello_mem :: "bool mem" where
  "hello_mem r = (if r then bytes ''hello1'' else replicate 20 0)"

definition hello_msg :: coap_msg where
  "hello_msg = \<lparr>m_type = 0, m_code = 1, m_id0 = 0, m_id1 = 7, m_tok = [],
     m_opts = [(11, bytes ''hello'')], m_pay = bytes ''1''\<rparr>"

lemma load_hello:
  "load_n hello_mem (Ptr True 0) 5 = Some (bytes ''hello'')"
  "load_n hello_mem (Ptr True 5) 1 = Some (bytes ''1'')"
  by (simp_all add: load_n_def rdn_def hello_mem_def bytes_def)

lemma hello_buildable: "buildable hello_mem False hello_pkt hello_msg"
  using load_hello
  by (simp add: buildable_def pkt_msg_def hello_pkt_def hello_msg_def blank_pkt_def load_n_def [of _ NULL]
      opt_view_def wf_msg_def opts_src_def outside_def)

lemma enc_hello_msg: "enc_msg hello_msg = [0x40, 1, 0, 7, 0xB5] @ bytes ''hello'' @ [0xFF, 0x31]"
  by (simp add: hello_msg_def enc_msg_def msg_first_def enc_opt_hdr_def opt_first_def opt_nib_def
      opt_ext_def enc_pay_def bytes_def)

lemma msg_front_hello: "msg_front hello_msg = [0x40, 1, 0, 7, 0xB5] @ bytes ''hello''"
  by (simp add: hello_msg_def msg_front_def msg_head_def msg_first_def enc_opt_hdr_def opt_first_def
      opt_nib_def opt_ext_def bytes_def)

theorem coap_build_encodes_witness:
  "(\<exists>m'. coap_build hello_mem False 20 hello_pkt = Some (COAP_ERR_NONE, m', 12) \<and>
      take 12 (m' False) = [0x40, 1, 0, 7, 0xB5] @ bytes ''hello'' @ [0xFF, 0x31]) \<and>
   (\<exists>m'. coap_build hello_mem False 11 hello_pkt = Some (COAP_ERR_BUFFER_TOO_SMALL, m', 11))"
  using coap_build_encodes [OF hello_buildable, of 20] coap_build_encodes [OF hello_buildable, of 11]
  unfolding enc_hello_msg msg_front_hello
  by (simp add: hello_mem_def hello_msg_def)

text \<open>
  C11. What the builder writes, the parser reads back as the same message.  This is for a packet that
  stands for a well-formed message with at most 16 options, all values of which are shorter than 269
  bytes (a longer value is written with a wrong length, see below); whose option values and payload lie
  outside the buffer, and its token too unless it is where it is to be written; and for a buffer in which
  the message fits.
\<close>

theorem coap_build_parse_roundtrip:
  assumes "buildable m r pkt msg" and "length (enc_msg msg) \<le> length (m r)" and "length (m r) < 2 ^ 63"
    and "length (m_opts msg) \<le> 16" and "length (p_opts pkt0) = 16"
  shows "\<exists>m' n pkt'. coap_build m r (length (m r)) pkt = Some (COAP_ERR_NONE, m', n) \<and>
           coap_parse m' pkt0 r n = Some (COAP_ERR_NONE, pkt') \<and> pkt_msg m' pkt' = Some msg"
proof -
  have wf: "wf_msg msg" using assms(1) by (simp add: buildable_def)
  have "unat (o_num opt) < 256" for opt :: "'a coap_option_t" by (rule u8_less)
  then have "map trunc_num (m_opts msg) = m_opts msg"
    using assms(1) unfolding buildable_def opts_src_def trunc_num_def
    by (intro map_idI) (fastforce simp: opt_view_def list_all2_conv_all_nth in_set_conv_nth)
  with coap_build_enc [OF assms(1,2)] assms(3)
    coap_parse_enc [OF wf assms(4,5), of "length (enc_msg msg)" "put m r (enc_msg msg)" r] assms(2)
  show ?thesis by (auto simp: put_same)
qed

theorem coap_build_parse_roundtrip_witness:
  "\<exists>m' n pkt'. coap_build hello_mem False 20 hello_pkt = Some (COAP_ERR_NONE, m', n) \<and>
     coap_parse m' blank_pkt False n = Some (COAP_ERR_NONE, pkt') \<and> pkt_msg m' pkt' = Some hello_msg"
proof -
  have "length (enc_msg hello_msg) \<le> length (hello_mem False)"
    by (simp add: enc_hello_msg hello_mem_def)
  moreover have "length (hello_mem False) = 20" "length (m_opts hello_msg) = 1"
    by (simp_all add: hello_mem_def hello_msg_def)
  ultimately show ?thesis
    using coap_build_parse_roundtrip [OF hello_buildable, of blank_pkt] by simp
qed

text \<open>
  The two-byte form of an option length is written wrongly: for every option value of 269 bytes
  or more, the length that the parser reads back from the header the builder writes differs from
  the length of the value.
\<close>

lemma build_long_option:
  assumes n: "269 \<le> n" "n < 65536"
  shows "\<exists>h. build_option_header 0 n = Some h \<and> length h = 3 \<and>
     (\<exists>l. parse_ext_field h 0 1 3 (ucast (hd h AND 0x0F)) COAP_ERR_OPTION_LEN_INVALID =
            Some (Inr (l, 3, 2)) \<and> unat l \<noteq> n)"
proof -
  define hi where "hi = n div 256"
  define lo where "lo = (n - 269) mod 256"
  have hl: "hi < 256" "lo < 256" "hi * 256 \<le> n" "n < hi * 256 + 256"
    using n by (auto simp: hi_def lo_def less_mult_imp_div_less)
  have u: "unat (word_of_nat n :: u32) = n" using n by (simp add: unat_of_nat)
  have nib: "coap_option_nibble (word_of_nat n) = Some 14"
    using coap_option_nibble_enc [of n] n by (simp add: opt_nib_def)
  have s: "szsub n 269 = n - 269" using n by (intro szsub_le) auto
  have lo': "(0xFF :: u8) AND word_of_nat (n - 269) = word_of_nat lo"
    by (simp add: and_255 lo_def word_unat_eq_iff unat_of_nat)
  have h: "build_option_header 0 n = Some [14, word_of_nat hi, word_of_nat lo]"
    using nib by (simp add: build_option_header_def coap_option_nibble_def [of 0] s lo' hi_def)
  let ?l = "(push_bit 8 (ucast (word_of_nat hi :: u8)) OR ucast (word_of_nat lo :: u8)) + 269 :: u16"
  have "?l = word_of_nat (hi * 256 + lo + 269)"
    using hl by (simp add: be16_or unat_of_nat)
  then have "unat ?l = (hi * 256 + lo + 269) mod 65536"
    by (simp only: unat_of_nat) simp
  also have "\<dots> \<noteq> n"
  proof
    assume "(hi * 256 + lo + 269) mod 65536 = n"
    moreover have "hi * 256 + lo + 269 < 2 * 65536" using hl by linarith
    ultimately have "n = hi * 256 + lo + 269 \<or> n + 65536 = hi * 256 + lo + 269"
      by (cases "hi * 256 + lo + 269 < 65536") (auto simp: le_mod_geq)
    with hl n show False by linarith
  qed
  finally show ?thesis
    by (simp add: h parse_ext_field_def)
qed

lemma build_long_option_witness:
  "\<exists>h l. build_option_header 0 300 = Some h \<and>
     parse_ext_field h 0 1 3 (ucast (hd h AND 0x0F)) COAP_ERR_OPTION_LEN_INVALID =
            Some (Inr (l, 3, 2)) \<and> unat l \<noteq> 300"
  using build_long_option [of 300] by auto

text \<open>
  The room for an option is checked only before it, not for it: a packet whose option is longer
  than the rest of the buffer makes the builder write outside the buffer.
\<close>

lemma coap_build_option_overflow:
  "coap_build (hello_mem(False := replicate 8 0)) False 8 hello_pkt = None"
proof -
  have "store_n (hello_mem(False := [0x40, 1, 0, 7, 0, 0, 0, 0])) False 4 [0xB5] =
      Some (hello_mem(False := [0x40, 1, 0, 7, 0xB5, 0, 0, 0]))"
    by (simp add: store_n_def wrn_def)
  moreover have "store_n (hello_mem(False := replicate 8 0)) False 0 [0x40, 1, 0, 7] =
      Some (hello_mem(False := [0x40, 1, 0, 7, 0, 0, 0, 0]))"
    by (simp add: store_n_def wrn_def numeral_eq_Suc)
  moreover have "store_n (hello_mem(False := [0x40, 1, 0, 7, 0xB5, 0, 0, 0])) False 5 (bytes ''hello'') = None"
    by (simp add: store_n_def wrn_def)
  ultimately show ?thesis
    using load_hello
    by (simp add: coap_build_def hello_pkt_def build_options.simps build_option_header_def
        coap_option_nibble_def load_n_def store_n_def)
qed

end
