(* ===== verification/Coap_Server.thy ===== *)
theory Coap_Server
  imports Microcoap_Build
begin

section \<open>The CoAP server: coapServer/endpoints.c, coapServer.c and coap_handle_req\<close>

text \<open>
  The server process receives a datagram into the static array \<open>buf\<close>, parses it in place, lets the
  endpoint table produce a response packet whose pointers lead into four static objects, and
  builds the response into \<open>buf\<close> again, over the request.  The four objects are the regions of the
  model.
\<close>

datatype region = R_buf | R_scratch | R_rsp | R_hello

type_synonym pkt = "region coap_packet_t"

type_synonym coap_endpoint_func =
  "region mem \<Rightarrow> nat \<Rightarrow> pkt \<Rightarrow> pkt \<Rightarrow> u8 \<Rightarrow> u8 \<Rightarrow> (coap_error_t \<times> region mem \<times> pkt) option"

record coap_endpoint_path_t =
  ep_count :: nat
  ep_elems :: "u8 list list"

record coap_endpoint_t =
  ep_method :: u8
  ep_handler :: "coap_endpoint_func option"
  ep_path :: coap_endpoint_path_t
  ep_core_attr :: "u8 list option"

definition COAP_METHOD_GET :: u8 where
  "COAP_METHOD_GET = 1"

definition COAP_METHOD_PUT :: u8 where
  "COAP_METHOD_PUT = 3"

subsection \<open>Endpoints\<close>

definition path_well_known_core :: coap_endpoint_path_t where
  "path_well_known_core = \<lparr>ep_count = 2, ep_elems = [bytes ''.well-known'', bytes ''core'']\<rparr>"

definition path_hello :: coap_endpoint_path_t where
  "path_hello = \<lparr>ep_count = 1, ep_elems = [bytes ''hello'']\<rparr>"

text \<open>\<open>slen\<close> is \<open>scratch->len\<close>; \<open>scratch->p\<close> is the region \<open>R_scratch\<close>.\<close>

definition handle_get_well_known_core :: coap_endpoint_func where
  "handle_get_well_known_core m slen inpkt outpkt id_hi id_lo =
     do {
       rsp \<leftarrow> cstr (m R_rsp) 0;
       coap_make_response m R_scratch slen outpkt (Ptr R_rsp 0) (length rsp) id_hi id_lo
         (Some (p_tok inpkt)) COAP_RSPCODE_CONTENT COAP_CONTENTTYPE_APPLICATION_LINKFORMAT
     }"

definition handle_get_hello :: coap_endpoint_func where
  "handle_get_hello m slen inpkt outpkt id_hi id_lo =
     coap_make_response m R_scratch slen outpkt (Ptr R_hello 0) 1 id_hi id_lo
       (Some (p_tok inpkt)) COAP_RSPCODE_CONTENT COAP_CONTENTTYPE_TEXT_PLAIN"

definition handle_put_hello :: coap_endpoint_func where
  "handle_put_hello m slen inpkt outpkt id_hi id_lo =
     (if b_len (p_payload inpkt) = 0 then
        coap_make_response m R_scratch slen outpkt NULL 0 id_hi id_lo
          (Some (p_tok inpkt)) COAP_RSPCODE_BAD_REQUEST COAP_CONTENTTYPE_TEXT_PLAIN
      else do {
        c \<leftarrow> load_n m (b_p (p_payload inpkt)) 1;
        if c = bytes ''1'' then do {
          m1 \<leftarrow> store_n m R_hello 0 (bytes ''1'');
          coap_make_response m1 R_scratch slen outpkt (Ptr R_hello 0) 1 id_hi id_lo
            (Some (p_tok inpkt)) COAP_RSPCODE_CHANGED COAP_CONTENTTYPE_TEXT_PLAIN
        }
        else do {
          m1 \<leftarrow> store_n m R_hello 0 (bytes ''0'');
          coap_make_response m1 R_scratch slen outpkt (Ptr R_hello 0) 1 id_hi id_lo
            (Some (p_tok inpkt)) COAP_RSPCODE_CHANGED COAP_CONTENTTYPE_TEXT_PLAIN
        }
      })"

text \<open>The table ends with an entry whose handler is NULL; its path is NULL too, here empty.\<close>

definition endpoints :: "coap_endpoint_t list" where
  "endpoints =
     [\<lparr>ep_method = COAP_METHOD_GET, ep_handler = Some handle_get_well_known_core,
       ep_path = path_well_known_core, ep_core_attr = Some (bytes ''ct=40'')\<rparr>,
      \<lparr>ep_method = COAP_METHOD_GET, ep_handler = Some handle_get_hello,
       ep_path = path_hello, ep_core_attr = Some (bytes ''ct=0'')\<rparr>,
      \<lparr>ep_method = COAP_METHOD_PUT, ep_handler = Some handle_put_hello,
       ep_path = path_hello, ep_core_attr = None\<rparr>,
      \<lparr>ep_method = 0, ep_handler = None,
       ep_path = \<lparr>ep_count = 0, ep_elems = []\<rparr>, ep_core_attr = None\<rparr>]"

subsection \<open>The text of /.well-known/core\<close>

definition strncat :: "u8 list \<Rightarrow> u8 list \<Rightarrow> nat \<Rightarrow> u8 list option" where
  "strncat dst src n = do { d \<leftarrow> cstr dst 0; wrn dst (length d) (take n src @ [0]) }"

fun build_rsp_path :: "u8 list list \<Rightarrow> u8 list \<Rightarrow> u16 \<Rightarrow> (u8 list \<times> u16) option" where
  "build_rsp_path [] rsp len = Some (rsp, len)"
| "build_rsp_path (e # es) rsp len =
     do {
       r1 \<leftarrow> strncat rsp (bytes ''/'') (unat len);
       let len1 = len - 1;
       r2 \<leftarrow> strncat r1 e (unat len1);
       build_rsp_path es r2 (len1 - word_of_nat (length e))
     }"

fun build_rsp_loop :: "coap_endpoint_t list \<Rightarrow> u8 list \<Rightarrow> u16 \<Rightarrow> u8 list option" where
  "build_rsp_loop [] rsp len = None"
| "build_rsp_loop (ep # eps) rsp len =
     (case ep_handler ep of
        None \<Rightarrow> Some rsp
      | Some h \<Rightarrow>
          (case ep_core_attr ep of
             None \<Rightarrow> build_rsp_loop eps rsp len
           | Some attr \<Rightarrow>
               do {
                 s \<leftarrow> cstr rsp 0;
                 (r1, len1) \<leftarrow>
                   (if 0 < length s then
                      do { r \<leftarrow> strncat rsp (bytes '','') (unat len); Some (r, len - 1) }
                    else Some (rsp, len));
                 r2 \<leftarrow> strncat r1 (bytes ''<'') (unat len1);
                 (r3, len3) \<leftarrow>
                   build_rsp_path (take (ep_count (ep_path ep)) (ep_elems (ep_path ep))) r2 (len1 - 1);
                 r4 \<leftarrow> strncat r3 (bytes ''>;'') (unat len3);
                 let len4 = len3 - 2;
                 r5 \<leftarrow> strncat r4 attr (unat len4);
                 build_rsp_loop eps r5 (len4 - word_of_nat (length attr))
               }))"

definition build_rsp :: "u8 list \<Rightarrow> u8 list option" where
  "build_rsp rsp = build_rsp_loop endpoints rsp (1500 - 1)"

definition endpoint_setup :: "region mem \<Rightarrow> region mem option" where
  "endpoint_setup m = map_option (\<lambda>r. m(R_rsp := r)) (build_rsp (m R_rsp))"

subsection \<open>Requests\<close>

text \<open>The loop over the path segments of an endpoint; \<open>first\<close> is the index of \<open>opt\<close>.\<close>

function path_match ::
  "region mem \<Rightarrow> region coap_option_t list \<Rightarrow> nat \<Rightarrow> u8 list list \<Rightarrow> nat \<Rightarrow> nat \<Rightarrow> bool option" where
  "path_match m opts first elems i count =
     (if i < count then
        (case rd opts (first + i) of
           None \<Rightarrow> None
         | Some opt \<Rightarrow>
             (case rd elems i of
                None \<Rightarrow> None
              | Some e \<Rightarrow>
                  if b_len (o_buf opt) \<noteq> length e then Some False
                  else
                    (case load_n m (b_p (o_buf opt)) (b_len (o_buf opt)) of
                       None \<Rightarrow> None
                     | Some v \<Rightarrow>
                         if v \<noteq> e then Some False
                         else path_match m opts first elems (i + 1) count)))
      else Some True)"
  by pat_completeness auto
termination
  by (relation "measure (\<lambda>(m, opts, first, elems, i, count). count - i)") auto

declare path_match.simps [simp del]

fun handle_req_loop ::
  "coap_endpoint_t list \<Rightarrow> region mem \<Rightarrow> nat \<Rightarrow> pkt \<Rightarrow> pkt
     \<Rightarrow> (coap_error_t \<times> region mem \<times> pkt) option" where
  "handle_req_loop [] m slen inpkt outpkt = None"
| "handle_req_loop (ep # eps) m slen inpkt outpkt =
     (case ep_handler ep of
        None \<Rightarrow>
          do {
            (rc, m', outpkt') \<leftarrow>
              coap_make_response m R_scratch slen outpkt NULL 0
                (h_id0 (p_hdr inpkt)) (h_id1 (p_hdr inpkt)) (Some (p_tok inpkt))
                COAP_RSPCODE_NOT_FOUND COAP_CONTENTTYPE_NONE;
            Some (COAP_ERR_NONE, m', outpkt')
          }
      | Some handler \<Rightarrow>
          if ep_method ep \<noteq> h_code (p_hdr inpkt) then handle_req_loop eps m slen inpkt outpkt
          else
            (case coap_findOptions inpkt COAP_OPTION_URI_PATH of
               None \<Rightarrow> None
             | Some (None, count) \<Rightarrow> handle_req_loop eps m slen inpkt outpkt
             | Some (Some first, count) \<Rightarrow>
                 if unat count \<noteq> ep_count (ep_path ep) then
                   handle_req_loop eps m slen inpkt outpkt
                 else
                   (case path_match m (p_opts inpkt) first (ep_elems (ep_path ep)) 0 (unat count) of
                      None \<Rightarrow> None
                    | Some False \<Rightarrow> handle_req_loop eps m slen inpkt outpkt
                    | Some True \<Rightarrow>
                        handler m slen inpkt outpkt (h_id0 (p_hdr inpkt)) (h_id1 (p_hdr inpkt)))))"

definition coap_handle_req ::
  "region mem \<Rightarrow> nat \<Rightarrow> pkt \<Rightarrow> pkt \<Rightarrow> (coap_error_t \<times> region mem \<times> pkt) option" where
  "coap_handle_req m slen inpkt outpkt = handle_req_loop endpoints m slen inpkt outpkt"

subsection \<open>The server loop\<close>

definition BUF_SIZE :: nat where
  "BUF_SIZE = 512"

text \<open>
  What one turn of the loop shows to the outside.  \<open>Payload s\<close> is the \<open>printf\<close> of the payload:
  \<open>None\<close> for the NULL pointer (printed as \<open>(null)\<close>), and the C string from the payload on
  otherwise, which must end inside \<open>buf\<close>.
\<close>

datatype serv_event =
    BadPacket coap_error_t
  | Payload "u8 list option"
  | BuildFailed coap_error_t
  | SendTo "u8 list"

definition printf_s :: "region mem \<Rightarrow> region ptr \<Rightarrow> u8 list option option" where
  "printf_s m p = (case p of NULL \<Rightarrow> Some None | Ptr r i \<Rightarrow> map_option Some (cstr (m r) i))"

text \<open>
  One turn: \<open>recvfrom\<close> delivered the datagram \<open>d\<close> (cut to the size of \<open>buf\<close>) or failed (\<open>None\<close>, then
  \<open>n\<close> is \<open>-1\<close>, converted to \<open>size_t\<close>).  \<open>pkt\<close> and \<open>rsppkt\<close> are the uninitialised locals.
\<close>

definition recv_buf :: "region mem \<Rightarrow> u8 list option \<Rightarrow> (nat \<times> region mem) option" where
  "recv_buf m d =
     (case d of
        None \<Rightarrow> Some (2 ^ 64 - 1, m)
      | Some bs \<Rightarrow>
          do {
            m' \<leftarrow> store_n m R_buf 0 (take BUF_SIZE bs);
            Some (length (take BUF_SIZE bs), m')
          })"

definition CoapServ_step ::
  "pkt \<Rightarrow> pkt \<Rightarrow> region mem \<Rightarrow> u8 list option \<Rightarrow> (serv_event list \<times> region mem) option" where
  "CoapServ_step pkt rsppkt m d =
     do {
       (n, m1) \<leftarrow> recv_buf m d;
       (rc, pkt') \<leftarrow> coap_parse m1 pkt R_buf n;
       if rc \<noteq> COAP_ERR_NONE then Some ([BadPacket rc], m1)
       else do {
         s \<leftarrow> printf_s m1 (b_p (p_payload pkt'));
         (rc2, m2, rsppkt') \<leftarrow> coap_handle_req m1 BUF_SIZE pkt' rsppkt;
         (rc3, m3, rsplen) \<leftarrow> coap_build m2 R_buf BUF_SIZE rsppkt';
         if rc3 \<noteq> COAP_ERR_NONE then Some ([Payload s, BuildFailed rc3], m3)
         else do {
           out \<leftarrow> load_n m3 (Ptr R_buf 0) rsplen;
           Some ([Payload s, SendTo out], m3)
         }
       }
     }"

fun CoapServ_run ::
  "pkt \<Rightarrow> pkt \<Rightarrow> region mem \<Rightarrow> u8 list option list \<Rightarrow> (serv_event list list \<times> region mem) option" where
  "CoapServ_run pkt rsppkt m [] = Some ([], m)"
| "CoapServ_run pkt rsppkt m (d # ds) =
     do {
       (ev, m1) \<leftarrow> CoapServ_step pkt rsppkt m d;
       (evs, m2) \<leftarrow> CoapServ_run pkt rsppkt m1 ds;
       Some (ev # evs, m2)
     }"

text \<open>The static arrays at start-up, after \<open>endpoint_setup\<close>.\<close>

definition mem_static :: "region mem" where
  "mem_static r =
     (case r of
        R_buf \<Rightarrow> replicate 512 0
      | R_scratch \<Rightarrow> replicate 512 0
      | R_rsp \<Rightarrow> replicate 1500 0
      | R_hello \<Rightarrow> bytes ''1'')"

definition CoapServ_init :: "region mem option" where
  "CoapServ_init = endpoint_setup mem_static"

text \<open>
  The whole process: \<open>sock\<close> and \<open>bound\<close> say whether \<open>socket\<close> and \<open>bind\<close> succeed, \<open>ds\<close> what \<open>recvfrom\<close>
  delivers turn by turn.
\<close>

definition CoapServ ::
  "bool \<Rightarrow> bool \<Rightarrow> pkt \<Rightarrow> pkt \<Rightarrow> u8 list option list \<Rightarrow>
     (serv_event list list \<times> region mem) outcome option" where
  "CoapServ sock bound pkt rsppkt ds =
     (if \<not> sock then Some Exited
      else if \<not> bound then Some Exited
      else do {
        m \<leftarrow> CoapServ_init;
        r \<leftarrow> CoapServ_run pkt rsppkt m ds;
        Some (Running r)
      })"

end
