(* ===== verification/Coap_Server_Correct.thy ===== *)
theory Coap_Server_Correct
  imports Coap_Server
begin

section \<open>Correctness of the CoAP server\<close>

text \<open>
  The specification of the server is a function on messages: \<open>spec_response\<close> maps the stored
  character and a request to the new character and the response.  The server refines it: on every
  datagram shorter than the buffer a turn of the loop is defined; a rejected datagram changes
  nothing and is not answered; an accepted one is answered by the encoding of the specified
  response to the message it denotes, although the response overwrites the request in place.
\<close>

subsection \<open>The specification\<close>

definition core_text :: "u8 list" where
  "core_text = bytes ''</.well-known/core>;ct=40,</hello>;ct=0''"

definition uri_path :: "coap_msg \<Rightarrow> u8 list list" where
  "uri_path req =
     map snd (takeWhile (\<lambda>nv. fst nv = 11) (dropWhile (\<lambda>nv. fst nv \<noteq> 11) (m_opts req)))"

definition ack :: "coap_msg \<Rightarrow> u8 \<Rightarrow> u8 list \<Rightarrow> u8 list \<Rightarrow> coap_msg" where
  "ack req code ct pay =
     \<lparr>m_type = 2, m_code = code, m_id0 = m_id0 req, m_id1 = m_id1 req, m_tok = m_tok req,
      m_opts = [(12, ct)], m_pay = pay\<rparr>"

definition resp_core :: "u8 \<Rightarrow> coap_msg \<Rightarrow> u8 \<times> coap_msg" where
  "resp_core hello req = (hello, ack req 0x45 [0, 40] core_text)"

definition resp_get :: "u8 \<Rightarrow> coap_msg \<Rightarrow> u8 \<times> coap_msg" where
  "resp_get hello req = (hello, ack req 0x45 [0, 0] [hello])"

definition resp_put :: "u8 \<Rightarrow> coap_msg \<Rightarrow> u8 \<times> coap_msg" where
  "resp_put hello req =
     (case m_pay req of
        [] \<Rightarrow> (hello, ack req 0x80 [0, 0] [])
      | c # _ \<Rightarrow> (let v = (if c = 0x31 then 0x31 else 0x30) in (v, ack req 0x44 [0, 0] [v])))"

definition resp_not_found :: "u8 \<Rightarrow> coap_msg \<Rightarrow> u8 \<times> coap_msg" where
  "resp_not_found hello req = (hello, ack req 0x84 [0xFF, 0xFF] [])"

definition spec_response :: "u8 \<Rightarrow> coap_msg \<Rightarrow> u8 \<times> coap_msg" where
  "spec_response hello req =
     (if m_code req = 1 \<and> uri_path req = [bytes ''.well-known'', bytes ''core''] then resp_core hello req
      else if m_code req = 1 \<and> uri_path req = [bytes ''hello''] then resp_get hello req
      else if m_code req = 3 \<and> uri_path req = [bytes ''hello''] then resp_put hello req
      else resp_not_found hello req)"

subsection \<open>The text of /.well-known/core\<close>

definition rspbuf :: "u8 list \<Rightarrow> u8 list" where
  "rspbuf s = s @ replicate (1500 - length s) 0"

lemma cstr_rspbuf: "0 \<notin> set s \<Longrightarrow> length s < 1500 \<Longrightarrow> cstr (rspbuf s) 0 = Some s"
proof -
  assume s: "0 \<notin> set s" "length s < 1500"
  then have "1500 - length s = Suc (1499 - length s)" by simp
  then have "rspbuf s = [] @ s @ 0 # replicate (1499 - length s) 0"
    by (simp only: rspbuf_def replicate_Suc append_Nil)
  then show ?thesis using cstr_prefix [OF s(1), of "[]"] by simp
qed

lemma strncat_rspbuf:
  assumes "0 \<notin> set s" and "length src \<le> n" and "length s + length src < 1500"
  shows "strncat (rspbuf s) src n = Some (rspbuf (s @ src))"
proof -
  have "wrn (rspbuf s) (length s) (src @ [0]) = Some (rspbuf (s @ src))"
    using assms
    by (simp add: wrn_def rspbuf_def) (simp add: Suc_diff_Suc flip: replicate_Suc)
  with assms show ?thesis by (simp add: strncat_def cstr_rspbuf)
qed

lemma build_rsp_text: "build_rsp (rspbuf []) = Some (rspbuf core_text)"
  by (simp add: build_rsp_def endpoints_def path_well_known_core_def path_hello_def bytes_def
      cstr_rspbuf strncat_rspbuf core_text_def)

subsection \<open>The state of the server\<close>

definition sinv :: "region mem \<Rightarrow> u8 \<Rightarrow> bool" where
  "sinv m hello \<longleftrightarrow>
     length (m R_buf) = 512 \<and> m R_buf ! 511 = 0 \<and> length (m R_scratch) = 512 \<and>
     m R_rsp = rspbuf core_text \<and> m R_hello = [hello]"

lemma length_core_text: "length core_text = 39"
  by (simp add: core_text_def)

lemma core_text_nonzero: "0 \<notin> set core_text"
  by (simp add: core_text_def bytes_def)

lemma CoapServ_init_sinv: "\<exists>m. CoapServ_init = Some m \<and> sinv m 0x31"
proof -
  have "mem_static R_rsp = rspbuf []" by (simp add: mem_static_def rspbuf_def)
  then have "CoapServ_init = Some (mem_static(R_rsp := rspbuf core_text))"
    by (simp add: CoapServ_init_def endpoint_setup_def build_rsp_text)
  moreover have "sinv (mem_static(R_rsp := rspbuf core_text)) 0x31"
    by (simp add: sinv_def mem_static_def bytes_def)
  ultimately show ?thesis by blast
qed

text \<open>A request as the parser leaves it: inside the first \<open>n\<close> bytes of \<open>buf\<close>, denoting \<open>req\<close>.\<close>

definition request :: "region mem \<Rightarrow> nat \<Rightarrow> pkt \<Rightarrow> coap_msg \<Rightarrow> bool" where
  "request m n pkt req \<longleftrightarrow>
     pkt_in R_buf n pkt \<and> n \<le> 512 \<and> pkt_msg m pkt = Some req"

lemma load_other: "r \<noteq> r' \<Longrightarrow> load_n (m(r := x)) (Ptr r' i) n = load_n m (Ptr r' i) n"
  by (simp add: load_n_def)

definition ct_bytes :: "int \<Rightarrow> u8 list" where
  "ct_bytes ct =
     [ucast (drop_bit 8 ((word_of_int ct :: u16) AND 0xFF00)), ucast ((word_of_int ct :: u16) AND 0x00FF)]"

lemma make_response_buildable:
  assumes m: "sinv m hello" and req: "request m0 n inpkt req" and same: "m R_buf = m0 R_buf"
    and out: "length (p_opts outpkt) = 16"
    and content: "load_n m content clen = Some pay" "outside R_buf content" "outside R_scratch content"
  shows "\<exists>m' out'.
     coap_make_response m R_scratch BUF_SIZE outpkt content clen (m_id0 req) (m_id1 req)
       (Some (p_tok inpkt)) code ct = Some (COAP_ERR_NONE, m', out') \<and>
     sinv m' hello \<and> m' R_buf = m R_buf \<and>
     buildable m' R_buf out' (ack req code (ct_bytes ct) pay)"
proof -
  let ?tok = "p_tok inpkt"
  have "pkt_msg m0 inpkt = Some req" using req by (simp add: request_def)
  note D = pkt_msg_SomeD [OF this]
  have tok: "tok_in R_buf n ?tok" "b_len ?tok \<le> 8"
    using req by (auto simp: request_def pkt_in_def word_le_nat_alt)
  define m' where "m' = m(R_scratch := ct_bytes ct @ drop 2 (m R_scratch))"
  define o2 where "o2 = (p_opts outpkt ! 0)\<lparr>o_num := 12,
      o_buf := (o_buf (p_opts outpkt ! 0))\<lparr>b_p := Ptr R_scratch 0, b_len := 2\<rparr>\<rparr>"
  define out' where "out' = outpkt\<lparr>p_numopts := 1,
      p_hdr := \<lparr>h_ver = 1, h_t = 2, h_tkl = word_of_nat (b_len ?tok), h_code = code,
                h_id0 = m_id0 req, h_id1 = m_id1 req\<rparr>,
      p_tok := ?tok, p_opts := (p_opts outpkt)[0 := o2],
      p_payload := \<lparr>b_p = content, b_len = clen\<rparr>\<rparr>"
  have st: "store_n m R_scratch 0 (ct_bytes ct) = Some m'"
    using m by (simp add: store_n_def m'_def sinv_def ct_bytes_def numeral_2_eq_2)
  have mk: "coap_make_response m R_scratch BUF_SIZE outpkt content clen (m_id0 req) (m_id1 req)
      (Some ?tok) code ct = Some (COAP_ERR_NONE, m', out')"
    using out st
    by (simp add: coap_make_response_def Let_def BUF_SIZE_def COAP_TYPE_ACK_def
        COAP_OPTION_CONTENT_FORMAT_def out'_def o2_def ct_bytes_def del: drop_bit_and)
  have ltok: "load_n m' (b_p ?tok) (b_len ?tok) = Some (m_tok req)"
    using D(1) tok same
    by (cases "b_p ?tok") (auto simp: tok_in_def load_n_def m'_def split: if_splits)
  have lpay: "load_n m' content clen = Some pay"
    using content by (auto simp: m'_def load_n_def outside_def split: ptr.splits if_splits)
  have o2: "opt_view m' o2 = Some (12, ct_bytes ct)"
    by (simp add: opt_view_def o2_def load_n_def m'_def ct_bytes_def)
  have tk: "take (Suc 0) ((p_opts outpkt)[0 := o2]) = [o2]"
    using out by (cases "p_opts outpkt") auto
  have "length (m_tok req) \<le> 8" using load_n_length [OF ltok] tok by simp
  then have "buildable m' R_buf out' (ack req code (ct_bytes ct) pay)"
    using ltok lpay o2 tk content tok out
    by (auto simp: buildable_def pkt_msg_def out'_def ack_def wf_msg_def opts_src_def outside_def
        o2_def ct_bytes_def tok_in_def unat_of_nat_u8 simp del: unat_of_nat split: ptr.splits)
  moreover have "sinv m' hello" "m' R_buf = m R_buf"
    using m by (auto simp: sinv_def m'_def ct_bytes_def)
  ultimately show ?thesis using mk by blast
qed

subsection \<open>Finding the path\<close>

lemma find_options_in_block:
  assumes "n \<le> length opts" and "i \<le> n"
  shows "find_options opts n num i (Some f) c =
     Some (Some f, c + word_of_nat (length (takeWhile (\<lambda>opt. o_num opt = num) (drop i (take n opts)))))"
  using assms
proof (induction "n - i" arbitrary: i c)
  case 0
  then show ?case by (simp add: find_options.simps)
next
  case (Suc k)
  then have i: "i < n" by simp
  with Suc.prems have d: "drop i (take n opts) = opts ! i # drop (Suc i) (take n opts)"
    by (simp add: Cons_nth_drop_Suc [symmetric])
  have "find_options opts n num (Suc i) (Some f) (c + 1) = Some (Some f,
      c + 1 + word_of_nat (length (takeWhile (\<lambda>opt. o_num opt = num) (drop (Suc i) (take n opts)))))"
    using Suc i by (intro Suc.hyps) auto
  with i Suc.prems show ?case
    by (simp add: find_options.simps [of opts n num i] d ac_simps)
qed

lemma find_options_before:
  assumes "n \<le> length opts" and "i \<le> n"
  shows "find_options opts n num i None c =
     (let xs = drop i (take n opts); ys = dropWhile (\<lambda>opt. o_num opt \<noteq> num) xs in
      if ys = [] then Some (None, c)
      else Some (Some (n - length ys),
        c + word_of_nat (length (takeWhile (\<lambda>opt. o_num opt = num) ys))))"
  using assms
proof (induction "n - i" arbitrary: i)
  case 0
  then show ?case by (simp add: find_options.simps)
next
  case (Suc k)
  then have i: "i < n" by simp
  with Suc.prems have d: "drop i (take n opts) = opts ! i # drop (Suc i) (take n opts)"
    and l: "length (drop (Suc i) (take n opts)) = n - Suc i"
    by (simp_all add: Cons_nth_drop_Suc [symmetric])
  show ?case
  proof (cases "o_num (opts ! i) = num")
    case True
    with i Suc.prems d l show ?thesis
      by (simp add: find_options.simps [of opts n num i] find_options_in_block ac_simps)
  next
    case False
    have "find_options opts n num (Suc i) None c =
       (let xs = drop (Suc i) (take n opts); ys = dropWhile (\<lambda>opt. o_num opt \<noteq> num) xs in
        if ys = [] then Some (None, c)
        else Some (Some (n - length ys),
          c + word_of_nat (length (takeWhile (\<lambda>opt. o_num opt = num) ys))))"
      using Suc i by (intro Suc.hyps) auto
    with False i Suc.prems d show ?thesis
      by (simp add: find_options.simps [of opts n num i] Let_def)
  qed
qed

text \<open>The options of a packet and the options of its message, side by side.\<close>

definition views :: "region mem \<Rightarrow> region coap_option_t list \<Rightarrow> (nat \<times> u8 list) list \<Rightarrow> bool" where
  "views m opts os \<longleftrightarrow> list_all2 (\<lambda>opt nv. opt_view m opt = Some nv) opts os"

lemma views_dropWhile:
  "views m opts os \<Longrightarrow> views m (dropWhile (\<lambda>opt. o_num opt \<noteq> num) opts)
     (dropWhile (\<lambda>nv. fst nv \<noteq> unat num) os)"
  unfolding views_def
proof (induction opts os rule: list_all2_induct)
  case (Cons opt opts nv os)
  then show ?case by (auto simp: opt_view_def word_unat_eq_iff)
qed simp

lemma views_takeWhile:
  "views m opts os \<Longrightarrow> views m (takeWhile (\<lambda>opt. o_num opt = num) opts)
     (takeWhile (\<lambda>nv. fst nv = unat num) os)"
  unfolding views_def
proof (induction opts os rule: list_all2_induct)
  case (Cons opt opts nv os)
  then show ?case by (auto simp: opt_view_def word_unat_eq_iff)
qed simp

lemma path_match_views:
  assumes "views m (take count (drop first opts)) os" and "first + count \<le> length opts"
    and "length elems = count" and "i \<le> count"
  shows "path_match m opts first elems i count = Some (map snd (drop i os) = drop i elems)"
  using assms
proof (induction "count - i" arbitrary: i)
  case 0
  then show ?case by (auto simp: path_match.simps views_def dest: list_all2_lengthD)
next
  case (Suc k)
  then have i: "i < count" by simp
  have len: "length os = count" using Suc.prems by (auto simp: views_def dest: list_all2_lengthD)
  have "opt_view m (take count (drop first opts) ! i) = Some (os ! i)"
    using list_all2_nthD [OF Suc.prems(1) [unfolded views_def], of i] i Suc.prems by simp
  with i Suc.prems have v: "opt_view m (opts ! (first + i)) = Some (os ! i)" by simp
  have IH: "path_match m opts first elems (i + 1) count =
      Some (map snd (drop (i + 1) os) = drop (i + 1) elems)"
    using Suc i by (intro Suc.hyps) auto
  have d: "drop i os = os ! i # drop (i + 1) os" "drop i elems = elems ! i # drop (i + 1) elems"
    using i len Suc.prems by (simp_all add: Cons_nth_drop_Suc)
  from v have ld: "load_n m (b_p (o_buf (opts ! (first + i)))) (b_len (o_buf (opts ! (first + i)))) =
      Some (snd (os ! i))"
    by (cases "os ! i") (auto simp: opt_view_def)
  show ?case
    using i Suc.prems ld load_n_length [OF ld] IH
    by (auto simp: path_match.simps [of m opts first elems i] d)
qed

lemma request_views: "request m n pkt req \<Longrightarrow> views m (take (unat (p_numopts pkt)) (p_opts pkt)) (m_opts req)"
proof -
  assume "request m n pkt req"
  then have "pkt_msg m pkt = Some req" by (simp add: request_def)
  from those_Some_list_all2 [OF pkt_msg_SomeD(2) [OF this]] show ?thesis
    by (simp add: views_def list_all2_map1)
qed

lemma drop_dropWhile: "drop (length xs - length (dropWhile P xs)) xs = dropWhile P xs"
  using length_takeWhile_le [of P xs] by (simp add: dropWhile_eq_drop)

text \<open>
  The first Uri-Path option and how many follow it: \<open>ys\<close> are the options from there on, and \<open>c\<close> of them
  are path segments.
\<close>

lemma find_uri_path:
  assumes req: "request m n pkt req"
  defines "ys \<equiv> dropWhile (\<lambda>opt. o_num opt \<noteq> 11) (take (unat (p_numopts pkt)) (p_opts pkt))"
  defines "c \<equiv> length (takeWhile (\<lambda>opt. o_num opt = 11) ys)"
  defines "first \<equiv> unat (p_numopts pkt) - length ys"
  shows "coap_findOptions pkt COAP_OPTION_URI_PATH = (if ys = [] then Some (None, 0) else Some (Some first, word_of_nat c))"
    and "unat (word_of_nat c :: u8) = c" and "c \<le> length ys" and "first + c \<le> length (p_opts pkt)"
    and "\<exists>os. uri_path req = map snd os \<and> length os = c \<and> views m (take c (drop first (p_opts pkt))) os"
proof -
  let ?N = "unat (p_numopts pkt)" and ?zs = "dropWhile (\<lambda>nv. fst nv \<noteq> 11) (m_opts req)"
  have N: "?N \<le> 16" "length (p_opts pkt) = 16" using req by (simp_all add: request_def pkt_in_def)
  have len: "length ys \<le> ?N" using N by (simp add: ys_def) (metis length_dropWhile_le length_take min.absorb2)
  show c: "c \<le> length ys" by (simp add: c_def length_takeWhile_le)
  with len N show "unat (word_of_nat c :: u8) = c" "first + c \<le> length (p_opts pkt)"
    by (auto simp: first_def intro: unat_of_nat_u8)
  show "coap_findOptions pkt COAP_OPTION_URI_PATH = (if ys = [] then Some (None, 0) else Some (Some first, word_of_nat c))"
    using find_options_before [of ?N "p_opts pkt" 0 11 0] N
    by (simp add: coap_findOptions_def COAP_OPTION_URI_PATH_def Let_def ys_def c_def first_def)
  have "drop first (take ?N (p_opts pkt)) = ys"
    using drop_dropWhile [of "take ?N (p_opts pkt)" "\<lambda>opt. o_num opt \<noteq> 11"] N by (simp add: ys_def first_def)
  then have "take (length ys) (drop first (p_opts pkt)) = ys" using len by (simp add: drop_take first_def)
  then have "take c (drop first (p_opts pkt)) = takeWhile (\<lambda>opt. o_num opt = 11) ys"
    using c by (metis c_def min.absorb1 take_take takeWhile_eq_take)
  moreover have "views m (takeWhile (\<lambda>opt. o_num opt = 11) ys) (takeWhile (\<lambda>nv. fst nv = 11) ?zs)"
    using views_takeWhile [OF views_dropWhile [OF request_views [OF req], of 11], of 11] by (simp add: ys_def)
  ultimately show "\<exists>os. uri_path req = map snd os \<and> length os = c \<and> views m (take c (drop first (p_opts pkt))) os"
    by (intro exI [of _ "takeWhile (\<lambda>nv. fst nv = 11) ?zs"])
      (auto simp: uri_path_def views_def c_def dest: list_all2_lengthD)
qed

text \<open>What the lookup and the comparison of one endpoint's path amount to.\<close>

lemma endpoint_lookup:
  assumes req: "request m n pkt req" and elems: "length elems = k" "0 < k"
  shows "(case coap_findOptions pkt COAP_OPTION_URI_PATH of
       None \<Rightarrow> None
     | Some (None, count) \<Rightarrow> Some False
     | Some (Some first, count) \<Rightarrow>
         if unat count \<noteq> k then Some False
         else path_match m (p_opts pkt) first elems 0 (unat count)) = Some (uri_path req = elems)"
proof -
  define ys where "ys = dropWhile (\<lambda>opt. o_num opt \<noteq> 11) (take (unat (p_numopts pkt)) (p_opts pkt))"
  define c where "c = length (takeWhile (\<lambda>opt. o_num opt = 11) ys)"
  let ?first = "unat (p_numopts pkt) - length ys"
  note find = find_uri_path [OF req, folded ys_def, folded c_def]
  obtain os where os: "uri_path req = map snd os" "length os = c" "views m (take c (drop ?first (p_opts pkt))) os"
    using find(5) by blast
  show ?thesis
  proof (cases "ys = [] \<or> c \<noteq> k")
    case True
    then have "uri_path req \<noteq> elems" using os(1,2) elems find(3) by auto
    then show ?thesis using True find(1,2) by auto
  next
    case False
    then have "path_match m (p_opts pkt) ?first elems 0 c = Some (map snd (drop 0 os) = drop 0 elems)"
      using os(3) elems find(4) by (intro path_match_views) auto
    then show ?thesis using False find(1,2) os(1) by simp
  qed
qed

subsection \<open>The contract every endpoint handler keeps\<close>

text \<open>
  The request loop calls a handler through a function pointer and then builds whatever packet it
  left.  It relies on this contract: from a sound server state and a parsed request the handler
  returns a packet that \<open>coap_build\<close> can write over the request, denoting the specified response.
\<close>

locale coap_handler =
  fixes handler :: coap_endpoint_func
    and resp :: "u8 \<Rightarrow> coap_msg \<Rightarrow> u8 \<times> coap_msg"
  assumes handler_ok:
    "sinv m hello \<Longrightarrow> request m n inpkt req \<Longrightarrow> length (p_opts outpkt) = 16 \<Longrightarrow>
       \<exists>m' out'. handler m BUF_SIZE inpkt outpkt (m_id0 req) (m_id1 req) = Some (COAP_ERR_NONE, m', out') \<and>
         sinv m' (fst (resp hello req)) \<and> m' R_buf = m R_buf \<and>
         buildable m' R_buf out' (snd (resp hello req))"
    and resp_small: "length (m_tok req) \<le> 8 \<Longrightarrow> length (enc_msg (snd (resp hello req))) < 512"
begin

lemma handler_answers:
  assumes "sinv m hello" and "request m n inpkt req" and "length (p_opts outpkt) = 16"
    and "length (m_tok req) \<le> 8"
  shows "\<exists>m' out' m''. handler m BUF_SIZE inpkt outpkt (m_id0 req) (m_id1 req) = Some (COAP_ERR_NONE, m', out') \<and>
     coap_build m' R_buf BUF_SIZE out' =
       Some (COAP_ERR_NONE, m'', length (enc_msg (snd (resp hello req)))) \<and>
     load_n m'' (Ptr R_buf 0) (length (enc_msg (snd (resp hello req)))) =
       Some (enc_msg (snd (resp hello req))) \<and>
     sinv m'' (fst (resp hello req))"
proof -
  let ?e = "enc_msg (snd (resp hello req))"
  obtain m' out' where h: "handler m BUF_SIZE inpkt outpkt (m_id0 req) (m_id1 req) = Some (COAP_ERR_NONE, m', out')"
    and inv: "sinv m' (fst (resp hello req))" and b: "buildable m' R_buf out' (snd (resp hello req))"
    using handler_ok [OF assms(1-3)] by blast
  have small: "length ?e < 512" using resp_small [OF assms(4)] .
  have len: "length (m' R_buf) = 512" "m' R_buf ! 511 = 0" using inv by (simp_all add: sinv_def)
  have "coap_build m' R_buf BUF_SIZE out' = Some (COAP_ERR_NONE, put m' R_buf ?e, length ?e)"
    using small len by (intro coap_build_enc [OF b]) (simp_all add: BUF_SIZE_def)
  moreover have "load_n (put m' R_buf ?e) (Ptr R_buf 0) (length ?e) = Some ?e"
    using small len by (simp add: load_n_def rdn_def put_same)
  moreover have "sinv (put m' R_buf ?e) (fst (resp hello req))"
    using inv small len by (auto simp: sinv_def put_same nth_append)
  ultimately show ?thesis using h by blast
qed

end

lemma length_ack:
  "length (enc_msg (ack req code [x, y] pay)) = 4 + length (m_tok req) + 3 + length (enc_pay pay)"
  by (simp add: enc_msg_def ack_def enc_opt_hdr_def opt_ext_def)

lemma ct_bytes_values:
  "ct_bytes COAP_CONTENTTYPE_NONE = [0xFF, 0xFF]" "ct_bytes COAP_CONTENTTYPE_TEXT_PLAIN = [0, 0]"
  "ct_bytes COAP_CONTENTTYPE_APPLICATION_LINKFORMAT = [0, 40]"
  by (simp_all add: ct_bytes_def COAP_CONTENTTYPE_NONE_def COAP_CONTENTTYPE_TEXT_PLAIN_def
      COAP_CONTENTTYPE_APPLICATION_LINKFORMAT_def)

lemma rspcode_values:
  "COAP_RSPCODE_CONTENT = 0x45" "COAP_RSPCODE_NOT_FOUND = 0x84" "COAP_RSPCODE_BAD_REQUEST = 0x80"
  "COAP_RSPCODE_CHANGED = 0x44"
  by (simp_all add: COAP_RSPCODE_CONTENT_def COAP_RSPCODE_NOT_FOUND_def COAP_RSPCODE_BAD_REQUEST_def
      COAP_RSPCODE_CHANGED_def MAKE_RSPCODE_def)

lemmas resp_defs = resp_core_def resp_get_def resp_put_def resp_not_found_def

interpretation h_core: coap_handler handle_get_well_known_core resp_core
proof
  fix m hello n inpkt req and outpkt :: pkt
  assume a: "sinv m hello" "request m n inpkt req" "length (p_opts outpkt) = 16"
  then have rsp: "m R_rsp = rspbuf core_text" by (simp add: sinv_def)
  have "load_n m (Ptr R_rsp 0) (length core_text) = Some core_text"
    by (simp add: load_n_def rdn_def rsp rspbuf_def)
  from make_response_buildable [OF a(1,2) refl a(3) this] show
    "\<exists>m' out'. handle_get_well_known_core m BUF_SIZE inpkt outpkt (m_id0 req) (m_id1 req) = Some (COAP_ERR_NONE, m', out') \<and>
         sinv m' (fst (resp_core hello req)) \<and> m' R_buf = m R_buf \<and>
         buildable m' R_buf out' (snd (resp_core hello req))"
    using cstr_rspbuf [OF core_text_nonzero]
    by (simp add: handle_get_well_known_core_def rsp length_core_text outside_def resp_core_def
        rspcode_values ct_bytes_values [symmetric])
next
  fix req :: coap_msg and hello
  assume "length (m_tok req) \<le> 8"
  then show "length (enc_msg (snd (resp_core hello req))) < 512"
    by (simp add: resp_core_def length_ack enc_pay_def length_core_text)
qed

interpretation h_get: coap_handler handle_get_hello resp_get
proof
  fix m hello n inpkt req and outpkt :: pkt
  assume a: "sinv m hello" "request m n inpkt req" "length (p_opts outpkt) = 16"
  then have "load_n m (Ptr R_hello 0) 1 = Some [hello]"
    by (simp add: load_n_def rdn_def sinv_def)
  from make_response_buildable [OF a(1,2) refl a(3) this] show
    "\<exists>m' out'. handle_get_hello m BUF_SIZE inpkt outpkt (m_id0 req) (m_id1 req) = Some (COAP_ERR_NONE, m', out') \<and>
         sinv m' (fst (resp_get hello req)) \<and> m' R_buf = m R_buf \<and>
         buildable m' R_buf out' (snd (resp_get hello req))"
    by (simp add: handle_get_hello_def outside_def resp_get_def rspcode_values ct_bytes_values [symmetric])
next
  fix req :: coap_msg and hello
  assume "length (m_tok req) \<le> 8"
  then show "length (enc_msg (snd (resp_get hello req))) < 512"
    by (simp add: resp_get_def length_ack enc_pay_def)
qed

text \<open>The first byte of the payload is what \<open>handle_put_hello\<close> looks at.\<close>

lemma request_payload:
  assumes "request m n pkt req"
  shows "b_len (p_payload pkt) = length (m_pay req)"
    and "m_pay req = c # cs \<Longrightarrow> load_n m (b_p (p_payload pkt)) 1 = Some [c]"
proof -
  have "pkt_msg m pkt = Some req" using assms by (simp add: request_def)
  note ld = pkt_msg_SomeD(3) [OF this]
  show "b_len (p_payload pkt) = length (m_pay req)" using load_n_length [OF ld] by simp
  show "load_n m (b_p (p_payload pkt)) 1 = Some [c]" if "m_pay req = c # cs"
    using ld that
    by (auto simp: load_n_def rdn_def take_Suc split: if_splits ptr.splits)
      (metis hd_take list.sel(1))
qed

lemma put_hello_stores:
  assumes a: "sinv m hello" "request m n inpkt req" "length (p_opts outpkt) = 16"
    and c: "m_pay req = c # cs"
  shows "\<exists>m' out'. handle_put_hello m BUF_SIZE inpkt outpkt (m_id0 req) (m_id1 req) = Some (COAP_ERR_NONE, m', out') \<and>
         sinv m' (if c = 0x31 then 0x31 else 0x30) \<and> m' R_buf = m R_buf \<and>
         buildable m' R_buf out' (ack req 0x44 [0, 0] [if c = 0x31 then 0x31 else 0x30])"
proof -
  let ?v = "if c = 0x31 then 0x31 else 0x30 :: u8"
  define m1 where "m1 = m(R_hello := [?v])"
  have m1: "sinv m1 ?v" "m1 R_buf = m R_buf" using a(1) by (simp_all add: sinv_def m1_def)
  have st: "store_n m R_hello 0 [?v] = Some m1"
    using a(1) by (simp add: store_n_def sinv_def m1_def)
  have "load_n m1 (Ptr R_hello 0) 1 = Some [?v]" by (simp add: load_n_def rdn_def m1_def)
  from make_response_buildable [OF m1(1) a(2) m1(2) a(3) this] show ?thesis
    using st request_payload [OF a(2)] c m1(2)
    by (auto simp: handle_put_hello_def outside_def rspcode_values ct_bytes_values [symmetric] bytes_def
        split: if_splits)
qed

interpretation h_put: coap_handler handle_put_hello resp_put
proof
  fix m hello n inpkt req and outpkt :: pkt
  assume a: "sinv m hello" "request m n inpkt req" "length (p_opts outpkt) = 16"
  have e: "load_n m NULL 0 = Some []" by (simp add: load_n_def)
  show "\<exists>m' out'. handle_put_hello m BUF_SIZE inpkt outpkt (m_id0 req) (m_id1 req) = Some (COAP_ERR_NONE, m', out') \<and>
         sinv m' (fst (resp_put hello req)) \<and> m' R_buf = m R_buf \<and>
         buildable m' R_buf out' (snd (resp_put hello req))"
  proof (cases "m_pay req")
    case Nil
    then show ?thesis
      using make_response_buildable [OF a(1,2) refl a(3) e] request_payload(1) [OF a(2)]
      by (simp add: handle_put_hello_def outside_def resp_put_def rspcode_values
          ct_bytes_values [symmetric])
  next
    case (Cons c cs)
    with put_hello_stores [OF a Cons] show ?thesis by (simp add: resp_put_def Let_def)
  qed
next
  fix req :: coap_msg and hello
  assume "length (m_tok req) \<le> 8"
  then show "length (enc_msg (snd (resp_put hello req))) < 512"
    by (simp add: resp_put_def length_ack enc_pay_def Let_def split: list.split)
qed

text \<open>The answer of the request loop when no endpoint matches.\<close>

definition not_found_reply :: coap_endpoint_func where
  "not_found_reply m slen inpkt outpkt id_hi id_lo =
     handle_req_loop [\<lparr>ep_method = 0, ep_handler = None,
       ep_path = \<lparr>ep_count = 0, ep_elems = []\<rparr>, ep_core_attr = None\<rparr>] m slen inpkt outpkt"

interpretation h_not_found: coap_handler not_found_reply resp_not_found
proof
  fix m hello n inpkt req and outpkt :: pkt
  assume a: "sinv m hello" "request m n inpkt req" "length (p_opts outpkt) = 16"
  have e: "load_n m NULL 0 = Some []" by (simp add: load_n_def)
  have "pkt_msg m inpkt = Some req" using a(2) by (simp add: request_def)
  note D = pkt_msg_SomeD [OF this]
  show "\<exists>m' out'. not_found_reply m BUF_SIZE inpkt outpkt (m_id0 req) (m_id1 req) = Some (COAP_ERR_NONE, m', out') \<and>
         sinv m' (fst (resp_not_found hello req)) \<and> m' R_buf = m R_buf \<and>
         buildable m' R_buf out' (snd (resp_not_found hello req))"
    using make_response_buildable [OF a(1,2) refl a(3) e, of COAP_RSPCODE_NOT_FOUND COAP_CONTENTTYPE_NONE]
    by (auto simp: not_found_reply_def outside_def resp_not_found_def rspcode_values ct_bytes_values D(6,7))
next
  fix req :: coap_msg and hello
  assume "length (m_tok req) \<le> 8"
  then show "length (enc_msg (snd (resp_not_found hello req))) < 512"
    by (simp add: resp_not_found_def length_ack enc_pay_def)
qed

subsection \<open>The request loop follows the specification\<close>

lemma handle_req_loop_Cons:
  assumes req: "request m n pkt req"
    and ep: "ep_handler ep = Some h" "ep_count (ep_path ep) = length (ep_elems (ep_path ep))"
      "ep_elems (ep_path ep) \<noteq> []"
  shows "handle_req_loop (ep # eps) m slen pkt outpkt =
     (if ep_method ep = m_code req \<and> uri_path req = ep_elems (ep_path ep)
      then h m slen pkt outpkt (m_id0 req) (m_id1 req)
      else handle_req_loop eps m slen pkt outpkt)"
proof -
  have "pkt_msg m pkt = Some req" using req by (simp add: request_def)
  note D = pkt_msg_SomeD [OF this]
  have "0 < length (ep_elems (ep_path ep))" using ep(3) by simp
  from endpoint_lookup [OF req refl this] show ?thesis
    by (auto simp: ep(1,2) D(5-7) [symmetric] split: option.splits prod.splits bool.splits if_splits)
qed

definition chosen_handler :: "coap_msg \<Rightarrow> coap_endpoint_func" where
  "chosen_handler req =
     (if m_code req = 1 \<and> uri_path req = [bytes ''.well-known'', bytes ''core''] then handle_get_well_known_core
      else if m_code req = 1 \<and> uri_path req = [bytes ''hello''] then handle_get_hello
      else if m_code req = 3 \<and> uri_path req = [bytes ''hello''] then handle_put_hello
      else not_found_reply)"

lemma coap_handle_req_chosen:
  assumes "request m n pkt req"
  shows "coap_handle_req m slen pkt outpkt =
     chosen_handler req m slen pkt outpkt (m_id0 req) (m_id1 req)"
  by (auto simp: coap_handle_req_def endpoints_def handle_req_loop_Cons [OF assms] chosen_handler_def
      path_well_known_core_def path_hello_def COAP_METHOD_GET_def COAP_METHOD_PUT_def not_found_reply_def
      simp del: handle_req_loop.simps)

lemma coap_handle_req_answers:
  assumes "sinv m hello" and "request m n inpkt req" and "length (p_opts outpkt) = 16"
    and "length (m_tok req) \<le> 8"
  shows "\<exists>m' out' m''. coap_handle_req m BUF_SIZE inpkt outpkt = Some (COAP_ERR_NONE, m', out') \<and>
     coap_build m' R_buf BUF_SIZE out' =
       Some (COAP_ERR_NONE, m'', length (enc_msg (snd (spec_response hello req)))) \<and>
     load_n m'' (Ptr R_buf 0) (length (enc_msg (snd (spec_response hello req)))) =
       Some (enc_msg (snd (spec_response hello req))) \<and>
     sinv m'' (fst (spec_response hello req))"
  unfolding coap_handle_req_chosen [OF assms(2)] chosen_handler_def spec_response_def
  using h_core.handler_answers [OF assms] h_get.handler_answers [OF assms]
    h_put.handler_answers [OF assms] h_not_found.handler_answers [OF assms]
  by presburger

subsection \<open>One turn of the server\<close>

lemma buf_in_load: "buf_in r lo n b \<Longrightarrow> n \<le> length (m r) \<Longrightarrow> \<exists>v. load_n m (b_p b) (b_len b) = Some v"
  by (auto simp: buf_in_def load_n_def split: ptr.splits)

lemma those_Some_iff: "(\<exists>ys. those xs = Some ys) \<longleftrightarrow> (\<forall>x \<in> set xs. x \<noteq> None)"
  by (induction xs) (auto split: option.splits)

lemma pkt_in_msg:
  assumes "pkt_in r n pkt" and "n \<le> length (m r)"
  shows "\<exists>msg. pkt_msg m pkt = Some msg"
proof -
  have "\<exists>v. load_n m (b_p (p_tok pkt)) (b_len (p_tok pkt)) = Some v"
    using assms by (auto simp: pkt_in_def tok_in_def load_n_def split: ptr.splits)
  moreover have "\<exists>v. load_n m (b_p (p_payload pkt)) (b_len (p_payload pkt)) = Some v"
    using assms buf_in_load [of r _ n "p_payload pkt" m] by (auto simp: pkt_in_def)
  moreover have "\<exists>os. those (map (opt_view m) (take (unat (p_numopts pkt)) (p_opts pkt))) = Some os"
    unfolding those_Some_iff
  proof
    fix x
    assume "x \<in> set (map (opt_view m) (take (unat (p_numopts pkt)) (p_opts pkt)))"
    then obtain i where "i < unat (p_numopts pkt)" "x = opt_view m (p_opts pkt ! i)"
      by (auto simp: in_set_conv_nth)
    with assms buf_in_load [of r _ n "o_buf (p_opts pkt ! i)" m] show "x \<noteq> None"
      by (fastforce simp: pkt_in_def opt_view_def)
  qed
  ultimately show ?thesis by (auto simp: pkt_msg_def)
qed

lemma printf_payload:
  assumes "sinv m hello" and "buf_in R_buf lo n b" and "n < 512"
  shows "\<exists>s. printf_s m (b_p b) = Some s"
proof (cases "b_p b")
  case NULL
  then show ?thesis by (simp add: printf_s_def)
next
  case (Ptr r i)
  with assms(2,3) have r: "r = R_buf" "i \<le> 511" by (auto simp: buf_in_def)
  have "drop i (m R_buf) ! (511 - i) = 0" "511 - i < length (drop i (m R_buf))"
    using assms(1) r by (auto simp: sinv_def)
  then have "0 \<in> set (drop i (m R_buf))" by (metis nth_mem)
  with Ptr r show ?thesis by (simp add: printf_s_def cstr_def)
qed

subsection \<open>Runs of the server\<close>

text \<open>
  What a datagram asks for, read off its bytes alone: the error the parser reports, or the
  message it holds.
\<close>

definition decode_req :: "pkt \<Rightarrow> u8 list \<Rightarrow> (coap_error_t + coap_msg) option" where
  "decode_req pkt d =
     (case coap_parse (\<lambda>_. d) pkt R_buf (length d) of
        None \<Rightarrow> None
      | Some (rc, pkt') \<Rightarrow>
          if rc \<noteq> COAP_ERR_NONE then Some (Inl rc)
          else map_option Inr (pkt_msg (\<lambda>_. d) pkt'))"

text \<open>
  The specification of the server loop: what one datagram after the other is answered, and the
  byte the server holds for \<open>/hello\<close> in the end.
\<close>

fun serve :: "u8 \<Rightarrow> (coap_error_t + coap_msg) list \<Rightarrow> serv_event list \<times> u8" where
  "serve hello [] = ([], hello)"
| "serve hello (Inl rc # rs) =
     (let (evs, hello') = serve hello rs in (BadPacket rc # evs, hello'))"
| "serve hello (Inr req # rs) =
     (let (h1, rsp) = spec_response hello req; (evs, hello') = serve h1 rs
      in (SendTo (enc_msg rsp) # evs, hello'))"

text \<open>
  The text printed for the payload may run on into bytes of an earlier packet and is left out.
\<close>

fun not_printed :: "serv_event \<Rightarrow> bool" where
  "not_printed (Payload s) = False"
| "not_printed ev = True"

lemma load_n_local:
  assumes "case p of NULL \<Rightarrow> k = 0 | Ptr r' i \<Rightarrow> r' = r \<and> i + k \<le> n"
    and "take n (m r) = take n (m' r)" "n \<le> length (m r)" "n \<le> length (m' r)"
  shows "load_n m p k = load_n m' p k"
proof (cases p)
  case (Ptr r' i)
  with assms(1) have k: "k \<le> n - i" by auto
  have "take (n - i) (drop i (m r)) = take (n - i) (drop i (m' r))"
    using arg_cong [OF assms(2), of "drop i"] by (simp add: drop_take)
  then have "take k (take (n - i) (drop i (m r))) = take k (take (n - i) (drop i (m' r)))"
    by simp
  with k have "take k (drop i (m r)) = take k (drop i (m' r))" by (simp add: min_def)
  with Ptr assms show ?thesis by (simp add: load_n_def rdn_def)
qed (use assms in \<open>simp add: load_n_def\<close>)

lemma pkt_msg_local:
  assumes p: "pkt_in r n pkt"
    and e: "take n (m r) = take n (m' r)" "n \<le> length (m r)" "n \<le> length (m' r)"
  shows "pkt_msg m pkt = pkt_msg m' pkt"
proof -
  have l: "load_n m (b_p b) (b_len b) = load_n m' (b_p b) (b_len b)" if "buf_in r lo n b" for lo b
    using that by (intro load_n_local [where m = m and m' = m' and r = r and n = n, OF _ e])
      (auto simp: buf_in_def split: ptr.splits)
  have "load_n m (b_p (p_tok pkt)) (b_len (p_tok pkt)) = load_n m' (b_p (p_tok pkt)) (b_len (p_tok pkt))"
    using p by (intro load_n_local [where m = m and m' = m' and r = r and n = n, OF _ e])
      (auto simp: pkt_in_def tok_in_def split: ptr.splits)
  moreover have "map (opt_view m) (take (unat (p_numopts pkt)) (p_opts pkt)) =
      map (opt_view m') (take (unat (p_numopts pkt)) (p_opts pkt))"
    using p by (intro nth_equalityI) (auto simp: pkt_in_def opt_view_def l)
  moreover have "load_n m (b_p (p_payload pkt)) (b_len (p_payload pkt)) =
      load_n m' (b_p (p_payload pkt)) (b_len (p_payload pkt))"
    using p by (auto simp: pkt_in_def intro: l)
  ultimately show ?thesis by (simp only: pkt_msg_def)
qed

lemma recv_buf_short:
  "sinv m hello \<Longrightarrow> length d < 512 \<Longrightarrow>
     recv_buf m (Some d) = Some (length d, put m R_buf d) \<and> sinv (put m R_buf d) hello"
  using store_put_start [of d m R_buf]
  by (auto simp: recv_buf_def BUF_SIZE_def sinv_def put_same nth_append)

lemma CoapServ_step_accept:
  assumes inv: "sinv m hello" and d: "length d < 512" and out: "length (p_opts rsppkt) = 16"
    and pk: "length (p_opts pkt) = 16"
    and parse: "coap_parse (put m R_buf d) pkt R_buf (length d) = Some (COAP_ERR_NONE, pkt')"
      "pkt_msg (put m R_buf d) pkt' = Some req"
  shows "\<exists>s m'. CoapServ_step pkt rsppkt m (Some d) =
             Some ([Payload s, SendTo (enc_msg (snd (spec_response hello req)))], m') \<and>
           sinv m' (fst (spec_response hello req)) \<and>
           load_n m' (Ptr R_buf 0) (length (enc_msg (snd (spec_response hello req)))) =
             Some (enc_msg (snd (spec_response hello req)))"
proof -
  let ?m = "put m R_buf d"
  have m1: "recv_buf m (Some d) = Some (length d, ?m)" "sinv ?m hello"
    using recv_buf_short [OF inv d] by auto
  have len: "length d \<le> length (?m R_buf)" using m1 d by (simp add: sinv_def)
  have pin: "pkt_in R_buf (length d) pkt'"
    using coap_parse_total [of "length d" ?m R_buf pkt] len pk parse(1) by simp
  with parse(2) d have req: "request ?m (length d) pkt' req" by (simp add: request_def)
  have "buf_in R_buf (4 + unat (h_tkl (p_hdr pkt'))) (length d) (p_payload pkt')"
    using pin by (simp add: pkt_in_def)
  from printf_payload [OF m1(2) this d] obtain s where s: "printf_s ?m (b_p (p_payload pkt')) = Some s"
    by blast
  have "length (m_tok req) \<le> 8"
    using load_n_length [OF pkt_msg_SomeD(1) [OF parse(2)]] pin
    by (auto simp: pkt_in_def word_le_nat_alt)
  from coap_handle_req_answers [OF m1(2) req out this] obtain m' out' m'' where
    h: "coap_handle_req ?m BUF_SIZE pkt' rsppkt = Some (COAP_ERR_NONE, m', out')"
    "coap_build m' R_buf BUF_SIZE out' =
       Some (COAP_ERR_NONE, m'', length (enc_msg (snd (spec_response hello req))))"
    "load_n m'' (Ptr R_buf 0) (length (enc_msg (snd (spec_response hello req)))) =
       Some (enc_msg (snd (spec_response hello req)))"
    "sinv m'' (fst (spec_response hello req))"
    by blast
  then show ?thesis using m1(1) parse(1) s by (simp add: CoapServ_step_def)
qed

lemma CoapServ_step_decode:
  assumes inv: "sinv m hello" and d: "length d < 512"
    and pk: "length (p_opts pkt) = 16" and out: "length (p_opts rsppkt) = 16"
  shows "\<exists>r ev m'. decode_req pkt d = Some r \<and>
           CoapServ_step pkt rsppkt m (Some d) = Some (ev, m') \<and>
           filter not_printed ev = fst (serve hello [r]) \<and> sinv m' (snd (serve hello [r]))"
proof -
  let ?m = "put m R_buf d" and ?d = "\<lambda>_::region. d"
  have m1: "recv_buf m (Some d) = Some (length d, ?m)" "sinv ?m hello"
    using recv_buf_short [OF inv d] by auto
  have len: "length d \<le> length (?m R_buf)" using m1 d by (simp add: sinv_def)
  have e: "take (length d) (?m R_buf) = take (length d) (?d R_buf)" by (simp add: put_same)
  obtain rc pkt' where p: "coap_parse ?m pkt R_buf (length d) = Some (rc, pkt')"
    "rc = COAP_ERR_NONE \<longrightarrow> pkt_in R_buf (length d) pkt'"
    using coap_parse_total [of "length d" ?m R_buf pkt] len pk by blast
  with coap_parse_local [where m = ?m and m' = ?d and r = R_buf, OF e len]
  have p': "coap_parse ?d pkt R_buf (length d) = Some (rc, pkt')" by simp
  show ?thesis
  proof (cases "rc = COAP_ERR_NONE")
    case False
    with p m1 p' show ?thesis by (auto simp: CoapServ_step_def decode_req_def)
  next
    case True
    with p pkt_in_msg [of R_buf "length d" pkt' ?m] len obtain req where
      req: "pkt_msg ?m pkt' = Some req" by blast
    with True p pkt_msg_local [where m = ?m and m' = ?d and r = R_buf, OF _ e len]
    have "pkt_msg ?d pkt' = Some req" by simp
    with True p' have "decode_req pkt d = Some (Inr req)" by (simp add: decode_req_def)
    moreover obtain s m' where
      "CoapServ_step pkt rsppkt m (Some d) =
         Some ([Payload s, SendTo (enc_msg (snd (spec_response hello req)))], m')"
      "sinv m' (fst (spec_response hello req))"
      using CoapServ_step_accept [OF inv d out pk _ req] True p by blast
    ultimately show ?thesis by (auto split: prod.splits)
  qed
qed

lemma decode_req_enc:
  assumes "wf_msg req" and "length (m_opts req) \<le> 16" and "length (p_opts pkt) = 16"
    and "\<forall>nv \<in> set (m_opts req). fst nv < 256"
  shows "decode_req pkt (enc_msg req) = Some (Inr req)"
proof -
  have "map trunc_num (m_opts req) = m_opts req"
    using assms(4) by (simp add: map_idI trunc_num_def)
  with coap_parse_enc [of req pkt "length (enc_msg req)" "\<lambda>_. enc_msg req" R_buf] assms
  show ?thesis by (auto simp: decode_req_def)
qed

lemma serve_Cons:
  "serve hello (r # rs) =
     (fst (serve hello [r]) @ fst (serve (snd (serve hello [r])) rs),
      snd (serve (snd (serve hello [r])) rs))"
  by (cases r) (simp_all split: prod.splits)

lemma CoapServ_run_serve:
  assumes "sinv m hello" and "\<forall>d \<in> set ds. length d < 512"
    and "length (p_opts pkt) = 16" and "length (p_opts rsppkt) = 16"
  shows "\<exists>rs evs m'. those (map (decode_req pkt) ds) = Some rs \<and>
           CoapServ_run pkt rsppkt m (map Some ds) = Some (evs, m') \<and>
           filter not_printed (concat evs) = fst (serve hello rs) \<and>
           sinv m' (snd (serve hello rs))"
  using assms(1,2)
proof (induction ds arbitrary: m hello)
  case (Cons d ds)
  then have d: "length d < 512" by simp
  from CoapServ_step_decode [OF Cons.prems(1) d assms(3,4)] obtain r ev m1 where
    r: "decode_req pkt d = Some r" "CoapServ_step pkt rsppkt m (Some d) = Some (ev, m1)"
    "filter not_printed ev = fst (serve hello [r])" "sinv m1 (snd (serve hello [r]))"
    by blast
  from Cons.IH [OF r(4)] Cons.prems(2) obtain rs evs m' where
    "those (map (decode_req pkt) ds) = Some rs"
    "CoapServ_run pkt rsppkt m1 (map Some ds) = Some (evs, m')"
    "filter not_printed (concat evs) = fst (serve (snd (serve hello [r])) rs)"
    "sinv m' (snd (serve (snd (serve hello [r])) rs))"
    by auto
  with r show ?case by (simp add: serve_Cons [of hello r rs] del: serve.simps)
qed simp

subsection \<open>Properties\<close>

lemma those_map_Inr: "\<forall>x \<in> set xs. f x = Some (g x) \<Longrightarrow> those (map f xs) = Some (map g xs)"
  by (induction xs) auto

lemma init_run:
  assumes "\<forall>d \<in> set ds. length d < 512"
    and "length (p_opts pkt) = 16" and "length (p_opts rsppkt) = 16"
  shows "\<exists>m0 rs evs m'. CoapServ_init = Some m0 \<and> those (map (decode_req pkt) ds) = Some rs \<and>
           CoapServ_run pkt rsppkt m0 (map Some ds) = Some (evs, m') \<and>
           filter not_printed (concat evs) = fst (serve 0x31 rs) \<and>
           sinv m' (snd (serve 0x31 rs))"
  using CoapServ_init_sinv CoapServ_run_serve [OF _ assms] by blast

definition plain_req :: "coap_msg \<Rightarrow> bool" where
  "plain_req req \<longleftrightarrow> wf_msg req \<and> length (m_opts req) \<le> 16 \<and>
     (\<forall>nv \<in> set (m_opts req). fst nv < 256) \<and> length (enc_msg req) < 512"

lemma init_run_requests:
  assumes reqs: "\<forall>req \<in> set reqs. plain_req req"
    and pk: "length (p_opts pkt) = 16" "length (p_opts rsppkt) = 16"
  shows "\<exists>m0 evs m'. CoapServ_init = Some m0 \<and>
           CoapServ_run pkt rsppkt m0 (map (Some \<circ> enc_msg) reqs) = Some (evs, m') \<and>
           filter not_printed (concat evs) = fst (serve 0x31 (map Inr reqs)) \<and>
           sinv m' (snd (serve 0x31 (map Inr reqs)))"
proof -
  have "those (map (decode_req pkt) (map enc_msg reqs)) = Some (map Inr reqs)"
    using reqs pk those_map_Inr [of reqs "decode_req pkt \<circ> enc_msg" Inr]
    by (auto simp: plain_req_def intro!: decode_req_enc)
  moreover have "\<forall>d \<in> set (map enc_msg reqs). length d < 512" using reqs by (simp add: plain_req_def)
  ultimately show ?thesis using init_run [OF _ pk, of "map enc_msg reqs"] by auto
qed

text \<open>
  C6. The server process refines its specification on every input: from the state after start-up, on
  any sequence of datagrams shorter than the 512-byte buffer, no step is undefined and the loop
  goes on; each datagram is either reported as a bad packet with the parser's code, or answered
  by the encoding of the response that the specification gives to the message in the datagram,
  with the stored character threaded through; the responses are built over the requests.  Without
  a socket or a port the process ends before it serves anything.
\<close>

theorem CoapServ_run_refines:
  assumes "\<forall>d \<in> set ds. length d < 512"
    and "length (p_opts pkt) = 16" and "length (p_opts rsppkt) = 16"
  shows "\<exists>m0 rs evs m'. CoapServ_init = Some m0 \<and> those (map (decode_req pkt) ds) = Some rs \<and>
           CoapServ_run pkt rsppkt m0 (map Some ds) = Some (evs, m') \<and>
           filter not_printed (concat evs) = fst (serve 0x31 rs) \<and>
           m' R_hello = [snd (serve 0x31 rs)] \<and>
           (\<forall>sock bound. CoapServ sock bound pkt rsppkt (map Some ds) =
              Some (if sock \<and> bound then Running (evs, m') else Exited))"
proof -
  from init_run [OF assms] obtain m0 rs evs m' where
    r: "CoapServ_init = Some m0" "those (map (decode_req pkt) ds) = Some rs"
      "CoapServ_run pkt rsppkt m0 (map Some ds) = Some (evs, m')"
      "filter not_printed (concat evs) = fst (serve 0x31 rs)" "m' R_hello = [snd (serve 0x31 rs)]"
    unfolding sinv_def by blast
  have "CoapServ sock bound pkt rsppkt (map Some ds) =
      Some (if sock \<and> bound then Running (evs, m') else Exited)" for sock bound
    unfolding CoapServ_def r(1) bind.bind_lunit r(3) by simp
  with r show ?thesis by blast
qed

theorem CoapServ_run_refines_witness:
  "\<exists>m0 evs m'. CoapServ_init = Some m0 \<and>
     CoapServ_run blank_pkt blank_pkt m0 [Some [0x40, 1], Some []] = Some (evs, m') \<and>
     filter not_printed (concat evs) =
       [BadPacket COAP_ERR_HEADER_TOO_SHORT, BadPacket COAP_ERR_HEADER_TOO_SHORT]"
proof -
  have "decode_req blank_pkt d = Some (Inl COAP_ERR_HEADER_TOO_SHORT)" if "length d < 4" for d
    using that by (simp add: decode_req_def coap_parse_def coap_parseHeader_def)
  then show ?thesis
    using CoapServ_run_refines [of "[[0x40, 1], []]" blank_pkt blank_pkt] by auto
qed

text \<open>
  Well-formed requests are understood: for any sequence of well-formed messages of at most 16
  options, with option numbers below 256 and less than 512 bytes, the server sends exactly one
  answer per message, in order: the encodings of the specified responses.
\<close>

lemma CoapServ_answers_requests:
  assumes "\<forall>req \<in> set reqs. plain_req req"
    and "length (p_opts pkt) = 16" "length (p_opts rsppkt) = 16"
  shows "\<exists>m0 evs m'. CoapServ_init = Some m0 \<and>
           CoapServ_run pkt rsppkt m0 (map (Some \<circ> enc_msg) reqs) = Some (evs, m') \<and>
           filter not_printed (concat evs) = fst (serve 0x31 (map Inr reqs))"
  using init_run_requests [OF assms] by blast

definition req_hello :: "u8 \<Rightarrow> u8 \<Rightarrow> u8 list \<Rightarrow> coap_msg" where
  "req_hello code mid pay = \<lparr>m_type = 0, m_code = code, m_id0 = 0, m_id1 = mid, m_tok = [0xAB],
     m_opts = [(11, bytes ''hello'')], m_pay = pay\<rparr>"

lemma req_hello_plain: "length pay < 400 \<Longrightarrow> plain_req (req_hello code mid pay)"
  by (simp add: plain_req_def req_hello_def wf_msg_def enc_msg_def enc_opt_hdr_def opt_ext_def enc_pay_def)

lemma CoapServ_answers_requests_witness:
  "\<exists>m0 evs m'. CoapServ_init = Some m0 \<and>
     CoapServ_run blank_pkt blank_pkt m0 [Some (enc_msg (req_hello 1 7 []))] = Some (evs, m') \<and>
     filter not_printed (concat evs) = [SendTo [0x61, 0x45, 0, 7, 0xAB, 0xC2, 0, 0, 0xFF, 0x31]]"
proof -
  have "uri_path (req_hello 1 7 []) = [bytes ''hello'']" by (simp add: uri_path_def req_hello_def)
  moreover have "[bytes ''hello''] \<noteq> [bytes ''.well-known'', bytes ''core'']" by simp
  ultimately have "spec_response 0x31 (req_hello 1 7 []) = resp_get 0x31 (req_hello 1 7 [])"
    by (simp add: spec_response_def req_hello_def)
  then have "fst (serve 0x31 [Inr (req_hello 1 7 [])]) = [SendTo [0x61, 0x45, 0, 7, 0xAB, 0xC2, 0, 0, 0xFF, 0x31]]"
    by (simp add: resp_get_def ack_def req_hello_def enc_msg_def msg_first_def enc_opt_hdr_def
        opt_first_def opt_nib_def opt_ext_def enc_pay_def)
  with CoapServ_answers_requests [of "[req_hello 1 7 []]" blank_pkt blank_pkt] req_hello_plain [of "[]" 1 7]
  show ?thesis by simp
qed

lemma serve_hello:
  "serve h (Inr (req_hello 3 i (c # cs)) # rs) =
     (let v = if c = 0x31 then 0x31 else 0x30 in
      (SendTo (enc_msg (ack (req_hello 3 i (c # cs)) 0x44 [0, 0] [v])) # fst (serve v rs), snd (serve v rs)))"
  "serve h (Inr (req_hello 1 i pay) # rs) =
     (SendTo (enc_msg (ack (req_hello 1 i pay) 0x45 [0, 0] [h])) # fst (serve h rs), snd (serve h rs))"
proof -
  have u: "uri_path (req_hello code i pay) = [bytes ''hello'']" for code i pay
    by (simp add: uri_path_def req_hello_def)
  have c: "m_code (req_hello code i pay) = code" "m_pay (req_hello code i pay) = pay" for code i pay
    by (simp_all add: req_hello_def)
  show "serve h (Inr (req_hello 3 i (c # cs)) # rs) =
     (let v = if c = 0x31 then 0x31 else 0x30 in
      (SendTo (enc_msg (ack (req_hello 3 i (c # cs)) 0x44 [0, 0] [v])) # fst (serve v rs), snd (serve v rs)))"
    by (simp add: spec_response_def u c resp_put_def Let_def split: prod.split)
  show "serve h (Inr (req_hello 1 i pay) # rs) =
     (SendTo (enc_msg (ack (req_hello 1 i pay) 0x45 [0, 0] [h])) # fst (serve h rs), snd (serve h rs))"
    by (simp add: spec_response_def u c resp_get_def split: prod.split)
qed

text \<open>
  C30. A value put to /hello is what the next get reads: the put is answered Changed, the get Content,
  both with the character the put stored ('1' when its payload starts with '1', else '0'), in
  acknowledgements that carry the token and the message id of their requests.
\<close>

theorem hello_put_get:
  assumes "length cs < 300" and "length (p_opts pkt) = 16" and "length (p_opts rsppkt) = 16"
  shows "\<exists>m0 evs m'. CoapServ_init = Some m0 \<and>
     CoapServ_run pkt rsppkt m0
       [Some (enc_msg (req_hello 3 i (c # cs))), Some (enc_msg (req_hello 1 j []))] = Some (evs, m') \<and>
     filter not_printed (concat evs) =
       [SendTo (enc_msg (ack (req_hello 3 i (c # cs)) 0x44 [0, 0] [if c = 0x31 then 0x31 else 0x30])),
        SendTo (enc_msg (ack (req_hello 1 j []) 0x45 [0, 0] [if c = 0x31 then 0x31 else 0x30]))]"
proof -
  let ?reqs = "[req_hello 3 i (c # cs), req_hello 1 j []]"
  have "\<forall>req \<in> set ?reqs. plain_req req" using assms(1) by (simp add: req_hello_plain)
  from init_run_requests [OF this assms(2,3)] show ?thesis
    by (auto simp: serve_hello Let_def simp del: serve.simps(3))
qed

theorem hello_put_get_witness:
  "\<exists>m0 evs m'. CoapServ_init = Some m0 \<and>
     CoapServ_run blank_pkt blank_pkt m0
       [Some (enc_msg (req_hello 3 8 (bytes ''0''))), Some (enc_msg (req_hello 1 9 []))] = Some (evs, m') \<and>
     filter not_printed (concat evs) =
       [SendTo (enc_msg (ack (req_hello 3 8 (bytes ''0'')) 0x44 [0, 0] [0x30])),
        SendTo (enc_msg (ack (req_hello 1 9 []) 0x45 [0, 0] [0x30]))]"
  using hello_put_get [of "[]" blank_pkt blank_pkt 8 "0x30" 9] by (simp add: bytes_def)

text \<open>What a failed \<open>recvfrom\<close> does when the buffer still holds a packet.\<close>

lemma recv_failure:
  assumes buf: "load_n m (Ptr R_buf 0) (length (enc_msg msg)) = Some (enc_msg msg)"
    and msg: "m_type msg < 4" "length (m_tok msg) \<le> 8" and inv: "sinv m hello"
  shows "CoapServ_step pkt rsppkt m None = None"
proof -
  let ?t = "m_type msg" and ?k = "length (m_tok msg)"
  have "take (length (enc_msg msg)) (m R_buf) = enc_msg msg"
    using buf by (auto simp: load_n_def rdn_def enc_msg_def split: if_splits)
  then have pre: "m R_buf = enc_msg msg @ drop (length (enc_msg msg)) (m R_buf)"
    by (metis append_take_drop_id)
  then obtain rest where
    b: "m R_buf = msg_first ?t ?k # m_code msg # m_id0 msg # m_id1 msg # rest"
    by (simp add: enc_msg_def)
  have k: "unat (word_of_nat ?k :: u8) = ?k" using msg by (intro unat_of_nat_u8) simp
  have "length (m R_buf) = 512" using inv by (simp add: sinv_def)
  then have "coap_parse m pkt R_buf (2 ^ 64 - 1) = None"
    using msg k msg_first_ver [of ?t ?k] msg_first_tkl [of ?t ?k]
    by (auto simp: coap_parse_def coap_parseHeader_def rd_def b coap_parseToken_def
        coap_parseOptionsAndPayload_def word_le_nat_alt Let_def simp del: drop_bit_and unat_of_nat)
  then show ?thesis by (simp add: CoapServ_step_def recv_buf_def)
qed

text \<open>
  A failing \<open>recvfrom\<close> is not handled: its result -1 becomes the packet length as a huge unsigned
  number, and once the server has answered any well-formed request, so that its buffer starts
  like a packet, the next failing call makes the step undefined (the parser is told to read far
  behind its buffer).
\<close>

lemma CoapServ_recv_failure_undefined:
  assumes req: "plain_req req" and pk: "length (p_opts pkt) = 16" "length (p_opts rsppkt) = 16"
    and init: "CoapServ_init = Some m0"
  shows "CoapServ_run pkt rsppkt m0 [Some (enc_msg req), None] = None"
proof -
  let ?d = "enc_msg req" and ?rsp = "snd (spec_response 0x31 req)"
  have inv: "sinv m0 0x31" using CoapServ_init_sinv init by (metis option.inject)
  have d: "length ?d < 512" using req by (simp add: plain_req_def)
  have "take (length ?d) (put m0 R_buf ?d R_buf) = ?d" "length ?d \<le> length (put m0 R_buf ?d R_buf)"
    by (simp_all add: put_same)
  with coap_parse_enc [of req pkt "length ?d" "put m0 R_buf ?d" R_buf] req pk
  obtain pkt' req' where p: "coap_parse (put m0 R_buf ?d) pkt R_buf (length ?d) = Some (COAP_ERR_NONE, pkt')"
    "pkt_msg (put m0 R_buf ?d) pkt' = Some req'" "m_tok req' = m_tok req"
    by (auto simp: plain_req_def)
  from CoapServ_step_accept [OF inv d pk(2,1) p(1,2)] obtain s m1 where
    st: "CoapServ_step pkt rsppkt m0 (Some ?d) =
       Some ([Payload s, SendTo (enc_msg (snd (spec_response 0x31 req')))], m1)"
    "sinv m1 (fst (spec_response 0x31 req'))"
    "load_n m1 (Ptr R_buf 0) (length (enc_msg (snd (spec_response 0x31 req')))) =
       Some (enc_msg (snd (spec_response 0x31 req')))" by blast
  have "m_type (snd (spec_response 0x31 req')) < 4" "length (m_tok (snd (spec_response 0x31 req'))) \<le> 8"
    using req p(3) by (auto simp: spec_response_def resp_defs ack_def plain_req_def wf_msg_def Let_def
        split: list.splits)
  from recv_failure [OF st(3) this st(2)] st(1) show ?thesis by simp
qed

lemma CoapServ_recv_failure_undefined_witness:
  "\<exists>m0. CoapServ_init = Some m0 \<and>
     CoapServ_run blank_pkt blank_pkt m0 [Some (enc_msg (req_hello 1 7 [])), None] = None"
  using CoapServ_recv_failure_undefined [OF req_hello_plain [of "[]" 1 7], of blank_pkt blank_pkt]
    CoapServ_init_sinv by auto

end
