(* ===== verification/Coap_Client.thy ===== *)
theory Coap_Client
  imports Picocoap_Build Coap_Server_Correct
begin

section \<open>The CoAP client process: coapClient/coapClient.c\<close>

text \<open>
  One client process per device: it reads messages from its fifo and sends each as the payload of a
  CoAP request to the device.  One turn of its loop is a function of what the system calls
  deliver.  The buffers, the message id counter and the remote address are its state; the address
  is written by \<open>recvfrom\<close>, and so part of it.
\<close>

definition MSG_BUF_LEN :: nat where
  "MSG_BUF_LEN = 512"

record 'a client =
  c_msg_buf :: "u8 list"
  c_send :: coap_pdu
  c_mid :: u16
  c_remote :: 'a

text \<open>
  What the system calls of one turn deliver: the bytes read from the fifo (\<open>None\<close> for -1), the value
  of \<open>rand\<close>, whether \<open>sendto\<close> succeeds, and the sender of the datagram received, if any arrives before
  the timeout.
\<close>

record 'a client_input =
  i_read :: "u8 list option"
  i_rand :: u64
  i_sent :: bool
  i_from :: "'a option"

definition read_fifo :: "u8 list \<Rightarrow> u8 list option \<Rightarrow> (nat \<times> u8 list) option" where
  "read_fifo buf d =
     (case d of
        None \<Rightarrow> Some (2 ^ 64 - 1, buf)
      | Some bs \<Rightarrow>
          do {
            b \<leftarrow> wrn buf 0 (take MSG_BUF_LEN bs);
            Some (length (take MSG_BUF_LEN bs), b)
          })"

text \<open>
  One turn: the datagram handed to \<open>sendto\<close>, with its destination, and the new state.  No result of
  the message calls is looked at.  \<open>msg_len\<close> becomes the \<open>size_t\<close> length of the payload.
\<close>

definition CoapClient_turn ::
  "u8 list \<Rightarrow> 'a client \<Rightarrow> 'a client_input \<Rightarrow> (u8 list \<times> 'a \<times> 'a client) option" where
  "CoapClient_turn path st inp =
     do {
       b0 \<leftarrow> wrn (pdu_buf (c_send st)) 0 (replicate MSG_BUF_LEN 0);
       let p0 = (c_send st)\<lparr>pdu_buf := b0, pdu_len := 0\<rparr>;
       (msg_len, msg_buf) \<leftarrow> read_fifo (c_msg_buf st) (i_read inp);
       (_, p1) \<leftarrow> coap_init_pdu p0;
       (_, p2) \<leftarrow> coap_set_version p1 COAP_V1;
       (_, p3) \<leftarrow> coap_set_type p2 CT_CON;
       (_, p4) \<leftarrow> coap_set_code p3 CC_GET;
       (_, p5) \<leftarrow> coap_set_mid p4 (c_mid st);
       (_, p6) \<leftarrow> coap_set_token p5 (i_rand inp) 2;
       s \<leftarrow> cstr path 0;
       (_, p7) \<leftarrow> coap_add_option p6 CON_URI_PATH path (word_of_nat (length s));
       (_, p8) \<leftarrow> coap_set_payload p7 msg_buf msg_len;
       d \<leftarrow> rdn (pdu_buf p8) 0 (pdu_len p8);
       Some (d, c_remote st,
         \<lparr>c_msg_buf = msg_buf, c_send = p8, c_mid = c_mid st + 1,
          c_remote = (if i_sent inp then (case i_from inp of None \<Rightarrow> c_remote st | Some a \<Rightarrow> a)
                      else c_remote st)\<rparr>)
     }"

subsection \<open>The request a turn sends\<close>

definition client_req :: "u16 \<Rightarrow> u64 \<Rightarrow> u8 list \<Rightarrow> u8 list \<Rightarrow> coap_msg" where
  "client_req mid token path pay =
     \<lparr>m_type = 0, m_code = 1, m_id0 = mid_hi mid, m_id1 = mid_lo mid, m_tok = le_bytes 2 token,
      m_opts = [(11, path)], m_pay = pay\<rparr>"

definition client_ok :: "'a client \<Rightarrow> bool" where
  "client_ok st \<longleftrightarrow>
     length (c_msg_buf st) = 512 \<and> length (pdu_buf (c_send st)) = 512 \<and> pdu_max (c_send st) = 512"

text \<open>The message with its path, before the payload is set.\<close>

lemma client_message:
  assumes p: "pdu_max p = 512" "length (pdu_buf p) = 512" and s: "cstr path 0 = Some s" "length s \<le> 127"
  shows "\<exists>p7. do {
       (_, p1) \<leftarrow> coap_init_pdu p;
       (_, p2) \<leftarrow> coap_set_version p1 COAP_V1;
       (_, p3) \<leftarrow> coap_set_type p2 CT_CON;
       (_, p4) \<leftarrow> coap_set_code p3 CC_GET;
       (_, p5) \<leftarrow> coap_set_mid p4 mid;
       (_, p6) \<leftarrow> coap_set_token p5 token 2;
       (_, p7) \<leftarrow> coap_add_option p6 CON_URI_PATH path (word_of_nat (length s));
       Some p7
     } = Some p7 \<and> pdu_rep p7 (client_req mid token s []) \<and> pdu_max p7 = 512"
proof -
  have e: "pdu_max p = length (pdu_buf p) \<and> pdu_max p = 512 \<and> (512 :: nat) < 2 ^ 63" using p by simp
  obtain p6 where p6: "do {
      (_, p1) \<leftarrow> coap_init_pdu p;
      (_, p2) \<leftarrow> coap_set_version p1 COAP_V1;
      (_, p3) \<leftarrow> coap_set_type p2 (word_of_nat 0);
      (_, p4) \<leftarrow> coap_set_code p3 1;
      (_, p5) \<leftarrow> coap_set_mid p4 mid;
      (_, p6) \<leftarrow> coap_set_token p5 token 2;
      Some p6
    } = Some p6" "pdu_rep p6 (client_req mid token s [] \<lparr>m_opts := []\<rparr>)" "pdu_max p6 = 512"
    using pico.header_built [OF e, of 0 1 mid token] by (auto simp: client_req_def)
  let ?m = "client_req mid token s [] \<lparr>m_opts := []\<rparr>"
  have m: "m_opts ?m = []" "?m\<lparr>m_opts := m_opts ?m @ [(11, s)]\<rparr> = client_req mid token s []"
    by (simp_all add: client_req_def)
  have path: "path = s @ drop (length s) path"
    using s(1) by (auto simp: cstr_def split: if_splits intro: takeWhile_eq_take)
      (metis append_take_drop_id takeWhile_eq_take)
  have "length (enc_msg (client_req mid token s [])) \<le> 512"
    using s(2) by (simp add: enc_msg_def client_req_def enc_pay_def enc_opt_hdr_def length_opt_ext)
  with coap_add_option_rep [OF p6(2), of 11 s "drop (length s) path"] s(2) p6(3) path m
  have "now_holds (coap_add_option p6 (int 11) path (word_of_nat (length s))) p6 (client_req mid token s [])"
    by simp
  then obtain p7 where "coap_add_option p6 CON_URI_PATH path (word_of_nat (length s)) = Some (CE_NONE, p7)"
    "pdu_rep p7 (client_req mid token s [])" "pdu_max p7 = 512"
    using p6(3) by (auto simp: now_holds_def CON_URI_PATH_def)
  with p6(1) show ?thesis
    by (auto simp: CT_CON_def CC_GET_def Option.bind_eq_Some_conv split: prod.splits)
qed

text \<open>A turn up to the payload: what is left when the request without payload is built in \<open>p7\<close>.\<close>

definition send_from ::
  "'a client \<Rightarrow> 'a client_input \<Rightarrow> coap_pdu \<Rightarrow> (u8 list \<times> 'a \<times> 'a client) option" where
  "send_from st inp p7 =
     do {
       (msg_len, msg_buf) \<leftarrow> read_fifo (c_msg_buf st) (i_read inp);
       (_, p8) \<leftarrow> coap_set_payload p7 msg_buf msg_len;
       d \<leftarrow> rdn (pdu_buf p8) 0 (pdu_len p8);
       Some (d, c_remote st,
         \<lparr>c_msg_buf = msg_buf, c_send = p8, c_mid = c_mid st + 1,
          c_remote = (if i_sent inp then (case i_from inp of None \<Rightarrow> c_remote st | Some a \<Rightarrow> a)
                      else c_remote st)\<rparr>)
     }"

lemma CoapClient_turn_reduced:
  assumes ok: "client_ok st" and s: "cstr path 0 = Some s" "length s \<le> 127"
  shows "\<exists>p7. pdu_rep p7 (client_req (c_mid st) (i_rand inp) s []) \<and> pdu_max p7 = 512 \<and>
     CoapClient_turn path st inp = send_from st inp p7"
proof -
  define p0 where "p0 = (c_send st)\<lparr>pdu_buf := replicate 512 0, pdu_len := 0\<rparr>"
  have w: "wrn (pdu_buf (c_send st)) 0 (replicate MSG_BUF_LEN 0) = Some (replicate 512 0)"
    using ok by (simp add: client_ok_def MSG_BUF_LEN_def wrn_def)
  have "pdu_max p0 = 512" "length (pdu_buf p0) = 512" using ok by (simp_all add: p0_def client_ok_def)
  from client_message [OF this s, of "c_mid st" "i_rand inp"] obtain p7 where
    p7: "pdu_rep p7 (client_req (c_mid st) (i_rand inp) s [])" "pdu_max p7 = 512" and
    calls: "do {
       (_, p1) \<leftarrow> coap_init_pdu p0;
       (_, p2) \<leftarrow> coap_set_version p1 COAP_V1;
       (_, p3) \<leftarrow> coap_set_type p2 CT_CON;
       (_, p4) \<leftarrow> coap_set_code p3 CC_GET;
       (_, p5) \<leftarrow> coap_set_mid p4 (c_mid st);
       (_, p6) \<leftarrow> coap_set_token p5 (i_rand inp) 2;
       (_, p7) \<leftarrow> coap_add_option p6 CON_URI_PATH path (word_of_nat (length s));
       Some p7
     } = Some p7" by blast
  from calls obtain e1 p1 e2 p2 e3 p3 e4 p4 e5 p5 e6 p6 e7 where
    c: "coap_init_pdu p0 = Some (e1, p1)" "coap_set_version p1 COAP_V1 = Some (e2, p2)"
    "coap_set_type p2 CT_CON = Some (e3, p3)" "coap_set_code p3 CC_GET = Some (e4, p4)"
    "coap_set_mid p4 (c_mid st) = Some (e5, p5)" "coap_set_token p5 (i_rand inp) 2 = Some (e6, p6)"
    "coap_add_option p6 CON_URI_PATH path (word_of_nat (length s)) = Some (e7, p7)"
    by (auto simp: Option.bind_eq_Some_conv split: prod.splits)
  show ?thesis
    using p7 c
    by (intro exI [of _ p7]; cases "read_fifo (c_msg_buf st) (i_read inp)")
      (auto simp: CoapClient_turn_def send_from_def w s(1) p0_def [symmetric])
qed

lemma rdn_rep: "pdu_rep p msg \<Longrightarrow> rdn (pdu_buf p) 0 (pdu_len p) = Some (enc_msg msg)"
  by (auto simp: pdu_rep_def rdn_def)

lemma length_client_req:
  "length s \<le> 127 \<Longrightarrow>
     length (enc_msg (client_req mid token s pay)) = 7 + length s + (if length s < 13 then 0 else 1)
       + (if pay = [] then 0 else 1 + length pay)"
  by (simp add: enc_msg_def client_req_def enc_pay_def enc_opt_hdr_def length_opt_ext)

lemma CoapClient_turn_sends:
  assumes ok: "client_ok st" and s: "cstr path 0 = Some s" "length s \<le> 127"
    and rd: "i_read inp = Some bs" "bs \<noteq> []" "length bs \<le> 512"
  shows "\<exists>st'. CoapClient_turn path st inp =
     Some (enc_msg (client_req (c_mid st) (i_rand inp) s
             (if length (enc_msg (client_req (c_mid st) (i_rand inp) s bs)) \<le> 512 then bs else [])),
       c_remote st, st') \<and>
     client_ok st' \<and> c_mid st' = c_mid st + 1 \<and>
     c_remote st' = (if i_sent inp then (case i_from inp of None \<Rightarrow> c_remote st | Some a \<Rightarrow> a) else c_remote st)"
proof -
  let ?req = "client_req (c_mid st) (i_rand inp) s"
  obtain p7 where p7: "pdu_rep p7 (?req [])" "pdu_max p7 = 512" and
    turn: "CoapClient_turn path st inp = send_from st inp p7"
    using CoapClient_turn_reduced [OF ok s, of inp] by blast
  define mb where "mb = bs @ drop (length bs) (c_msg_buf st)"
  have mb: "read_fifo (c_msg_buf st) (i_read inp) = Some (length bs, mb)" "length mb = 512"
    using ok rd by (simp_all add: read_fifo_def MSG_BUF_LEN_def client_ok_def mb_def)
  have req: "(?req []) \<lparr>m_pay := bs\<rparr> = ?req bs" "m_pay (?req []) = []" by (simp_all add: client_req_def)
  have "length bs < 2 ^ 62" using rd(3) by simp
  note pay = coap_set_payload_rep [OF p7(1) req(2) rd(2) this, of "drop (length bs) (c_msg_buf st)",
      unfolded req(1) p7(2) mb_def [symmetric]]
  show ?thesis
  proof (cases "length (enc_msg (?req bs)) \<le> 512")
    case True
    with pay p7(2) obtain p8 where "coap_set_payload p7 mb (length bs) = Some (CE_NONE, p8)"
      "pdu_rep p8 (?req bs)" "pdu_max p8 = 512" by (auto simp: now_holds_def)
    with True mb rdn_rep [of p8] show ?thesis by (auto simp: turn send_from_def client_ok_def pdu_rep_def)
  next
    case False
    with pay have "coap_set_payload p7 mb (length bs) = Some (CE_INSUFFICIENT_BUFFER, p7)" by simp
    with False mb rdn_rep [OF p7(1)] p7 show ?thesis by (auto simp: turn send_from_def client_ok_def pdu_rep_def)
  qed
qed

lemma CoapClient_turn_eof:
  assumes ok: "client_ok st" and s: "cstr path 0 = Some s" "length s \<le> 127" and rd: "i_read inp = Some []"
  shows "\<exists>st'. CoapClient_turn path st inp =
     Some (enc_msg (client_req (c_mid st) (i_rand inp) s []) @ [0xFF], c_remote st, st')"
proof -
  let ?req = "client_req (c_mid st) (i_rand inp) s []"
  obtain p7 where p7: "pdu_rep p7 ?req" "pdu_max p7 = 512" and
    turn: "CoapClient_turn path st inp = send_from st inp p7"
    using CoapClient_turn_reduced [OF ok s, of inp] by blast
  have "read_fifo (c_msg_buf st) (i_read inp) = Some (0, c_msg_buf st)"
    using rd by (simp add: read_fifo_def)
  moreover have "pdu_len p7 < pdu_max p7"
    using p7 length_client_req [OF s(2), of "c_mid st" "i_rand inp" "[]"] s(2) by (simp add: pdu_rep_def)
  moreover have "m_pay ?req = []" by (simp add: client_req_def)
  ultimately obtain p8 where p8: "coap_set_payload p7 (c_msg_buf st) 0 = Some (CE_NONE, p8)"
    "take (pdu_len p8) (pdu_buf p8) = enc_msg ?req @ [0xFF]"
    "pdu_len p8 \<le> length (pdu_buf p8)"
    using coap_set_payload_empty [OF p7(1)] by blast
  then show ?thesis
    using \<open>read_fifo (c_msg_buf st) (i_read inp) = Some (0, c_msg_buf st)\<close> by (simp add: turn send_from_def rdn_def)
qed

subsection \<open>Requests for a sequence of messages\<close>

text \<open>
  The pieces read from the fifo are not all sent.  A piece fits when its request does not exceed the
  buffer of 512 bytes; for one that does not fit \<open>coap_set_payload\<close> fails, the client ignores that, and
  the request goes out with an empty payload: the bytes of the piece are lost.
\<close>

definition fits :: "u8 list \<Rightarrow> u8 list \<Rightarrow> bool" where
  "fits p c \<longleftrightarrow> length (enc_msg (client_req 0 0 p c)) \<le> MSG_BUF_LEN"

definition request_for :: "u16 \<Rightarrow> u64 \<Rightarrow> u8 list \<Rightarrow> u8 list \<Rightarrow> coap_msg" where
  "request_for mid token p c =
     client_req mid token p (if length (enc_msg (client_req mid token p c)) \<le> 512 then c else [])"

fun requests :: "u16 \<Rightarrow> u8 list \<Rightarrow> (u64 \<times> u8 list) list \<Rightarrow> coap_msg list" where
  "requests mid p [] = []"
| "requests mid p ((token, c) # cs) = request_for mid token p c # requests (mid + 1) p cs"

lemma fits_request: "length p \<le> 127 \<Longrightarrow> length (enc_msg (client_req mid token p c)) \<le> 512 \<longleftrightarrow> fits p c"
  by (simp add: fits_def length_client_req MSG_BUF_LEN_def)

lemma request_for_payload: "length p \<le> 127 \<Longrightarrow> m_pay (request_for mid token p c) = (if fits p c then c else [])"
  by (cases "fits p c") (simp_all add: request_for_def fits_request, simp_all add: client_req_def)

text \<open>Pieces of up to 376 bytes fit behind every path, and parts of what fits do.\<close>

lemma fits_short: "length p \<le> 127 \<Longrightarrow> length c \<le> 376 \<Longrightarrow> fits p c"
  by (simp add: fits_def length_client_req MSG_BUF_LEN_def)

lemma fits_part: "length p \<le> 127 \<Longrightarrow> fits p (concat cs) \<Longrightarrow> c \<in> set cs \<Longrightarrow> fits p c"
proof -
  assume p: "length p \<le> 127" and fit: "fits p (concat cs)" and c: "c \<in> set cs"
  from c have "length c \<le> length (concat cs)" "concat cs = [] \<Longrightarrow> c = []" by (induction cs) auto
  with p fit show "fits p c"
    by (cases "concat cs = []") (auto simp del: concat_eq_Nil_conv simp: fits_def length_client_req)
qed

lemma requests_snoc:
  "requests mid p (cs @ [(token, c)]) = requests mid p cs @ [request_for (mid + word_of_nat (length cs)) token p c]"
  by (induction mid p cs rule: requests.induct) (auto simp: add.assoc)

lemma length_requests [simp]: "length (requests mid p cs) = length cs"
  by (induction mid p cs rule: requests.induct) auto

lemma requests_payloads:
  "length p \<le> 127 \<Longrightarrow> map m_pay (requests mid p cs) = map (\<lambda>c. if fits p c then c else []) (map snd cs)"
  by (induction mid p cs rule: requests.induct) (auto simp: request_for_payload)

text \<open>
  What a client has read in a sequence of turns, the requests that follow from it, and where they go:
  to the device, and after each reply to whoever sent the reply.
\<close>

definition message_ok :: "'a client_input \<Rightarrow> bool" where
  "message_ok inp \<longleftrightarrow> (case i_read inp of None \<Rightarrow> False | Some bs \<Rightarrow> bs \<noteq> [] \<and> length bs \<le> MSG_BUF_LEN)"

definition pieces :: "'a client_input list \<Rightarrow> u8 list list" where
  "pieces inps = map (\<lambda>i. the (i_read i)) inps"

definition client_requests :: "'a client \<Rightarrow> u8 list \<Rightarrow> 'a client_input list \<Rightarrow> coap_msg list" where
  "client_requests st p inps = requests (c_mid st) p (map (\<lambda>i. (i_rand i, the (i_read i))) inps)"

fun destinations :: "'a \<Rightarrow> 'a client_input list \<Rightarrow> 'a list" where
  "destinations a [] = []"
| "destinations a (inp # inps) =
     a # destinations (if i_sent inp then (case i_from inp of None \<Rightarrow> a | Some b \<Rightarrow> b) else a) inps"

text \<open>The address the next datagram goes to.\<close>

fun heard :: "'a \<Rightarrow> 'a client_input list \<Rightarrow> 'a" where
  "heard a [] = a"
| "heard a (inp # inps) = heard (if i_sent inp then (case i_from inp of None \<Rightarrow> a | Some b \<Rightarrow> b) else a) inps"

definition client_log :: "'a client \<Rightarrow> u8 list \<Rightarrow> 'a client_input list \<Rightarrow> (u8 list \<times> 'a) list" where
  "client_log st p inps = zip (map enc_msg (client_requests st p inps)) (destinations (c_remote st) inps)"

lemma length_destinations [simp]: "length (destinations a inps) = length inps"
  by (induction a inps rule: destinations.induct) auto

lemma destinations_snoc: "destinations a (inps @ [inp]) = destinations a inps @ [heard a inps]"
  by (induction a inps rule: destinations.induct) auto

lemma heard_snoc:
  "heard a (inps @ [inp]) =
     (if i_sent inp then (case i_from inp of None \<Rightarrow> heard a inps | Some b \<Rightarrow> b) else heard a inps)"
  by (induction a inps rule: heard.induct) (simp_all split: option.split)

lemma pieces_snoc: "pieces (inps @ [inp]) = pieces inps @ [the (i_read inp)]"
  by (simp add: pieces_def)

lemma client_log_Nil [simp]: "client_log st p [] = []"
  by (simp add: client_log_def)

lemma client_log_snoc:
  "client_log st p (inps @ [inp]) = client_log st p inps @
     [(enc_msg (request_for (c_mid st + word_of_nat (length inps)) (i_rand inp) p (the (i_read inp))),
       heard (c_remote st) inps)]"
  by (simp add: client_log_def client_requests_def requests_snoc destinations_snoc)

lemma client_log_requests: "map fst (client_log st p inps) = map enc_msg (client_requests st p inps)"
  by (simp add: client_log_def client_requests_def)

lemma client_payloads:
  "length p \<le> 127 \<Longrightarrow> map m_pay (client_requests st p inps) = map (\<lambda>c. if fits p c then c else []) (pieces inps)"
  by (simp add: client_requests_def pieces_def requests_payloads)

lemma client_payloads_all:
  "length p \<le> 127 \<Longrightarrow> fits p (concat (pieces inps)) \<Longrightarrow> map m_pay (client_requests st p inps) = pieces inps"
  by (auto simp: client_payloads intro!: map_idI dest: fits_part)

text \<open>A path as the code sends it.\<close>

definition path_ok :: "u8 list \<Rightarrow> u8 list \<Rightarrow> bool" where
  "path_ok path p \<longleftrightarrow> cstr path 0 = Some p \<and> length p \<le> 127"

subsection \<open>Properties\<close>

text \<open>A client at work and what its system calls deliver, for the witnesses.\<close>

definition ex_client :: "nat client" where
  "ex_client = \<lparr>c_msg_buf = replicate 512 0, c_send = \<lparr>pdu_buf = replicate 512 0, pdu_len = 0, pdu_max = 512\<rparr>,
     c_mid = 0xFFFF, c_remote = 1\<rparr>"

definition ex_path :: "u8 list" where
  "ex_path = bytes ''hello'' @ replicate 123 0"

lemma ex_client_ok: "client_ok ex_client"
  by (simp add: client_ok_def ex_client_def)

lemma ex_client_sel: "c_mid ex_client = 0xFFFF" "c_remote ex_client = 1"
  by (simp_all add: ex_client_def)

lemma le_bytes_2: "le_bytes 2 w = [ucast w, ucast (drop_bit 8 w)]"
proof -
  have "le_bytes (Suc (Suc 0)) w = [ucast w, ucast (drop_bit 8 w)]" by simp
  then show ?thesis by (simp only: numeral_2_eq_2)
qed

lemma ex_path_cstr: "cstr ex_path 0 = Some (bytes ''hello'')"
proof -
  have "0 \<notin> set (bytes ''hello'')" by (simp add: bytes_def)
  moreover have "replicate 123 (0 :: u8) = 0 # replicate 122 0" by (simp flip: replicate_Suc)
  ultimately show ?thesis using cstr_prefix [of "bytes ''hello''" "[]"] by (simp add: ex_path_def)
qed

text \<open>
  C20. What the client sends: for every message read from the fifo, and a path of at most 127
  characters, one turn hands exactly one datagram to the socket: the encoding of a confirmable
  GET with the next message id, a fresh two-byte token, the path as its only option and the
  message as payload.  When the message does not fit into the 512-byte buffer, the same request
  goes out without any payload.  The message id counts up, wrapping at 16 bits, and the reply's
  sender becomes the destination of the next request.
\<close>

theorem CoapClient_sends_request:
  assumes "client_ok st" and "cstr path 0 = Some s" "length s \<le> 127"
    and "i_read inp = Some bs" "bs \<noteq> []" "length bs \<le> 512"
  shows "\<exists>st'. CoapClient_turn path st inp =
     Some (enc_msg (client_req (c_mid st) (i_rand inp) s
             (if length (enc_msg (client_req (c_mid st) (i_rand inp) s bs)) \<le> 512 then bs else [])),
       c_remote st, st') \<and>
     client_ok st' \<and> c_mid st' = c_mid st + 1 \<and>
     c_remote st' = (if i_sent inp then (case i_from inp of None \<Rightarrow> c_remote st | Some a \<Rightarrow> a) else c_remote st)"
  by (rule CoapClient_turn_sends [OF assms])

theorem CoapClient_sends_request_witness:
  "\<exists>st'. CoapClient_turn ex_path ex_client
       \<lparr>i_read = Some (bytes ''$t&''), i_rand = 0x0102, i_sent = True, i_from = Some 9\<rparr> =
     Some ([0x42, 1, 0xFF, 0xFF, 2, 1, 0xB5] @ bytes ''hello'' @ [0xFF] @ bytes ''$t&'', 1, st') \<and>
     c_mid st' = 0 \<and> c_remote st' = 9"
proof -
  define inp where "inp = \<lparr>i_read = Some (bytes ''$t&''), i_rand = 0x0102, i_sent = True, i_from = Some (9 :: nat)\<rparr>"
  have inp: "i_read inp = Some (bytes ''$t&'')" "i_rand inp = 0x0102" "i_sent inp" "i_from inp = Some 9"
    by (simp_all add: inp_def)
  have ne: "bytes ''$t&'' \<noteq> []" by (simp add: bytes_def)
  have t: "le_bytes 2 0x0102 = [2, 1]" by (simp add: le_bytes_2)
  have mid: "mid_hi 0xFFFF = 0xFF" "mid_lo 0xFFFF = 0xFF" by (simp_all add: mid_hi_def mid_lo_def)
  have e: "enc_msg (client_req 0xFFFF 0x0102 (bytes ''hello'') (bytes ''$t&'')) =
      [0x42, 1, 0xFF, 0xFF, 2, 1, 0xB5] @ bytes ''hello'' @ [0xFF] @ bytes ''$t&''"
    using ne by (simp add: client_req_def enc_msg_def msg_first_def enc_opt_hdr_def opt_first_def opt_nib_def
        opt_ext_def enc_pay_def t mid)
  have l: "length (enc_msg (client_req 0xFFFF 0x0102 (bytes ''hello'') (bytes ''$t&''))) \<le> 512"
    by (simp add: e)
  have "length (bytes ''hello'') \<le> 127" "length (bytes ''$t&'') \<le> 512" by simp_all
  from CoapClient_sends_request [OF ex_client_ok ex_path_cstr this(1) inp(1) ne this(2)] obtain st' where
    "CoapClient_turn ex_path ex_client inp =
      Some (enc_msg (client_req 0xFFFF 0x0102 (bytes ''hello'') (bytes ''$t&'')), 1, st')"
    "c_mid st' = 0xFFFF + 1" "c_remote st' = 9"
    by (auto simp only: ex_client_sel inp l if_True option.case)
  then show ?thesis unfolding e inp_def by simp
qed

lemma client_req_plain:
  assumes "length s \<le> 127" and "length (enc_msg (client_req mid token s pay)) < 512"
  shows "plain_req (client_req mid token s pay)"
  using assms by (simp add: plain_req_def client_req_def wf_msg_def)

lemma server_decodes:
  assumes req: "plain_req req" and pk: "length (p_opts pkt) = 16" and init: "CoapServ_init = Some m0"
  shows "\<exists>m1 pkt1. recv_buf m0 (Some (enc_msg req)) = Some (length (enc_msg req), m1) \<and>
     coap_parse m1 pkt R_buf (length (enc_msg req)) = Some (COAP_ERR_NONE, pkt1) \<and> pkt_msg m1 pkt1 = Some req"
proof -
  let ?d = "enc_msg req"
  have "sinv m0 0x31" using CoapServ_init_sinv init by (metis option.inject)
  moreover have d: "length ?d < 512" using req by (simp add: plain_req_def)
  ultimately have "recv_buf m0 (Some ?d) = Some (length ?d, put m0 R_buf ?d)" using recv_buf_short by blast
  moreover have "take (length ?d) (put m0 R_buf ?d R_buf) = ?d" "length ?d \<le> length (put m0 R_buf ?d R_buf)"
    by (simp_all add: put_same)
  moreover have "map trunc_num (m_opts req) = m_opts req"
    using req by (intro map_idI) (simp add: plain_req_def trunc_num_def)
  ultimately show ?thesis
    using coap_parse_enc [of req pkt "length ?d" "put m0 R_buf ?d" R_buf] req pk by (auto simp: plain_req_def)
qed

text \<open>
  C19. The two CoAP libraries of the gateway understand each other.  Take a request that the client
  sends for a piece read from its fifo, shorter than the server's buffer.  What the server's parser
  makes of the datagram in its buffer is a packet that stands for exactly the message the client
  meant: type, code, message id, token, path and payload.  The server answers it once, by the
  acknowledgement its specification gives, with the client's message id and token.
\<close>

theorem client_server_interop:
  assumes ok: "client_ok st" and s: "cstr path 0 = Some s" "length s \<le> 127"
    and rd: "i_read inp = Some bs" "bs \<noteq> []"
    and small: "length (enc_msg (client_req (c_mid st) (i_rand inp) s bs)) < 512"
    and pk: "length (p_opts pkt) = 16" "length (p_opts rsppkt) = 16"
  shows "\<exists>d st' m0 m1 pkt1 evs m' rsp. CoapClient_turn path st inp = Some (d, c_remote st, st') \<and>
     CoapServ_init = Some m0 \<and> recv_buf m0 (Some d) = Some (length d, m1) \<and>
     coap_parse m1 pkt R_buf (length d) = Some (COAP_ERR_NONE, pkt1) \<and>
     pkt_msg m1 pkt1 = Some (client_req (c_mid st) (i_rand inp) s bs) \<and>
     CoapServ_run pkt rsppkt m0 [Some d] = Some (evs, m') \<and>
     filter not_printed (concat evs) = [SendTo (enc_msg rsp)] \<and>
     rsp = snd (spec_response 0x31 (client_req (c_mid st) (i_rand inp) s bs)) \<and>
     m_type rsp = 2 \<and> m_tok rsp = le_bytes 2 (i_rand inp) \<and>
     m_id0 rsp = mid_hi (c_mid st) \<and> m_id1 rsp = mid_lo (c_mid st)"
proof -
  let ?req = "client_req (c_mid st) (i_rand inp) s bs"
  have "length bs \<le> 512" using small rd(2) length_client_req [OF s(2), of "c_mid st" "i_rand inp" bs] by simp
  from CoapClient_turn_sends [OF ok s rd this] small obtain st' where
    "CoapClient_turn path st inp = Some (enc_msg ?req, c_remote st, st')" by auto
  moreover have plain: "\<forall>req \<in> set [?req]. plain_req req" using client_req_plain [OF s(2) small] by simp
  from init_run_requests [OF this pk] obtain m0 evs m' where
    m0: "CoapServ_init = Some m0" and "CoapServ_run pkt rsppkt m0 [Some (enc_msg ?req)] = Some (evs, m')"
    "filter not_printed (concat evs) = [SendTo (enc_msg (snd (spec_response 0x31 ?req)))]"
    by (auto split: prod.splits)
  moreover obtain m1 pkt1 where "recv_buf m0 (Some (enc_msg ?req)) = Some (length (enc_msg ?req), m1)"
    "coap_parse m1 pkt R_buf (length (enc_msg ?req)) = Some (COAP_ERR_NONE, pkt1)" "pkt_msg m1 pkt1 = Some ?req"
    using server_decodes [OF _ pk(1) m0, of ?req] plain by auto
  moreover have "m_type (snd (spec_response h r)) = 2" "m_tok (snd (spec_response h r)) = m_tok r"
    "m_id0 (snd (spec_response h r)) = m_id0 r" "m_id1 (snd (spec_response h r)) = m_id1 r" for h r
    by (auto simp: spec_response_def resp_defs ack_def Let_def split: list.splits)
  moreover have "m_tok ?req = le_bytes 2 (i_rand inp)" "m_id0 ?req = mid_hi (c_mid st)" "m_id1 ?req = mid_lo (c_mid st)"
    by (simp_all add: client_req_def)
  ultimately show ?thesis
    by (intro exI [of _ "enc_msg ?req"] exI [of _ st'] exI [of _ m0] exI [of _ m1] exI [of _ pkt1] exI [of _ evs]
        exI [of _ m'] exI [of _ "snd (spec_response 0x31 ?req)"] conjI) (simp_all only:)
qed

theorem client_server_interop_witness:
  "\<exists>d st' m0 m1 pkt1 evs m' rsp. CoapClient_turn ex_path ex_client
       \<lparr>i_read = Some (bytes ''$t&''), i_rand = 0x0102, i_sent = True, i_from = None\<rparr> = Some (d, 1, st') \<and>
     CoapServ_init = Some m0 \<and> recv_buf m0 (Some d) = Some (length d, m1) \<and>
     coap_parse m1 blank_pkt R_buf (length d) = Some (COAP_ERR_NONE, pkt1) \<and>
     pkt_msg m1 pkt1 = Some (client_req 0xFFFF 0x0102 (bytes ''hello'') (bytes ''$t&'')) \<and>
     CoapServ_run blank_pkt blank_pkt m0 [Some d] = Some (evs, m') \<and>
     filter not_printed (concat evs) = [SendTo (enc_msg rsp)] \<and> m_tok rsp = [2, 1]"
proof -
  define inp where
    "inp = (\<lparr>i_read = Some (bytes ''$t&''), i_rand = 0x0102, i_sent = True, i_from = None\<rparr> :: nat client_input)"
  have inp: "i_read inp = Some (bytes ''$t&'')" "i_rand inp = 0x0102" by (simp_all add: inp_def)
  have ne: "bytes ''$t&'' \<noteq> []" by (simp add: bytes_def)
  have l: "length (bytes ''hello'') \<le> 127" by simp
  have "length (enc_msg (client_req (c_mid ex_client) (i_rand inp) (bytes ''hello'') (bytes ''$t&''))) < 512"
    by (subst length_client_req) simp_all
  note th = client_server_interop [OF ex_client_ok ex_path_cstr l inp(1) ne this length_blank_pkt length_blank_pkt]
  have "le_bytes 2 0x0102 = [2, 1]" by (simp add: le_bytes_2)
  with th show ?thesis unfolding ex_client_sel inp(2) unfolding inp_def by metis
qed

text \<open>
  What the client does not check: at the end of the fifo (nothing read) it sends a request that
  ends in a payload marker without payload, which the format forbids, and when reading fails the
  result -1 is used as the payload length and the turn is undefined.
\<close>

lemma CoapClient_read_unchecked:
  assumes ok: "client_ok st" and s: "cstr path 0 = Some s" "length s \<le> 127"
  shows "(i_read inp = Some [] \<longrightarrow>
            (\<exists>st'. CoapClient_turn path st inp =
               Some (enc_msg (client_req (c_mid st) (i_rand inp) s []) @ [0xFF], c_remote st, st'))) \<and>
         (i_read inp = None \<longrightarrow> CoapClient_turn path st inp = None)"
proof (intro conjI impI)
  assume "i_read inp = Some []"
  from CoapClient_turn_eof [OF ok s this] show "\<exists>st'. CoapClient_turn path st inp =
      Some (enc_msg (client_req (c_mid st) (i_rand inp) s []) @ [0xFF], c_remote st, st')" .
next
  assume n: "i_read inp = None"
  let ?req = "client_req (c_mid st) (i_rand inp) s []"
  obtain p7 where p7: "pdu_rep p7 ?req" "pdu_max p7 = 512" and
    turn: "CoapClient_turn path st inp = send_from st inp p7"
    using CoapClient_turn_reduced [OF ok s, of inp] by blast
  obtain k where k: "coap_get_tkl p7 = Some k" "unat k = length (m_tok ?req)"
    using coap_get_tkl_rep [OF p7(1)] by blast
  have "set_payload_seek (pdu_buf p7) (pdu_len p7) (4 + unat k) 0 = Some (CE_END_OF_PACKET, pdu_len p7)"
    using set_payload_position [OF p7(1)] p7(1) k
    by (simp add: client_req_def no_pay_def pdu_rep_def)
  moreover have "sz (pdu_len p7 + (2 ^ 64 - 1) + 1) = pdu_len p7" "pdu_len p7 \<le> 512"
    using p7 by (simp_all add: sz_def pdu_rep_def)
  moreover have "rdn (c_msg_buf st) 0 (2 ^ 64 - 1) = None" using ok by (simp add: rdn_def client_ok_def)
  ultimately have "coap_set_payload p7 (c_msg_buf st) (2 ^ 64 - 1) = None"
    using p7(2) k by (simp add: coap_set_payload_def)
  then show "CoapClient_turn path st inp = None" by (simp add: turn send_from_def n read_fifo_def)
qed

lemma CoapClient_read_unchecked_witness:
  "CoapClient_turn ex_path ex_client \<lparr>i_read = None, i_rand = 0, i_sent = True, i_from = None\<rparr> = None"
  using CoapClient_read_unchecked [OF ex_client_ok ex_path_cstr,
      of "\<lparr>i_read = None, i_rand = 0, i_sent = True, i_from = None\<rparr>"] by simp

end
