(* ===== verification/Pipeline.thy ===== *)
theory Pipeline
  imports Dispatch Coap_Client
begin

section \<open>From the serial port to the devices: user/main.c and coapClient/coapClient.c\<close>

text \<open>
  The threads of the gateway write messages into fifos, and one client process per device reads its
  fifo and sends what it read as requests.  A fifo is a sequence of bytes: \<open>read\<close> delivers any
  nonempty initial part of at most the size of the buffer, however the bytes were written.  Clients
  are named by the descriptor through which the gateway writes to them.  \<open>pl_sent\<close> is the sequence
  of datagrams a client has handed to its socket, with their destinations.
\<close>

record 'a pipeline =
  pl_gw :: gateway
  pl_fifo :: "int \<Rightarrow> u8 list"
  pl_client :: "int \<Rightarrow> 'a client"
  pl_sent :: "int \<Rightarrow> (u8 list \<times> 'a) list"

subsection \<open>Steps\<close>

definition written_to :: "int \<Rightarrow> (int \<times> u8 list) list \<Rightarrow> u8 list" where
  "written_to fd ws = concat (map snd (filter (\<lambda>w. fst w = fd) ws))"

definition feed :: "(int \<Rightarrow> u8 list) \<Rightarrow> (int \<times> u8 list) list \<Rightarrow> int \<Rightarrow> u8 list" where
  "feed q ws = (\<lambda>fd. q fd @ written_to fd ws)"

text \<open>A turn of the client of \<open>fd\<close>, whose \<open>read\<close> delivers \<open>bs\<close>.\<close>

definition client_turn ::
  "u8 list \<Rightarrow> int \<Rightarrow> u8 list \<Rightarrow> 'a client_input \<Rightarrow> 'a pipeline \<Rightarrow> 'a pipeline option" where
  "client_turn path fd bs inp s =
     do {
       (d, dest, st) \<leftarrow> CoapClient_turn path (pl_client s fd) (inp\<lparr>i_read := Some bs\<rparr>);
       Some (s\<lparr>pl_fifo := (pl_fifo s)(fd := drop (length bs) (pl_fifo s fd)),
         pl_client := (pl_client s)(fd := st),
         pl_sent := (pl_sent s)(fd := pl_sent s fd @ [(d, dest)])\<rparr>)
     }"

definition read_ok :: "u8 list \<Rightarrow> u8 list \<Rightarrow> bool" where
  "read_ok q bs \<longleftrightarrow> bs \<noteq> [] \<and> length bs \<le> MSG_BUF_LEN \<and> prefix bs q"

text \<open>
  A write to a fifo waits for room: it happens only when the fifo then holds at most \<open>cap\<close> bytes.  A
  client of an empty fifo waits in \<open>read\<close>.
\<close>

inductive pl_step ::
  "(nat \<Rightarrow> addr) \<Rightarrow> (int \<Rightarrow> u8 list) \<Rightarrow> nat \<Rightarrow> 'a pipeline \<Rightarrow> 'a pipeline \<Rightarrow> bool" for f path cap where
  pl_gateway:
    "gw_step f (pl_gw s) g' \<Longrightarrow> q = feed (pl_fifo s) (new_writes (pl_gw s) g') \<Longrightarrow>
     \<forall>w \<in> set (new_writes (pl_gw s) g'). length (q (fst w)) \<le> cap \<Longrightarrow>
     pl_step f path cap s (s\<lparr>pl_gw := g', pl_fifo := q\<rparr>)"
| pl_read:
    "read_ok (pl_fifo s fd) bs \<Longrightarrow> client_turn (path fd) fd bs inp s = Some s' \<Longrightarrow> pl_step f path cap s s'"

inductive_cases pl_stepE: "pl_step f path cap s s'"

definition pl_init :: "iptab \<Rightarrow> (int \<Rightarrow> 'a client) \<Rightarrow> 'a pipeline" where
  "pl_init t cs = \<lparr>pl_gw = gw_init t, pl_fifo = (\<lambda>fd. []), pl_client = cs, pl_sent = (\<lambda>fd. [])\<rparr>"

subsection \<open>What a client has sent\<close>

text \<open>
  \<open>inps\<close> are the inputs of the turns the client has taken since it was \<open>st0\<close>; \<open>sent\<close> are the requests for
  them, each with its destination.
\<close>

definition client_inv :: "'a client \<Rightarrow> u8 list \<Rightarrow> 'a client_input list \<Rightarrow> 'a client \<Rightarrow> (u8 list \<times> 'a) list \<Rightarrow> bool" where
  "client_inv st0 p inps st sent \<longleftrightarrow>
     client_ok st \<and> c_mid st = c_mid st0 + word_of_nat (length inps) \<and> c_remote st = heard (c_remote st0) inps \<and>
     (\<forall>inp \<in> set inps. message_ok inp) \<and> sent = client_log st0 p inps"

lemma client_inv_start: "client_ok st \<Longrightarrow> client_inv st p [] st []"
  by (simp add: client_inv_def)

lemma client_turn_inv:
  assumes "path_ok path p" and "read_ok q bs" and inv: "client_inv st0 p inps (pl_client s fd) (pl_sent s fd)"
  shows "\<exists>st d dest. client_turn path fd bs inp s =
       Some (s\<lparr>pl_fifo := (pl_fifo s)(fd := drop (length bs) (pl_fifo s fd)), pl_client := (pl_client s)(fd := st),
         pl_sent := (pl_sent s)(fd := pl_sent s fd @ [(d, dest)])\<rparr>) \<and>
     client_inv st0 p (inps @ [inp\<lparr>i_read := Some bs\<rparr>]) st (pl_sent s fd @ [(d, dest)])"
proof -
  let ?st = "pl_client s fd" and ?inp = "inp\<lparr>i_read := Some bs\<rparr>"
  have "client_ok ?st" "cstr path 0 = Some p" "length p \<le> 127" "bs \<noteq> []" "length bs \<le> 512"
    using assms by (auto simp: client_inv_def path_ok_def read_ok_def MSG_BUF_LEN_def)
  with CoapClient_turn_sends [of ?st path p ?inp bs] obtain st' where
    st: "CoapClient_turn path ?st ?inp = Some (enc_msg (request_for (c_mid ?st) (i_rand inp) p bs), c_remote ?st, st')"
    "client_ok st'" "c_mid st' = c_mid ?st + 1"
    "c_remote st' = (if i_sent inp then (case i_from inp of None \<Rightarrow> c_remote ?st | Some a \<Rightarrow> a) else c_remote ?st)"
    by (auto simp: request_for_def)
  moreover have "message_ok ?inp" using assms(2) by (simp add: message_ok_def read_ok_def)
  ultimately have "client_inv st0 p (inps @ [?inp]) st'
      (pl_sent s fd @ [(enc_msg (request_for (c_mid ?st) (i_rand inp) p bs), c_remote ?st)])"
    using inv by (cases "i_sent inp") (simp_all add: client_inv_def client_log_snoc heard_snoc split: option.split)
  with st show ?thesis by (auto simp: client_turn_def)
qed

subsection \<open>The invariant\<close>

lemma written_to_append: "written_to fd (ws @ vs) = written_to fd ws @ written_to fd vs"
  by (simp add: written_to_def)

text \<open>Of the writes \<open>ws\<close>, the client of \<open>fd\<close> has read the pieces of \<open>inps\<close>, and the rest is in its fifo.\<close>

definition pl_view ::
  "('a client) \<Rightarrow> u8 list \<Rightarrow> int \<Rightarrow> 'a client_input list \<Rightarrow> (int \<times> u8 list) list \<Rightarrow> 'a pipeline \<Rightarrow> bool" where
  "pl_view st0 p fd inps ws s \<longleftrightarrow>
     client_inv st0 p inps (pl_client s fd) (pl_sent s fd) \<and> concat (pieces inps) @ pl_fifo s fd = written_to fd ws"

lemma pl_view_start: "client_ok (cls fd) \<Longrightarrow>
    pl_view (cls fd) p fd [] [] \<lparr>pl_gw = g, pl_fifo = \<lambda>fd. [], pl_client = cls, pl_sent = \<lambda>fd. []\<rparr>"
  by (simp add: pl_view_def client_inv_start written_to_def pieces_def)

lemma pl_view_gateway:
  assumes "pl_view st0 p fd inps ws s"
  shows "pl_view st0 p fd inps (ws @ vs) (s\<lparr>pl_gw := g', pl_fifo := feed (pl_fifo s) vs\<rparr>)"
  using assms by (simp add: pl_view_def feed_def written_to_append flip: append_assoc)

lemma pl_view_client:
  assumes "pl_view st0 p fd inps ws s" and path: "path_ok path p" and rd: "read_ok (pl_fifo s fd) bs"
  shows "\<exists>s'. client_turn path fd bs inp s = Some s' \<and> pl_view st0 p fd (inps @ [inp\<lparr>i_read := Some bs\<rparr>]) ws s' \<and>
     pl_gw s' = pl_gw s \<and>
     (\<forall>fd'. fd' \<noteq> fd \<longrightarrow> pl_client s' fd' = pl_client s fd' \<and> pl_sent s' fd' = pl_sent s fd' \<and> pl_fifo s' fd' = pl_fifo s fd')"
proof -
  obtain rest where q: "pl_fifo s fd = bs @ rest" using rd by (auto simp: read_ok_def elim: prefixE)
  from assms client_turn_inv [OF path rd, of st0 inps s fd inp] q show ?thesis by (auto simp: pl_view_def pieces_snoc)
qed

text \<open>What a view says of the requests sent.\<close>

lemma pl_view_sent:
  assumes "pl_view st0 p fd inps ws s" and "path_ok path p"
  shows "(\<forall>inp \<in> set inps. message_ok inp) \<and>
     pl_sent s fd = zip (map enc_msg (client_requests st0 p inps)) (destinations (c_remote st0) inps) \<and>
     map m_pay (client_requests st0 p inps) = map (\<lambda>c. if fits p c then c else []) (pieces inps) \<and>
     concat (pieces inps) @ pl_fifo s fd = written_to fd ws"
  using assms client_payloads by (auto simp: pl_view_def client_inv_def client_log_def path_ok_def)

definition pl_reach where
  "pl_reach f xs es path cap cls s \<longleftrightarrow>
     (\<exists>t. tab_ready xs es t \<and> inj f \<and> (pl_step f path cap)\<^sup>*\<^sup>* (pl_init t cls) s)"

lemma pl_step_gateway:
  assumes "pl_step f path cap s s'"
  shows "gw_step f (pl_gw s) (pl_gw s') \<or> pl_gw s' = pl_gw s"
    "g_writes (pl_gw s') = g_writes (pl_gw s) @ new_writes (pl_gw s) (pl_gw s')"
proof -
  show "gw_step f (pl_gw s) (pl_gw s') \<or> pl_gw s' = pl_gw s"
    using assms by (auto elim!: pl_stepE simp: client_turn_def split: bind_splits)
  then show "g_writes (pl_gw s') = g_writes (pl_gw s) @ new_writes (pl_gw s) (pl_gw s')"
    using gw_step_keeps(1) by (auto simp: new_writes_def)
qed

lemma pl_reach_gateway:
  assumes "pl_reach f xs es path cap cls s"
  shows "gw_reach f xs es (pl_gw s)"
proof -
  have "(gw_step f)\<^sup>*\<^sup>* (pl_gw s) (pl_gw s')" if "(pl_step f path cap)\<^sup>*\<^sup>* s s'" for s s' :: "'a pipeline"
    using that
  proof (induction rule: rtranclp_induct)
    case (step s1 s2)
    with pl_step_gateway(1) [OF step(2)] show ?case by (auto intro: rtranclp.rtrancl_into_rtrancl)
  qed simp
  with assms show ?thesis by (fastforce simp: pl_reach_def gw_reach_def pl_init_def)
qed

lemma pl_view_step:
  assumes step: "pl_step f path cap s s'" and view: "pl_view st0 p fd inps ws s" and path: "path_ok (path fd) p"
  shows "\<exists>inps'. pl_view st0 p fd inps' (ws @ new_writes (pl_gw s) (pl_gw s')) s'"
  using step
proof (cases rule: pl_step.cases)
  case (pl_gateway g')
  then show ?thesis using pl_view_gateway [OF view] by auto
next
  case (pl_read fd' bs inp)
  then have same: "pl_gw s' = pl_gw s" by (auto simp: client_turn_def split: bind_splits)
  show ?thesis
  proof (cases "fd' = fd")
    case True
    with pl_read have "read_ok (pl_fifo s fd) bs" "client_turn (path fd) fd bs inp s = Some s'" by auto
    with pl_view_client [OF view path this(1), of inp] same show ?thesis by (auto simp: new_writes_def)
  next
    case False
    with pl_read(2) have "pl_client s' fd = pl_client s fd" "pl_sent s' fd = pl_sent s fd" "pl_fifo s' fd = pl_fifo s fd"
      by (auto simp: client_turn_def split: bind_splits)
    with view same show ?thesis by (auto simp: pl_view_def new_writes_def)
  qed
qed

lemma pl_view_reach:
  assumes "pl_reach f xs es path cap cls s" and "path_ok (path fd) p" and "client_ok (cls fd)"
  shows "\<exists>inps. pl_view (cls fd) p fd inps (g_writes (pl_gw s)) s"
proof -
  from assms(1) obtain t where "(pl_step f path cap)\<^sup>*\<^sup>* (pl_init t cls) s" by (auto simp: pl_reach_def)
  then show ?thesis
  proof (induction rule: rtranclp_induct)
    case base
    show ?case using pl_view_start [of cls fd] assms(3) by (auto simp: pl_init_def gw_init_def)
  next
    case (step s s')
    then show ?case using pl_view_step [OF step(2) _ assms(2)] pl_step_gateway(2) [OF step(2)] by metis
  qed
qed

subsection \<open>Messages and fifos\<close>

text \<open>The path of the client behind a descriptor, from the device table.\<close>

definition table_path :: "coapIP list \<Rightarrow> int \<Rightarrow> u8 list" where
  "table_path es fd = (case find (\<lambda>c. ci_fifo_fd c = Some fd) es of None \<Rightarrow> [] | Some c \<Rightarrow> ci_path c)"

lemma table_path_entry:
  "distinct (map ci_fifo_fd es) \<Longrightarrow> c \<in> set es \<Longrightarrow> ci_fifo_fd c = Some fd \<Longrightarrow> table_path es fd = ci_path c"
proof (induction es)
  case (Cons e es)
  then show ?case by (force simp: table_path_def image_iff)
qed simp

definition fds_ready :: "coapIP list \<Rightarrow> bool" where
  "fds_ready es \<longleftrightarrow> distinct (map ci_fifo_fd es) \<and> (\<forall>c \<in> set es. ci_fifo_fd c \<noteq> None)"

lemma written_to_one:
  "fds_ready es \<Longrightarrow>
     written_to fd (map (\<lambda>c. (the (ci_fifo_fd c), m)) es) = (if Some fd \<in> ci_fifo_fd ` set es then m else [])"
proof (induction es)
  case (Cons e es)
  obtain k where k: "ci_fifo_fd e = Some k" using Cons.prems by (auto simp: fds_ready_def)
  have "fds_ready es" "Some k \<notin> ci_fifo_fd ` set es" using Cons.prems k by (auto simp: fds_ready_def)
  with Cons.IH k show ?case by (auto simp: written_to_def)
qed (simp add: written_to_def)

lemma written_to_deliver:
  assumes "fds_ready es"
  shows "written_to fd (deliver es fs) = (if Some fd \<in> ci_fifo_fd ` set es then concat (map msg_text fs) else [])"
  by (induction fs) (simp_all add: deliver_def written_to_append written_to_one [OF assms], simp_all add: written_to_def)

lemma written_to_prefix: "prefix ws vs \<Longrightarrow> prefix (written_to fd ws) (written_to fd vs)"
  by (auto simp: written_to_append elim!: prefixE)

abbreviation messages :: "gateway \<Rightarrow> u8 list" where
  "messages g \<equiv> concat (map msg_text (frames (g_in g)))"

lemma gw_reach_fds: "gw_reach f xs es g \<Longrightarrow> distinct (map ci_fifo_fd es) \<Longrightarrow> fds_ready es"
  by (auto simp: gw_reach_def tab_ready_def fds_ready_def)

text \<open>The gateway alone, while no client reads.\<close>

lemma pl_gateway_run:
  assumes "(gw_step f)\<^sup>*\<^sup>* (gw_init t) g" and "\<forall>fd. length (written_to fd (g_writes g)) \<le> cap"
  shows "(pl_step f path cap)\<^sup>*\<^sup>* (pl_init t cls)
     ((pl_init t cls)\<lparr>pl_gw := g, pl_fifo := \<lambda>fd. written_to fd (g_writes g)\<rparr>)"
  using assms
proof (induction rule: rtranclp_induct)
  case base
  show ?case by (simp add: pl_init_def gw_init_def written_to_def)
next
  case (step g g')
  let ?s = "\<lambda>g. (pl_init t cls)\<lparr>pl_gw := g, pl_fifo := \<lambda>fd. written_to fd (g_writes g)\<rparr>"
  note new = gw_step_keeps(1) [OF step(2)]
  then have pre: "prefix (g_writes g) (g_writes g')" by simp
  have le: "length (written_to fd (g_writes g)) \<le> length (written_to fd (g_writes g'))" for fd
    by (rule prefix_length_le) (rule written_to_prefix [OF pre])
  have feed: "feed (\<lambda>fd. written_to fd (g_writes g)) (new_writes g g') = (\<lambda>fd. written_to fd (g_writes g'))"
    by (auto simp: feed_def new written_to_append)
  have "pl_step f path cap (?s g) (?s g')"
    using pl_gateway [of f "?s g" g' "\<lambda>fd. written_to fd (g_writes g')" cap path] step(2,4) feed by auto
  moreover have "(pl_step f path cap)\<^sup>*\<^sup>* (pl_init t cls) (?s g)"
    using step.IH step.prems le le_trans by blast
  ultimately show ?case by (rule rtranclp.rtrancl_into_rtrancl [rotated])
qed

text \<open>The table of one client, path \<open>a\<close>, behind descriptor 5, and a client that has sent 0xFFFF requests.\<close>

lemma ex_entry:
  "ci_fifo_fd ex_client_ip = Some 5" "path_ok (ci_path ex_client_ip) [0x61]" "distinct (map ci_fifo_fd [ex_client_ip])"
proof -
  have "ci_path ex_client_ip = [0x61] @ 0 # replicate 126 0"
    by (simp add: ex_client_ip_def client_entry_def ip_entry_def flip: replicate_Suc)
  then show "path_ok (ci_path ex_client_ip) [0x61]"
    using cstr_prefix [of "[0x61]" "[]"] by (simp add: path_ok_def)
qed (simp_all add: ex_client_ip_def client_entry_def ex_env_def)

definition two_messages :: "u8 list" where
  "two_messages = bytes ''$a&$b&''"

lemma two_messages_cut: "cut two_messages = ([bytes ''$a&'', bytes ''$b&''], [])"
  by (simp add: two_messages_def bytes_def cut_def cut1_def UART_END_FLAG_def)

lemma two_messages_ok:
  "ok_input two_messages" "concat (map msg_text (frames two_messages)) = two_messages" "length two_messages = 6"
proof -
  have t: "msg_text (bytes ''$a&'') = bytes ''$a&''" "msg_text (bytes ''$b&'') = bytes ''$b&''"
    by (simp_all add: msg_text_def bytes_def)
  then show "ok_input two_messages" by (simp add: ok_input_def two_messages_cut ok_piece_def MSG_LIMIT_def)
  have "hd (bytes ''$a&'') = UART_START_FLAG" "hd (bytes ''$b&'') = UART_START_FLAG"
    by (simp_all add: bytes_def UART_START_FLAG_def)
  then show "concat (map msg_text (frames two_messages)) = two_messages"
    by (simp add: frames_def two_messages_cut t) (simp add: two_messages_def bytes_def)
qed (simp add: two_messages_def)

lemma two_messages_request:
  "enc_msg (client_req 0xFFFF 0x0102 [0x61] two_messages) = [0x42, 1, 0xFF, 0xFF, 2, 1, 0xB1, 0x61, 0xFF] @ two_messages"
proof -
  have "two_messages \<noteq> []" by (simp add: two_messages_def bytes_def)
  moreover have "mid_hi 0xFFFF = 0xFF" "mid_lo 0xFFFF = 0xFF" by (simp_all add: mid_hi_def mid_lo_def)
  ultimately show ?thesis
    by (simp add: client_req_def enc_msg_def msg_first_def enc_opt_hdr_def opt_first_def opt_nib_def
        opt_ext_def enc_pay_def le_bytes_2)
qed

text \<open>The gateway has written both messages, and the client has not read yet.\<close>

lemma ex_written:
  "\<exists>g. pl_reach id [(1, 2)] [ex_client_ip] (table_path [ex_client_ip]) 65536 (\<lambda>fd. ex_client)
       ((pl_init ex_tab (\<lambda>fd. ex_client))\<lparr>pl_gw := g, pl_fifo := \<lambda>fd. written_to fd (g_writes g)\<rparr>) \<and>
     quiet id g \<and> gw_guard g \<and> g_in g = two_messages"
proof -
  obtain g where g: "(gw_step id)\<^sup>*\<^sup>* (gw_init ex_tab) g" "quiet id g" "ginv id [(1, 2)] [ex_client_ip] g"
    "g_in g = two_messages"
    using quiet_after [OF ex_tab_ready inj_on_id two_messages_ok(1)] two_messages_ok(3) by auto
  have guard: "gw_guard g" using g(4) two_messages_ok by (simp add: gw_guard_def)
  have "fds_ready [ex_client_ip]" using ex_entry(1) by (simp add: fds_ready_def)
  then have w: "written_to k (g_writes g) = (if k = 5 then two_messages else [])" for k
    using written_to_deliver [of "[ex_client_ip]" k] quiet_view [OF g(3) guard g(2)] g(4) two_messages_ok(2) ex_entry(1)
    by auto
  then show ?thesis
    using pl_gateway_run [OF g(1), of 65536 "table_path [ex_client_ip]" "\<lambda>fd. ex_client"] ex_tab_ready
      two_messages_ok(3) g(2,4) guard by (intro exI [of _ g]) (auto simp: pl_reach_def)
qed

text \<open>
  For every input that fits there is a run in which the client of an entry takes all messages in a
  single \<open>read\<close>.
\<close>

lemma one_read:
  assumes "tab_ready xs es t" and "inj f" and "ok_input bs" and "length bs < 2147483647"
    and "distinct (map ci_fifo_fd es)" and "c \<in> set es" and "ci_fifo_fd c = Some fd"
    and "path_ok (ci_path c) p" and "client_ok (cls fd)"
    and m: "m = concat (map msg_text (frames bs))" "m \<noteq> []" "length m \<le> cap" "length m \<le> 512"
  shows "\<exists>s. pl_reach f xs es (table_path es) cap cls s \<and> g_in (pl_gw s) = bs \<and> quiet f (pl_gw s) \<and>
     pl_fifo s fd = [] \<and>
     pl_sent s fd = [(enc_msg (request_for (c_mid (cls fd)) token p m), c_remote (cls fd))]"
proof -
  obtain g where g: "(gw_step f)\<^sup>*\<^sup>* (gw_init t) g" "quiet f g" "ginv f xs es g" "g_in g = bs"
    using quiet_after [OF assms(1-4)] by blast
  have guard: "gw_guard g" using assms(3,4) g(4) by (simp add: gw_guard_def)
  have ready: "fds_ready es" using assms(1,5) by (auto simp: tab_ready_def fds_ready_def)
  have w: "written_to k (g_writes g) = (if Some k \<in> ci_fifo_fd ` set es then m else [])" for k
    using written_to_deliver [OF ready] quiet_view [OF g(3) guard g(2)] g(4) m(1) by simp
  have fd: "written_to fd (g_writes g) = m" using w assms(6,7) by force
  let ?s = "(pl_init t cls)\<lparr>pl_gw := g, pl_fifo := \<lambda>fd. written_to fd (g_writes g)\<rparr>"
  have run: "(pl_step f (table_path es) cap)\<^sup>*\<^sup>* (pl_init t cls) ?s"
    by (rule pl_gateway_run [OF g(1)]) (simp add: w m(3))
  have path: "path_ok (table_path es fd) p" using table_path_entry [OF assms(5-7)] assms(8) by simp
  have rd: "read_ok (pl_fifo ?s fd) m" using m fd by (simp add: read_ok_def MSG_BUF_LEN_def)
  let ?inp = "\<lparr>i_read = None, i_rand = token, i_sent = False, i_from = None\<rparr>"
  have "client_inv (cls fd) p [] (pl_client ?s fd) (pl_sent ?s fd)"
    using client_inv_start [OF assms(9)] by (simp add: pl_init_def)
  from client_turn_inv [OF path rd this, of ?inp] fd obtain s' where
    s': "client_turn (table_path es fd) fd m ?inp ?s = Some s'" "pl_gw s' = g" "pl_fifo s' fd = []"
    "pl_sent s' fd = [(enc_msg (request_for (c_mid (cls fd)) token p m), c_remote (cls fd))]"
    by (auto simp: client_inv_def client_log_def client_requests_def)
  have "(pl_step f (table_path es) cap)\<^sup>*\<^sup>* (pl_init t cls) s'"
    using run pl_read [where path = "table_path es" and s = ?s, OF rd s'(1)] by (rule rtranclp.rtrancl_into_rtrancl)
  with s' g(2,4) assms(1,2) show ?thesis by (auto simp: pl_reach_def)
qed

lemma ex_merged:
  "\<exists>s. pl_reach id [(1, 2)] [ex_client_ip] (table_path [ex_client_ip]) 65536 (\<lambda>fd. ex_client) s \<and>
     gw_guard (pl_gw s) \<and> quiet id (pl_gw s) \<and> g_in (pl_gw s) = two_messages \<and> pl_fifo s 5 = [] \<and> pl_sent s 5 \<noteq> []"
proof -
  have "two_messages \<noteq> []" using two_messages_ok(3) by auto
  then obtain s where s: "pl_reach id [(1, 2)] [ex_client_ip] (table_path [ex_client_ip]) 65536 (\<lambda>fd. ex_client) s"
    "quiet id (pl_gw s)" "g_in (pl_gw s) = two_messages" "pl_fifo s 5 = []" "pl_sent s 5 \<noteq> []"
    using one_read [where cap = 65536 and cls = "\<lambda>fd. ex_client" and token = 0,
        OF ex_tab_ready inj_on_id two_messages_ok(1) _ ex_entry(3) _ ex_entry(1,2) ex_client_ok
        two_messages_ok(2) [symmetric]] two_messages_ok(3)
    by auto
  moreover have "gw_guard (pl_gw s)" using s(3) two_messages_ok by (simp add: gw_guard_def)
  ultimately show ?thesis by blast
qed

subsection \<open>Properties\<close>

text \<open>
  C2. From the serial port to the socket of a device, at every moment of every interleaving of the two
  threads and all clients.  A client has read successive pieces, of 1 to 512 bytes each, of what was
  written to its fifo; these pieces, followed by the bytes still in the fifo, are an initial part of the
  texts of the messages received on the serial port, in order, and all of them when the gateway is at
  rest.  For each piece the client has handed one request to its socket, with message ids counting up,
  to the device or, after a reply, to whoever sent the last reply.  The payload of the request is the
  piece if the piece fits, and empty otherwise: then the bytes of the piece are lost (pieces of up to 376
  bytes always fit).  No turn of the client is undefined.
\<close>

theorem serial_to_device:
  assumes "pl_reach f xs es (table_path es) cap cls s" and "gw_guard (pl_gw s)"
    and "distinct (map ci_fifo_fd es)" and "c \<in> set es" and "ci_fifo_fd c = Some fd"
    and "path_ok (ci_path c) p" and "client_ok (cls fd)"
  shows "\<exists>inps. (\<forall>inp \<in> set inps. message_ok inp) \<and>
     prefix (concat (pieces inps) @ pl_fifo s fd) (messages (pl_gw s)) \<and>
     (quiet f (pl_gw s) \<longrightarrow> concat (pieces inps) @ pl_fifo s fd = messages (pl_gw s)) \<and>
     pl_sent s fd =
       zip (map enc_msg (client_requests (cls fd) p inps)) (destinations (c_remote (cls fd)) inps) \<and>
     map m_pay (client_requests (cls fd) p inps) = map (\<lambda>c. if fits p c then c else []) (pieces inps) \<and>
     (\<forall>bs inp. read_ok (pl_fifo s fd) bs \<longrightarrow> client_turn (ci_path c) fd bs inp s \<noteq> None)"
proof -
  have path: "table_path es fd = ci_path c" by (rule table_path_entry [OF assms(3-5)])
  note gr = pl_reach_gateway [OF assms(1)]
  from pl_view_reach [OF assms(1), of fd p] assms(6,7) path obtain inps where
    v: "pl_view (cls fd) p fd inps (g_writes (pl_gw s)) s" by auto
  obtain D tm qs um where tab: "tab_ready xs es (g_tab (pl_gw s))" and gv: "gview f xs es (pl_gw s) D tm qs um"
    using gw_reach_inv [OF gr assms(2)] by (rule ginvE)
  note deliver = written_to_deliver [OF gw_reach_fds [OF gr assms(3)], of fd]
  have fd: "Some fd \<in> ci_fifo_fd ` set es" using assms(4,5) by force
  have "prefix (written_to fd (g_writes (pl_gw s))) (messages (pl_gw s))"
    using written_to_prefix [OF gview_writes [OF gv tab], of fd] deliver fd by simp
  moreover have "written_to fd (g_writes (pl_gw s)) = messages (pl_gw s)" if "quiet f (pl_gw s)"
    using quiet_view [OF gw_reach_inv [OF gr assms(2)] assms(2) that] deliver fd by simp
  moreover have "client_turn (ci_path c) fd bs inp s \<noteq> None" if "read_ok (pl_fifo s fd) bs" for bs inp
    using pl_view_client [OF v assms(6) that, of inp] by auto
  ultimately show ?thesis using pl_view_sent [OF v assms(6)] by (intro exI [of _ inps]) simp
qed

theorem serial_to_device_witness:
  "\<exists>s inps. pl_reach id [(1, 2)] [ex_client_ip] (table_path [ex_client_ip]) 65536 (\<lambda>fd. ex_client) s \<and>
     g_in (pl_gw s) = bytes ''$a&$b&'' \<and> pl_sent s 5 \<noteq> [] \<and> concat (pieces inps) = bytes ''$a&$b&'' \<and>
     pl_sent s 5 = zip (map enc_msg (client_requests ex_client [0x61] inps)) (destinations 1 inps) \<and>
     map m_pay (client_requests ex_client [0x61] inps) = map (\<lambda>c. if fits [0x61] c then c else []) (pieces inps)"
proof -
  obtain s where s: "pl_reach id [(1, 2)] [ex_client_ip] (table_path [ex_client_ip]) 65536 (\<lambda>fd. ex_client) s"
    "gw_guard (pl_gw s)" "quiet id (pl_gw s)" "g_in (pl_gw s) = two_messages" "pl_fifo s 5 = []" "pl_sent s 5 \<noteq> []"
    using ex_merged by blast
  from serial_to_device [OF s(1,2) ex_entry(3) _ ex_entry(1,2) ex_client_ok] s(3-5) obtain inps where
    "concat (pieces inps) = two_messages"
    "pl_sent s 5 = zip (map enc_msg (client_requests ex_client [0x61] inps)) (destinations (c_remote ex_client) inps)"
    "map m_pay (client_requests ex_client [0x61] inps) = map (\<lambda>c. if fits [0x61] c then c else []) (pieces inps)"
    using two_messages_ok(2) by auto
  with s show ?thesis
    by (intro exI [of _ s] exI [of _ inps]) (simp add: two_messages_def ex_client_sel)
qed

text \<open>
  C33. A fifo keeps no boundaries between messages.  For every input that fits there is a run in
  which all messages of the input arrive at the device as the payload of a single request (when they
  fit into its buffer together), because the client takes whatever is in the fifo for one message.
\<close>

theorem fifo_merges_messages:
  assumes "tab_ready xs es t" and "inj f" and "ok_input bs" and "length bs < 2147483647"
    and "distinct (map ci_fifo_fd es)" and "c \<in> set es" and "ci_fifo_fd c = Some fd"
    and "path_ok (ci_path c) p" and "client_ok (cls fd)"
    and m: "m = concat (map msg_text (frames bs))" "m \<noteq> []" "length m \<le> cap"
    and small: "length (enc_msg (client_req (c_mid (cls fd)) token p m)) \<le> 512"
  shows "\<exists>s. pl_reach f xs es (table_path es) cap cls s \<and> g_in (pl_gw s) = bs \<and>
     map fst (pl_sent s fd) = [enc_msg (client_req (c_mid (cls fd)) token p m)]"
proof -
  have "length p \<le> 127" using assms(8) by (simp add: path_ok_def)
  with small m(2) have "length m \<le> 512" using length_client_req by simp
  from one_read [where cls = cls and token = token, OF assms(1-9) m this] small show ?thesis by (auto simp: request_for_def)
qed

theorem fifo_merges_messages_witness:
  "\<exists>s. pl_reach id [(1, 2)] [ex_client_ip] (table_path [ex_client_ip]) 65536 (\<lambda>fd. ex_client) s \<and>
     g_in (pl_gw s) = bytes ''$a&$b&'' \<and>
     map fst (pl_sent s 5) = [[0x42, 1, 0xFF, 0xFF, 2, 1, 0xB1, 0x61, 0xFF] @ bytes ''$a&$b&'']"
proof -
  have "length two_messages < 2147483647" "two_messages \<noteq> []" "length two_messages \<le> 65536"
    using two_messages_ok(3) by auto
  moreover have "length (enc_msg (client_req 0xFFFF 0x0102 [0x61] two_messages)) \<le> 512"
    by (simp add: two_messages_request two_messages_ok(3))
  ultimately show ?thesis
    using fifo_merges_messages [where cap = 65536 and cls = "\<lambda>fd. ex_client" and token = "0x0102",
        OF ex_tab_ready inj_on_id two_messages_ok(1) _ ex_entry(3) _ ex_entry(1,2) ex_client_ok
        two_messages_ok(2) [symmetric]]
    by (simp add: ex_client_sel two_messages_request) (simp add: two_messages_def)
qed

text \<open>
  C40. Merged messages may be lost.  For every input that fits whose messages together make up at most
  the 512 bytes of one read, but with the header and the path more than the 512 bytes of a request,
  there is a run that comes to rest with an empty fifo and in which the device has got a single request
  with an empty payload: all bytes of all messages have been read, none has been sent, and none ever
  will be.
\<close>

theorem merged_messages_lost:
  assumes "tab_ready xs es t" and "inj f" and "ok_input bs" and "length bs < 2147483647"
    and "distinct (map ci_fifo_fd es)" and "c \<in> set es" and "ci_fifo_fd c = Some fd"
    and "path_ok (ci_path c) p" and "client_ok (cls fd)"
    and m: "m = concat (map msg_text (frames bs))" "m \<noteq> []" "length m \<le> cap" "length m \<le> 512"
    and long: "512 < length (enc_msg (client_req (c_mid (cls fd)) token p m))"
  shows "\<exists>s. pl_reach f xs es (table_path es) cap cls s \<and> g_in (pl_gw s) = bs \<and> quiet f (pl_gw s) \<and>
     pl_fifo s fd = [] \<and>
     pl_sent s fd = [(enc_msg (client_req (c_mid (cls fd)) token p []), c_remote (cls fd))]"
  using one_read [where cls = cls and token = token, OF assms(1-9) m] long by (auto simp: request_for_def)

text \<open>Two messages of 252 bytes each.\<close>

definition long_message :: "u8 list" where
  "long_message = [0x24] @ replicate 250 1 @ [0x26]"

lemma cut1_body: "UART_END_FLAG \<notin> set xs \<Longrightarrow> foldl cut1 (ps, q) xs = (ps, q @ xs)"
  by (induction xs arbitrary: q) (auto simp: cut1_def)

lemma long_message_cut: "foldl cut1 (ps, []) long_message = (ps @ [long_message], [])"
  by (simp add: long_message_def cut1_body UART_END_FLAG_def cut1_def)

lemma long_messages:
  "ok_input (long_message @ long_message)" "concat (map msg_text (frames (long_message @ long_message))) = long_message @ long_message"
  "length long_message = 252"
proof -
  have c: "cut (long_message @ long_message) = ([long_message, long_message], [])"
    by (simp add: cut_def long_message_cut)
  have t: "msg_text long_message = long_message" by (simp add: msg_text_def long_message_def takeWhile_eq_all_conv)
  show l: "length long_message = 252" by (simp add: long_message_def)
  show "ok_input (long_message @ long_message)" by (simp add: ok_input_def c ok_piece_def t l MSG_LIMIT_def)
  have "hd long_message = UART_START_FLAG" by (simp add: long_message_def UART_START_FLAG_def)
  then show "concat (map msg_text (frames (long_message @ long_message))) = long_message @ long_message"
    by (simp add: frames_def c t)
qed

theorem merged_messages_lost_witness:
  "\<exists>s. pl_reach id [(1, 2)] [ex_client_ip] (table_path [ex_client_ip]) 65536 (\<lambda>fd. ex_client) s \<and>
     g_in (pl_gw s) = long_message @ long_message \<and> pl_fifo s 5 = [] \<and>
     pl_sent s 5 = [([0x42, 1, 0xFF, 0xFF, 2, 1, 0xB1, 0x61], 1)]"
proof -
  let ?m = "long_message @ long_message"
  have l: "length ?m = 504" "?m \<noteq> []" using long_messages(3) by auto
  have "512 < length (enc_msg (client_req 0xFFFF 0x0102 [0x61] ?m))"
    by (subst length_client_req) (use l in simp_all)
  moreover have "enc_msg (client_req 0xFFFF 0x0102 [0x61] []) = [0x42, 1, 0xFF, 0xFF, 2, 1, 0xB1, 0x61]"
    by (simp add: client_req_def enc_msg_def msg_first_def enc_opt_hdr_def opt_first_def opt_nib_def
        opt_ext_def enc_pay_def le_bytes_2 mid_hi_def mid_lo_def)
  ultimately show ?thesis
    using merged_messages_lost [where cap = 65536 and cls = "\<lambda>fd. ex_client" and token = "0x0102" and m = ?m,
        OF ex_tab_ready inj_on_id long_messages(1) _ ex_entry(3) _ ex_entry(1,2) ex_client_ok
        long_messages(2) [symmetric]] l
    by (auto simp add: ex_client_sel simp del: length_append)
qed

end
