(* ===== verification/Epochs.thy ===== *)
theory Epochs
  imports Reload Pipeline
begin

section \<open>From the serial port to the devices, with device tables that change\<close>

text \<open>
  The whole gateway over its life: the two threads, the fifos, the clients, and any number of uploads
  of a new device table, whose handlers run beside threads and clients as in the life of the gateway
  process, and under the same assumption.  An upload ends the clients of the old table and starts those
  of the new one, which read from fifos of their own; what the old clients have not read is gone.
\<close>

subsection \<open>Runs\<close>

text \<open>The clients of a table have started, and its fifos are empty.\<close>

definition started :: "gateway \<Rightarrow> (int \<Rightarrow> 'a client) \<Rightarrow> 'a pipeline" where
  "started g cls = \<lparr>pl_gw = g, pl_fifo = \<lambda>fd. [], pl_client = cls, pl_sent = \<lambda>fd. []\<rparr>"

text \<open>
  \<open>site_reach f ft cap ess clss past s up\<close>: the state \<open>s\<close>, with the handler at work as \<open>up\<close> says, can be
  reached with the tables \<open>ess\<close>, one after the other, whose clients start as \<open>clss\<close>.  \<open>past\<close> are the
  clients and fifos of the earlier tables, as they were when their handler returned or later: a signal
  ends a client at some moment, and until then it may take further turns.  The new clients have nothing
  to read before the handler returns, as nothing is written while it works.
\<close>

inductive site_reach ::
  "(nat \<Rightarrow> addr) \<Rightarrow> (nat \<Rightarrow> addr) \<Rightarrow> nat \<Rightarrow> coapIP list list \<Rightarrow> (int \<Rightarrow> 'a client) list \<Rightarrow>
     'a pipeline list \<Rightarrow> 'a pipeline \<Rightarrow> upload option \<Rightarrow> bool" for f ft cap where
  site_start: "table_ok ft xs es t \<Longrightarrow> inj f \<Longrightarrow> fds_ready es \<Longrightarrow>
     site_reach f ft cap [es] [cls] [] (started (gw_init t) cls) None"
| site_step: "site_reach f ft cap ess clss past s None \<Longrightarrow> pl_step f (table_path (last ess)) cap s s' \<Longrightarrow>
     site_reach f ft cap ess clss past s' None"
| site_arrives: "site_reach f ft cap ess clss past s None \<Longrightarrow> between_messages (pl_gw s) \<Longrightarrow> length buff = 128 \<Longrightarrow>
     file_ok cont env \<Longrightarrow> site_reach f ft cap ess clss past s (Some (arrived buff cont env))"
| site_beside: "site_reach f ft cap ess clss past s (Some u) \<Longrightarrow> beside_step f (pl_gw s) g' \<Longrightarrow>
     site_reach f ft cap ess clss past (s\<lparr>pl_gw := g'\<rparr>) (Some u)"
| site_client: "site_reach f ft cap ess clss past s (Some u) \<Longrightarrow> read_ok (pl_fifo s fd) bs \<Longrightarrow>
     client_turn (table_path (last ess) fd) fd bs inp s = Some s' \<Longrightarrow> site_reach f ft cap ess clss past s' (Some u)"
| site_handler: "site_reach f ft cap ess clss past s (Some u) \<Longrightarrow> upload_step ft (pl_gw s) u g' u' \<Longrightarrow>
     site_reach f ft cap ess clss past (s\<lparr>pl_gw := g'\<rparr>) (Some u')"
| site_returns: "site_reach f ft cap ess clss past s (Some u) \<Longrightarrow> up_pc u = H_done \<Longrightarrow>
     fds_ready (loaded (up_file u) (up_env u)) \<Longrightarrow>
     site_reach f ft cap (ess @ [loaded (up_file u) (up_env u)]) (clss @ [cls]) (past @ [s]) (started (pl_gw s) cls) None"
| site_late: "site_reach f ft cap ess clss past s up \<Longrightarrow> i < length past \<Longrightarrow> read_ok (pl_fifo (past ! i) fd) bs \<Longrightarrow>
     client_turn (table_path (ess ! i) fd) fd bs inp (past ! i) = Some s' \<Longrightarrow>
     site_reach f ft cap ess clss (past[i := s']) s up"

subsection \<open>The invariant\<close>

text \<open>What a client has read and sent of the messages \<open>fs\<close> dispatched to its table.\<close>

definition share ::
  "coapIP list \<Rightarrow> (int \<Rightarrow> 'a client) \<Rightarrow> u8 list list \<Rightarrow> (int \<Rightarrow> (u8 list \<times> 'a) list) \<Rightarrow> bool" where
  "share es cls fs sent \<longleftrightarrow>
     (\<forall>c \<in> set es. \<forall>fd p. ci_fifo_fd c = Some fd \<and> path_ok (ci_path c) p \<and> client_ok (cls fd) \<longrightarrow>
        (\<exists>inps. (\<forall>inp \<in> set inps. message_ok inp) \<and>
           prefix (concat (pieces inps)) (concat (map msg_text fs)) \<and>
           sent fd = zip (map enc_msg (client_requests (cls fd) p inps)) (destinations (c_remote (cls fd)) inps) \<and>
           map m_pay (client_requests (cls fd) p inps) = map (\<lambda>c. if fits p c then c else []) (pieces inps)))"

definition site_view :: "coapIP list \<Rightarrow> (int \<Rightarrow> 'a client) \<Rightarrow> (int \<times> u8 list) list \<Rightarrow> 'a pipeline \<Rightarrow> bool" where
  "site_view es cls V s \<longleftrightarrow>
     (\<forall>fd p. path_ok (table_path es fd) p \<and> client_ok (cls fd) \<longrightarrow> (\<exists>inps. pl_view (cls fd) p fd inps V s))"

definition site_inv ::
  "(nat \<Rightarrow> addr) \<Rightarrow> (nat \<Rightarrow> addr) \<Rightarrow> coapIP list list \<Rightarrow> (int \<Rightarrow> 'a client) list \<Rightarrow> 'a pipeline list \<Rightarrow>
     'a pipeline \<Rightarrow> upload option \<Rightarrow> u8 list list list \<Rightarrow> (int \<times> u8 list) list \<Rightarrow> (addr \<times> addr) list \<Rightarrow> bool" where
  "site_inv f ft ess clss past s up fss V xs \<longleftrightarrow>
     life_inv f ft ess fss V xs (pl_gw s) up \<and> length ess = Suc (length fss) \<and> length clss = length ess \<and>
     length past = length fss \<and> (\<forall>es \<in> set ess. fds_ready es) \<and> site_view (last ess) (last clss) V s \<and>
     (\<forall>i < length past. site_view (ess ! i) (clss ! i) (deliver (ess ! i) (fss ! i)) (past ! i))"

lemma site_view_start: "site_view es cls [] (started g cls)"
  by (auto simp: site_view_def started_def intro: pl_view_start)

lemma site_view_step:
  "site_view es cls V s \<Longrightarrow> pl_step f (table_path es) cap s s' \<Longrightarrow>
     site_view es cls (V @ new_writes (pl_gw s) (pl_gw s')) s'"
  unfolding site_view_def using pl_view_step by blast

lemma site_view_turn:
  assumes "site_view es cls V s" and "read_ok (pl_fifo s fd) bs" and "client_turn (table_path es fd) fd bs inp s = Some s'"
  shows "site_view es cls V s'" "pl_gw s' = pl_gw s"
proof -
  have step: "pl_step f (table_path es) cap s s'" for f cap
    by (rule pl_read [where path = "table_path es", OF assms(2,3)])
  show gw: "pl_gw s' = pl_gw s" using assms(3) by (auto simp: client_turn_def split: bind_splits)
  from site_view_step [OF assms(1) step] show "site_view es cls V s'" by (simp add: gw new_writes_def)
qed

lemma site_view_gateway: "site_view es cls V (s\<lparr>pl_gw := g\<rparr>) \<longleftrightarrow> site_view es cls V s"
  by (simp add: site_view_def pl_view_def)

text \<open>What has been sent is a share of what has been written.\<close>

lemma site_view_client:
  assumes "site_view es cls V s" and "fds_ready es" and "c \<in> set es" and "ci_fifo_fd c = Some fd"
    and "path_ok (ci_path c) p" and "client_ok (cls fd)"
  shows "\<exists>inps. pl_view (cls fd) p fd inps V s"
  using assms table_path_entry [of es c fd] by (auto simp: site_view_def fds_ready_def)

lemma written_to_entry:
  "fds_ready es \<Longrightarrow> c \<in> set es \<Longrightarrow> ci_fifo_fd c = Some fd \<Longrightarrow>
     written_to fd (deliver es fs) = concat (map msg_text fs)"
  by (force simp: written_to_deliver)

lemma site_view_share:
  assumes view: "site_view es cls V s" and fds: "fds_ready es" and V: "prefix V (deliver es fs)"
  shows "share es cls fs (pl_sent s)"
  unfolding share_def
proof (intro ballI allI impI)
  fix c fd p
  assume c: "c \<in> set es" and a: "ci_fifo_fd c = Some fd \<and> path_ok (ci_path c) p \<and> client_ok (cls fd)"
  then obtain inps where v: "pl_view (cls fd) p fd inps V s" using site_view_client [OF view fds c] by blast
  then have "prefix (concat (pieces inps)) (written_to fd V)" unfolding pl_view_def by (metis prefixI)
  also have "prefix (written_to fd V) (concat (map msg_text fs))"
    using written_to_prefix [OF V, of fd] written_to_entry [OF fds c] a by simp
  finally show "\<exists>inps. (\<forall>inp \<in> set inps. message_ok inp) \<and>
      prefix (concat (pieces inps)) (concat (map msg_text fs)) \<and>
      pl_sent s fd = zip (map enc_msg (client_requests (cls fd) p inps)) (destinations (c_remote (cls fd)) inps) \<and>
      map m_pay (client_requests (cls fd) p inps) = map (\<lambda>c. if fits p c then c else []) (pieces inps)"
    using pl_view_sent [OF v, of "ci_path c"] a by (intro exI [of _ inps]) simp
qed

lemma site_inv_step:
  assumes inv: "site_inv f ft ess clss past s None fss V xs" and step: "pl_step f (table_path (last ess)) cap s s'"
    and guard: "gw_guard (pl_gw s')"
  shows "site_inv f ft ess clss past s' None fss (V @ new_writes (pl_gw s) (pl_gw s')) xs"
proof -
  have "life_at f ft ess fss V xs (pl_gw s)" using inv by (simp add: site_inv_def life_inv_def)
  then have "life_at f ft ess fss (V @ new_writes (pl_gw s) (pl_gw s')) xs (pl_gw s')"
    using pl_step_gateway(1) [OF step] life_at_threads [OF _ _ guard] by (auto simp: new_writes_def)
  with inv site_view_step [OF _ step] show ?thesis by (simp add: site_inv_def life_inv_def)
qed

lemma site_inv_returns:
  assumes inv: "site_inv f ft ess clss past s (Some u) fss V xs" and ret: "up_pc u = H_done"
    and fds: "fds_ready (loaded (up_file u) (up_env u))"
  shows "\<exists>G xs'. site_inv f ft (ess @ [loaded (up_file u) (up_env u)]) (clss @ [cls]) (past @ [s])
     (started (pl_gw s) cls) None (fss @ [G]) [] xs'"
proof -
  let ?es' = "loaded (up_file u) (up_env u)"
  have at: "upload_at f ft ess fss V xs (pl_gw s) u" and n: "length ess = Suc (length fss)"
    and len: "length clss = length ess" "length past = length fss"
    and all: "\<forall>es \<in> set ess. fds_ready es" and view: "site_view (last ess) (last clss) V s"
    and old: "\<forall>i < length past. site_view (ess ! i) (clss ! i) (deliver (ess ! i) (fss ! i)) (past ! i)"
    using inv by (simp_all add: site_inv_def life_inv_def)
  obtain G xs' where G: "V = deliver (last ess) G" "life_at f ft (ess @ [?es']) (fss @ [G]) [] xs' (pl_gw s)"
    using upload_at_returns [OF at ret] by blast
  have "ess \<noteq> []" "clss \<noteq> []" using n len by auto
  then have "last ess = ess ! length fss" "last clss = clss ! length fss"
    using n len by (simp_all add: last_conv_nth)
  with old view G(1) have "\<forall>i < length (past @ [s]). site_view ((ess @ [?es']) ! i) ((clss @ [cls]) ! i)
      (deliver ((ess @ [?es']) ! i) ((fss @ [G]) ! i)) ((past @ [s]) ! i)"
    using n len by (auto simp: nth_append less_Suc_eq)
  with G(2) all fds len n show ?thesis
    by (auto simp: site_inv_def life_inv_def started_def [of "pl_gw s" cls] site_view_start [unfolded started_def])
qed

lemma site_inv_late:
  assumes inv: "site_inv f ft ess clss past s up fss V xs" and i: "i < length past" and rd: "read_ok (pl_fifo (past ! i) fd) bs"
    and turn: "client_turn (table_path (ess ! i) fd) fd bs inp (past ! i) = Some s'"
  shows "site_inv f ft ess clss (past[i := s']) s up fss V xs"
proof -
  have "site_view (ess ! i) (clss ! i) (deliver (ess ! i) (fss ! i)) (past ! i)" using inv i by (simp add: site_inv_def)
  from site_view_turn(1) [OF this rd turn] inv i show ?thesis by (auto simp: site_inv_def nth_list_update)
qed

lemma site_inv_reach:
  "site_reach f ft cap ess clss past s up \<Longrightarrow> gw_guard (pl_gw s) \<Longrightarrow> \<exists>fss V xs. site_inv f ft ess clss past s up fss V xs"
proof (induction rule: site_reach.induct)
  case (site_start xs es t cls)
  then have "site_inv f ft [es] [cls] [] (started (gw_init t) cls) None [] [] xs"
    using life_at_start [of ft xs es t f]
    by (simp add: site_inv_def life_inv_def site_view_start) (simp add: started_def)
  then show ?case by blast
next
  case (site_step ess clss past s s')
  have "gw_guard (pl_gw s)" using pl_step_gateway(1) [OF site_step(2)] site_step.prems gw.guard_back by metis
  with site_step show ?case using site_inv_step by blast
next
  case (site_arrives ess clss past s buff cont env)
  then obtain fss V xs where inv: "site_inv f ft ess clss past s None fss V xs" by blast
  then have "life_at f ft ess fss V xs (pl_gw s)" by (simp add: site_inv_def life_inv_def)
  from upload_at_arrives [OF this site_arrives.hyps(2-4)] inv show ?case
    unfolding site_inv_def life_inv_def by (intro exI [of _ fss] exI [of _ V] exI [of _ xs]) simp
next
  case (site_beside ess clss past s u g')
  have g': "gw_guard g'" using site_beside.prems by simp
  with site_beside beside_step_keeps(4) [OF site_beside.hyps(2)] obtain fss V xs where
    inv: "site_inv f ft ess clss past s (Some u) fss V xs" by blast
  then have "upload_at f ft ess fss V xs (pl_gw s) u" by (simp add: site_inv_def life_inv_def)
  from upload_at_beside [OF this site_beside.hyps(2) g'] inv show ?case
    unfolding site_inv_def life_inv_def site_view_gateway
    by (intro exI [of _ fss] exI [of _ V] exI [of _ xs]) simp
next
  case (site_client ess clss past s u fd bs inp s')
  have gw: "pl_gw s' = pl_gw s" using site_client.hyps(3) by (auto simp: client_turn_def split: bind_splits)
  with site_client obtain fss V xs where inv: "site_inv f ft ess clss past s (Some u) fss V xs" by auto
  then have "site_view (last ess) (last clss) V s" by (simp add: site_inv_def)
  from site_view_turn(1) [OF this site_client.hyps(2,3)] inv gw show ?case
    unfolding site_inv_def by (intro exI [of _ fss] exI [of _ V] exI [of _ xs]) simp
next
  case (site_handler ess clss past s u g' u')
  have "gw_guard (pl_gw s)" using site_handler.hyps(2) site_handler.prems by (auto elim!: upload_stepE simp: gw_guard_def)
  with site_handler obtain fss V xs where inv: "site_inv f ft ess clss past s (Some u) fss V xs" by blast
  then have "upload_at f ft ess fss V xs (pl_gw s) u" by (simp add: site_inv_def life_inv_def)
  from upload_at_handler [OF this site_handler.hyps(2)] inv show ?case
    unfolding site_inv_def life_inv_def site_view_gateway
    by (intro exI [of _ fss] exI [of _ V] exI [of _ xs]) simp
next
  case (site_returns ess clss past s u cls)
  then show ?case using site_inv_returns by (metis pipeline.select_convs(1) started_def)
next
  case (site_late ess clss past s up i fd bs inp s')
  then show ?case using site_inv_late by metis
qed

subsection \<open>Uploads at rest\<close>

lemma site_gateway_run:
  assumes "site_reach f ft cap ess clss past s None" and "(pl_step f (table_path (last ess)) cap)\<^sup>*\<^sup>* s s'"
  shows "site_reach f ft cap ess clss past s' None"
  using assms(2,1) by (induction rule: rtranclp_induct) (auto intro: site_step)

text \<open>A run of the handler, while threads and clients stand still.\<close>

lemma site_handler_run:
  assumes "handler_run (mallocs ft) buff (Some cont) env h h'"
    and "site_reach f ft cap ess clss past (s\<lparr>pl_gw := (pl_gw s)\<lparr>g_tab := fst (snd h)\<rparr>\<rparr>)
       (Some \<lparr>up_buff = buff, up_file = cont, up_env = env, up_pc = fst h, up_events = snd (snd h)\<rparr>)"
  shows "site_reach f ft cap ess clss past (s\<lparr>pl_gw := (pl_gw s)\<lparr>g_tab := fst (snd h')\<rparr>\<rparr>)
     (Some \<lparr>up_buff = buff, up_file = cont, up_env = env, up_pc = fst h', up_events = snd (snd h')\<rparr>)"
  using assms
proof (induction rule: rtranclp_induct)
  case (step h1 h2)
  obtain pc t evs where h2: "h2 = (pc, t, evs)" using prod_cases3 by blast
  let ?u = "\<lparr>up_buff = buff, up_file = cont, up_env = env, up_pc = fst h1, up_events = snd (snd h1)\<rparr>"
  let ?s = "s\<lparr>pl_gw := (pl_gw s)\<lparr>g_tab := fst (snd h1)\<rparr>\<rparr>"
  have "upload_step ft (pl_gw ?s) ?u ((pl_gw ?s)\<lparr>g_tab := t\<rparr>) (?u\<lparr>up_pc := pc, up_events := evs\<rparr>)"
    using step.hyps(2) h2 by (intro upload_goes_on) simp
  from site_handler [OF step.IH [OF step.prems] this] h2 show ?case by simp
qed

text \<open>The gateway has written all messages of the input, and no client has read yet.\<close>

lemma site_written:
  assumes t: "table_ok ft xs es t" and f: "inj f" and fds: "fds_ready es"
    and bs: "ok_input bs" "length bs < 2147483647" "length (concat (map msg_text (frames bs))) \<le> cap"
  shows "\<exists>g. site_reach f ft cap [es] [cls] []
       ((pl_init t cls)\<lparr>pl_gw := g, pl_fifo := \<lambda>fd. written_to fd (deliver es (frames bs))\<rparr>) None \<and>
     quiet f g \<and> g_in g = bs \<and> g_writes g = deliver es (frames bs) \<and> g_tab g = t"
proof -
  obtain g where g: "(gw_step f)\<^sup>*\<^sup>* (gw_init t) g" "quiet f g" "ginv f xs es g" "g_in g = bs"
    using quiet_after [OF table_ok_ready [OF t] f bs(1,2)] by blast
  have guard: "gw_guard g" using bs g(4) by (simp add: gw_guard_def)
  have w: "g_writes g = deliver es (frames bs)" using quiet_view [OF g(3) guard g(2)] g(4) by simp
  have le: "\<forall>fd. length (written_to fd (g_writes g)) \<le> cap"
    using bs(3) by (simp add: w written_to_deliver [OF fds])
  have "site_reach f ft cap [es] [cls] [] (pl_init t cls) None"
    using site_start [OF t f fds] by (simp add: started_def pl_init_def)
  then have "site_reach f ft cap [es] [cls] [] ((pl_init t cls)\<lparr>pl_gw := g, pl_fifo := \<lambda>fd. written_to fd (g_writes g)\<rparr>) None"
    by (rule site_gateway_run) (simp add: pl_gateway_run [OF g(1) le])
  moreover have "g_tab g = t"
    using g(1) by (induction rule: rtranclp_induct) (auto simp: gw_step_keeps(2) gw_init_def)
  ultimately show ?thesis using g w by auto
qed

lemma site_upload:
  assumes s: "site_reach f ft cap [es] [cls] [] s None" and q: "quiet f (pl_gw s)" and t: "table_ok ft xs es (g_tab (pl_gw s))"
    and ok: "file_ok cont env" and new: "fds_ready (loaded cont env)"
  shows "\<exists>t'. site_reach f ft cap [es, loaded cont env] [cls, cls'] [s\<lparr>pl_gw := (pl_gw s)\<lparr>g_tab := t'\<rparr>\<rparr>]
     (started ((pl_gw s)\<lparr>g_tab := t'\<rparr>) cls') None"
proof -
  let ?buff = "replicate 128 0"
  have buff: "length ?buff = 128" by simp
  obtain t' xs' evs where t': "Tftp_Sig (mallocs ft) ?buff (Some cont) env (g_tab (pl_gw s)) = Some (Cont (t', evs))"
    using upload_loads [OF t buff ok] by blast
  let ?s = "s\<lparr>pl_gw := (pl_gw s)\<lparr>g_tab := t'\<rparr>\<rparr>"
  let ?u = "\<lparr>up_buff = ?buff, up_file = cont, up_env = env, up_pc = H_done, up_events = evs\<rparr>"
  from site_handler_run [OF handler_completes [OF t'], of f cap "[es]" "[cls]" "[]" s]
    site_arrives [OF s quiet_table(2) [OF q] buff ok]
  have "site_reach f ft cap [es] [cls] [] ?s (Some ?u)" by (simp add: arrived_def)
  from site_returns [OF this, of cls'] new show ?thesis by auto
qed

text \<open>
  What is in the fifos when an upload comes is lost as soon as the old clients have ended: for every
  input that fits there is a run in which the gateway writes all its messages, the table changes, no
  client has sent any of them, and the fifos of the new clients are empty.
\<close>

lemma upload_loses_messages:
  assumes t: "table_ok ft xs es t" and "inj f" and "fds_ready es"
    and "ok_input bs" "length bs < 2147483647" "length (concat (map msg_text (frames bs))) \<le> cap"
    and "file_ok cont env" and "fds_ready (loaded cont env)"
  shows "\<exists>s old. site_reach f ft cap [es, loaded cont env] [cls, cls'] [old] s None \<and> g_in (pl_gw s) = bs \<and>
     quiet f (pl_gw s) \<and> g_writes (pl_gw s) = deliver es (frames bs) \<and> pl_sent old = (\<lambda>fd. []) \<and>
     pl_fifo s = (\<lambda>fd. []) \<and> pl_sent s = (\<lambda>fd. [])"
proof -
  obtain g where "site_reach f ft cap [es] [cls] []
       ((pl_init t cls)\<lparr>pl_gw := g, pl_fifo := \<lambda>fd. written_to fd (deliver es (frames bs))\<rparr>) None" (is "site_reach _ _ _ _ _ _ ?s _")
    and g: "quiet f g" "g_in g = bs" "g_writes g = deliver es (frames bs)" "g_tab g = t"
    using site_written [OF assms(1-6)] by blast
  moreover from g t have "quiet f (pl_gw ?s)" "table_ok ft xs es (g_tab (pl_gw ?s))" by simp_all
  ultimately obtain t' where
    "site_reach f ft cap [es, loaded cont env] [cls, cls'] [?s\<lparr>pl_gw := (pl_gw ?s)\<lparr>g_tab := t'\<rparr>\<rparr>]
       (started ((pl_gw ?s)\<lparr>g_tab := t'\<rparr>) cls') None"
    using site_upload [OF _ _ _ assms(7,8)] by blast
  with g quiet_table(1) [OF g(1)] show ?thesis
    by (intro exI [of _ "started (g\<lparr>g_tab := t'\<rparr>) cls'"] exI [of _ "?s\<lparr>pl_gw := (pl_gw ?s)\<lparr>g_tab := t'\<rparr>\<rparr>"])
      (simp add: started_def pl_init_def)
qed

subsection \<open>The property\<close>

lemma all_less_two: "(\<forall>i < (2 :: nat). P i) \<longleftrightarrow> P 0 \<and> P 1"
  by (auto simp: less_2_cases_iff)

text \<open>
  C5. From the serial port to the devices, across changes of the table.  Take any moment of any
  interleaving of the threads, the clients and the steps of the handlers of any number of uploads, under
  the assumption that an upload comes between messages and the dispatch thread does not look at the table
  before the handler has returned.  The messages received split into consecutive groups, one for each
  table.  A client of a table, ended or not, has read an initial part of its group and nothing else, in
  pieces, and has sent one request for each piece, to its device or to the sender of the last reply; the
  payload of the request is the piece if it fits, and empty otherwise.  When the gateway is at rest, a
  client of the present table has read all of its group, up to what is in its fifo.
\<close>

theorem epochs_to_devices:
  assumes "site_reach f ft cap ess clss past s up" and "gw_guard (pl_gw s)"
  shows "\<exists>fss. length fss = length ess \<and> length clss = length ess \<and> Suc (length past) = length ess \<and>
     concat fss = frames (g_in (pl_gw s)) \<and>
     (\<forall>i < length ess. share (ess ! i) (clss ! i) (fss ! i) (pl_sent ((past @ [s]) ! i))) \<and>
     (quiet f (pl_gw s) \<longrightarrow>
        (\<forall>c \<in> set (last ess). \<forall>fd p.
           ci_fifo_fd c = Some fd \<and> path_ok (ci_path c) p \<and> client_ok (last clss fd) \<longrightarrow>
           (\<exists>inps. (\<forall>inp \<in> set inps. message_ok inp) \<and>
              concat (pieces inps) @ pl_fifo s fd = concat (map msg_text (last fss)) \<and>
              pl_sent s fd = zip (map enc_msg (client_requests (last clss fd) p inps))
                (destinations (c_remote (last clss fd)) inps))))"
proof -
  obtain fss V xs where inv: "site_inv f ft ess clss past s up fss V xs" using site_inv_reach [OF assms] by blast
  then have at: "life_inv f ft ess fss V xs (pl_gw s) up" and n: "length ess = Suc (length fss)"
    and len: "length clss = length ess" "length past = length fss"
    and all: "\<forall>es \<in> set ess. fds_ready es" and view: "site_view (last ess) (last clss) V s"
    and old: "\<forall>i < length past. site_view (ess ! i) (clss ! i) (deliver (ess ! i) (fss ! i)) (past ! i)"
    by (simp_all add: site_inv_def)
  obtain R where R: "frames (g_in (pl_gw s)) = concat fss @ R" "prefix V (deliver (last ess) R)"
    "quiet f (pl_gw s) \<Longrightarrow> V = deliver (last ess) R"
    using life_inv_writes [OF at assms(2)] by blast
  have ne: "ess \<noteq> []" "clss \<noteq> []" using n len by auto
  then have fds: "fds_ready (last ess)" using all by simp
  have "share (last ess) (last clss) R (pl_sent s)" by (rule site_view_share [OF view fds R(2)])
  moreover have "share (ess ! i) (clss ! i) (fss ! i) (pl_sent (past ! i))" if "i < length past" for i
    using old all that n len by (intro site_view_share) auto
  ultimately have "\<forall>i < length ess. share (ess ! i) (clss ! i) ((fss @ [R]) ! i) (pl_sent ((past @ [s]) ! i))"
    using n len ne by (auto simp: nth_append less_Suc_eq last_conv_nth)
  moreover have "\<exists>inps. (\<forall>inp \<in> set inps. message_ok inp) \<and>
      concat (pieces inps) @ pl_fifo s fd = concat (map msg_text R) \<and>
      pl_sent s fd = zip (map enc_msg (client_requests (last clss fd) p inps)) (destinations (c_remote (last clss fd)) inps)"
    if q: "quiet f (pl_gw s)" and c: "c \<in> set (last ess)" "ci_fifo_fd c = Some fd" "path_ok (ci_path c) p"
      "client_ok (last clss fd)" for c fd p
  proof -
    obtain inps where v: "pl_view (last clss fd) p fd inps V s" using site_view_client [OF view fds c] by blast
    from pl_view_sent [OF v c(3)] R(3) [OF q] written_to_entry [OF fds c(1,2)] show ?thesis
      by (intro exI [of _ inps]) simp
  qed
  ultimately show ?thesis
    using n len R(1) by (intro exI [of _ "fss @ [R]"]) auto
qed

theorem epochs_to_devices_witness:
  "\<exists>old s fss. site_reach id (\<lambda>i. i + 10) 65536 [[ex_client_ip], [ex_client_ip]]
       [\<lambda>fd. ex_client, \<lambda>fd. ex_client] [old] s None \<and>
     pl_sent old 5 = [(enc_msg (client_req 0xFFFF 0x0102 [0x61] (bytes ''$a&'')), 1)] \<and>
     length fss = 2 \<and> concat fss = frames (bytes ''$a&$b&'') \<and>
     share [ex_client_ip] (\<lambda>fd. ex_client) (fss ! 0) (pl_sent old) \<and>
     share [ex_client_ip] (\<lambda>fd. ex_client) (fss ! 1) (pl_sent s)"
proof -
  have fds: "fds_ready [ex_client_ip]" using ex_entry(1) by (simp add: fds_ready_def)
  obtain g where g: "site_reach id (\<lambda>i. i + 10) 65536 [[ex_client_ip]] [\<lambda>fd. ex_client] []
       ((pl_init ex_tab (\<lambda>fd. ex_client))\<lparr>pl_gw := g, pl_fifo := \<lambda>fd. written_to fd (deliver [ex_client_ip] (frames two_messages))\<rparr>) None"
     (is "site_reach _ _ _ _ _ _ ?s _")
    "quiet id g" "g_in g = two_messages" "g_tab g = ex_tab"
    using site_written [where cap = 65536 and cls = "\<lambda>fd. ex_client", OF ex_table_ok inj_on_id fds two_messages_ok(1)]
      two_messages_ok(2,3) by auto
  let ?bs = "bytes ''$a&''" and ?inp = "\<lparr>i_read = None, i_rand = 0x0102, i_sent = False, i_from = None\<rparr>"
  have "pl_fifo ?s 5 = two_messages"
    using written_to_entry [OF fds _ ex_entry(1)] two_messages_ok(2) by simp
  then have rd: "read_ok (pl_fifo ?s 5) ?bs"
    by (simp add: read_ok_def MSG_BUF_LEN_def two_messages_def bytes_def)
  have path: "path_ok (table_path [ex_client_ip] 5) [0x61]" using ex_entry by (simp add: table_path_def)
  have "client_inv ex_client [0x61] [] (pl_client ?s 5) (pl_sent ?s 5)"
    using client_inv_start [OF ex_client_ok] by (simp add: pl_init_def)
  from client_turn_inv [OF path rd this, of ?inp] obtain s' where
    s': "client_turn (table_path [ex_client_ip] 5) 5 ?bs ?inp ?s = Some s'" "pl_gw s' = g"
    "pl_sent s' 5 = [(enc_msg (request_for 0xFFFF 0x0102 [0x61] ?bs), 1)]"
    by (auto simp: client_inv_def ex_client_sel client_log_def client_requests_def)
  have "site_reach id (\<lambda>i. i + 10) 65536 [[ex_client_ip]] [\<lambda>fd. ex_client] [] s' None"
    using site_step [OF g(1)] pl_read [where path = "table_path [ex_client_ip]" and s = ?s, OF rd s'(1)] by simp
  with site_upload [of id "\<lambda>i. i + 10" 65536 "[ex_client_ip]" "\<lambda>fd. ex_client" s', OF _ _ _ sample_ok(1)] sample_ok(2)
    ex_table_ok fds g s'(2) obtain t' where
    u: "site_reach id (\<lambda>i. i + 10) 65536 [[ex_client_ip], [ex_client_ip]] [\<lambda>fd. ex_client, \<lambda>fd. ex_client]
       [s'\<lparr>pl_gw := g\<lparr>g_tab := t'\<rparr>\<rparr>] (started (g\<lparr>g_tab := t'\<rparr>) (\<lambda>fd. ex_client)) None"
      (is "site_reach _ _ _ _ _ [?old] ?u _")
    by metis
  have guard: "gw_guard (pl_gw ?u)" using g(3) two_messages_ok by (simp add: gw_guard_def started_def)
  have "request_for 0xFFFF 0x0102 [0x61] ?bs = client_req 0xFFFF 0x0102 [0x61] ?bs"
    using length_client_req [of "[0x61]" "0xFFFF" "0x0102" ?bs] by (simp add: request_for_def bytes_def)
  with s'(3) have sent: "pl_sent ?old 5 = [(enc_msg (client_req 0xFFFF 0x0102 [0x61] ?bs), 1)]" by simp
  obtain fss where "length fss = 2" "concat fss = frames (bytes ''$a&$b&'')"
    "\<forall>i < 2. share ([[ex_client_ip], [ex_client_ip]] ! i) ([\<lambda>fd. ex_client, \<lambda>fd. ex_client] ! i) (fss ! i)
       (pl_sent (([?old] @ [?u]) ! i))"
    using epochs_to_devices [OF u guard] g(3) by (auto simp: started_def two_messages_def numeral_2_eq_2)
  with u sent show ?thesis
    by (intro exI [of _ ?old] exI [of _ ?u] exI [of _ fss]) (simp add: all_less_two)
qed

end
