(* ===== verification/Pipeline_Drains.thy ===== *)
theory Pipeline_Drains
  imports Pipeline
begin

section \<open>Everything reaches the devices\<close>

text \<open>
  Without further bytes on the serial port the gateway and its clients come to rest, although writes
  wait for room in the fifos; and then every client has read all messages and sent what fits.
\<close>

text \<open>The steps that need no byte from the serial port.\<close>

inductive pl_internal ::
  "(nat \<Rightarrow> addr) \<Rightarrow> (int \<Rightarrow> u8 list) \<Rightarrow> nat \<Rightarrow> 'a pipeline \<Rightarrow> 'a pipeline \<Rightarrow> bool" for f path cap where
  pl_threads:
    "internal f (pl_gw s) g' \<Longrightarrow> q = feed (pl_fifo s) (new_writes (pl_gw s) g') \<Longrightarrow>
     \<forall>w \<in> set (new_writes (pl_gw s) g'). length (q (fst w)) \<le> cap \<Longrightarrow>
     pl_internal f path cap s (s\<lparr>pl_gw := g', pl_fifo := q\<rparr>)"
| pl_client:
    "read_ok (pl_fifo s fd) bs \<Longrightarrow> client_turn (path fd) fd bs inp s = Some s' \<Longrightarrow> pl_internal f path cap s s'"

inductive_cases pl_internalE: "pl_internal f path cap s s'"

lemma pl_internal_step: "pl_internal f path cap s s' \<Longrightarrow> pl_step f path cap s s'"
  by (erule pl_internalE) (auto intro: step_internal pl_gateway pl_read)

lemma pl_internal_steps: "(pl_internal f path cap)\<^sup>*\<^sup>* s s' \<Longrightarrow> (pl_step f path cap)\<^sup>*\<^sup>* s s'"
  by (erule rtranclp_mono [THEN predicate2D, rotated]) (auto intro: pl_internal_step)

subsection \<open>What is in the fifos\<close>

definition fds :: "coapIP list \<Rightarrow> int set" where
  "fds es = {fd. Some fd \<in> ci_fifo_fd ` set es}"

lemma finite_fds: "finite (fds es)"
proof (rule finite_subset)
  show "fds es \<subseteq> (\<lambda>c. the (ci_fifo_fd c)) ` set es" by (auto simp: fds_def image_iff) (metis option.sel)
qed simp

text \<open>Each fifo holds the last bytes written to it, and only clients of the table are written to.\<close>

lemma pl_fifo_suffix:
  assumes step: "pl_step f path cap s s'" and suf: "suffix (pl_fifo s fd) (written_to fd (g_writes (pl_gw s)))"
  shows "suffix (pl_fifo s' fd) (written_to fd (g_writes (pl_gw s')))"
  using step
proof (cases rule: pl_step.cases)
  case (pl_gateway g')
  with suf gw_step_keeps(1) [OF pl_gateway(2)] show ?thesis
    by (auto simp: feed_def written_to_append suffix_def)
next
  case (pl_read fd' bs inp)
  then have "pl_gw s' = pl_gw s" "pl_fifo s' fd = (if fd' = fd then drop (length bs) (pl_fifo s fd) else pl_fifo s fd)"
    by (auto simp: client_turn_def split: bind_splits)
  with suf show ?thesis by (auto intro: suffix_order.trans suffix_drop)
qed

lemma in_deliver: "w \<in> set (deliver es fs) \<Longrightarrow> \<exists>s \<in> set fs. \<exists>c \<in> set es. w = (the (ci_fifo_fd c), msg_text s)"
  by (auto simp: deliver_def)

text \<open>A step of the threads writes at most one message, to a client of the table.\<close>

lemma internal_writes:
  assumes "ginv f xs es g" and "gw_guard g" and "internal f g g'" and "fds_ready es"
  shows "new_writes g g' = [] \<or> (\<exists>fd m. new_writes g g' = [(fd, m)] \<and> fd \<in> fds es \<and> length m < 512)"
proof -
  note one = internal_keeps(2) [OF assms(3)]
  have g': "ginv f xs es g'" "g_in g' = g_in g" using internal_ok [OF assms(1-3)] by simp_all
  obtain D tm qs um where tab: "tab_ready xs es (g_tab g')" and v: "gview f xs es g' D tm qs um"
    using g'(1) by (rule ginvE)
  have "g_writes g' = g_writes g @ new_writes g g'" by (rule gw_step_keeps(1) [OF step_internal [OF assms(3)]])
  then have in': "set (new_writes g g') \<subseteq> set (deliver es (frames (g_in g)))"
    using gview_writes [OF v tab] g'(2) set_mono_prefix by fastforce
  have "fd \<in> fds es \<and> length m < 512" if fm: "(fd, m) \<in> set (new_writes g g')" for fd m
  proof -
    obtain s c where s: "s \<in> set (frames (g_in g))" "m = msg_text s" and c: "c \<in> set es" "fd = the (ci_fifo_fd c)"
      using fm in' in_deliver [of "(fd, m)" es "frames (g_in g)"] by auto
    have "ci_fifo_fd c = Some fd" using c assms(4) by (auto simp: fds_ready_def)
    then have "fd \<in> fds es" using c(1) by (force simp: fds_def)
    moreover have "length m < 512" using frames_ok(2) s assms(2) by (auto simp: gw_guard_def)
    ultimately show ?thesis by blast
  qed
  with one show ?thesis by fastforce
qed

subsection \<open>Work\<close>

definition clients_ready :: "coapIP list \<Rightarrow> (int \<Rightarrow> 'a client) \<Rightarrow> bool" where
  "clients_ready es cls \<longleftrightarrow>
     fds_ready es \<and> (\<forall>c \<in> set es. client_ok (cls (the (ci_fifo_fd c))) \<and> (\<exists>p. path_ok (ci_path c) p))"

definition pl_inv where
  "pl_inv f xs es cls bs s \<longleftrightarrow>
     clients_ready es cls \<and> ginv f xs es (pl_gw s) \<and> gw_guard (pl_gw s) \<and> g_in (pl_gw s) = bs \<and>
     (\<forall>fd. suffix (pl_fifo s fd) (written_to fd (g_writes (pl_gw s)))) \<and>
     (\<forall>fd \<in> fds es. \<forall>p. path_ok (table_path es fd) p \<longrightarrow> (\<exists>cs. pl_view (cls fd) p fd cs (g_writes (pl_gw s)) s))"

definition pl_work :: "(addr \<times> addr) list \<Rightarrow> coapIP list \<Rightarrow> 'a pipeline \<Rightarrow> nat" where
  "pl_work xs es s = 512 * work xs (pl_gw s) + (\<Sum>fd \<in> fds es. length (pl_fifo s fd))"

lemma pl_inv_fifo:
  assumes inv: "pl_inv f xs es cls bs s" and fd: "fd \<notin> fds es"
  shows "pl_fifo s fd = []"
proof -
  have "ginv f xs es (pl_gw s)" using inv by (simp add: pl_inv_def)
  then obtain D tm qs um where tab: "tab_ready xs es (g_tab (pl_gw s))" and v: "gview f xs es (pl_gw s) D tm qs um"
    by (rule ginvE)
  have "fds_ready es" using inv by (simp add: pl_inv_def clients_ready_def)
  then have "written_to fd (deliver es (frames (g_in (pl_gw s)))) = []"
    using fd by (simp add: written_to_deliver fds_def)
  then have "written_to fd (g_writes (pl_gw s)) = []"
    using written_to_prefix [OF gview_writes [OF v tab], of fd] by simp
  moreover have "suffix (pl_fifo s fd) (written_to fd (g_writes (pl_gw s)))" using inv by (simp add: pl_inv_def)
  ultimately show ?thesis by simp
qed

lemma pl_inv_internal:
  assumes inv: "pl_inv f xs es cls bs s" and step: "pl_internal f (table_path es) cap s s'"
  shows "pl_inv f xs es cls bs s'"
proof -
  note st = pl_internal_step [OF step]
  have "internal f (pl_gw s) (pl_gw s') \<or> pl_gw s' = pl_gw s"
    using step by (auto elim!: pl_internalE simp: client_turn_def split: bind_splits)
  then have g: "ginv f xs es (pl_gw s')" "g_in (pl_gw s') = g_in (pl_gw s)"
    using inv internal_ok by (auto simp: pl_inv_def)
  have "\<exists>cs. pl_view (cls fd) p fd cs (g_writes (pl_gw s')) s'"
    if fd: "fd \<in> fds es" and p: "path_ok (table_path es fd) p" for fd p
  proof -
    obtain cs where "pl_view (cls fd) p fd cs (g_writes (pl_gw s)) s" using inv fd p unfolding pl_inv_def by blast
    with pl_view_step [OF st this p] pl_step_gateway(2) [OF st] show ?thesis by simp
  qed
  moreover have "gw_guard (pl_gw s')" "g_in (pl_gw s') = bs" using inv g by (auto simp: pl_inv_def gw_guard_def)
  ultimately show ?thesis using inv g pl_fifo_suffix [OF st] by (simp add: pl_inv_def)
qed

lemma pl_work_internal:
  assumes inv: "pl_inv f xs es cls bs s" and step: "pl_internal f (table_path es) cap s s'"
  shows "pl_work xs es s' < pl_work xs es s"
  using step
proof (rule pl_internalE, goal_cases)
  case (1 g')
  let ?q = "feed (pl_fifo s) (new_writes (pl_gw s) g')"
  have gi: "ginv f xs es (pl_gw s)" "gw_guard (pl_gw s)" "fds_ready es"
    using inv by (simp_all add: pl_inv_def clients_ready_def)
  have w: "work xs g' < work xs (pl_gw s)" using internal_ok [OF gi(1,2) 1(2)] by simp
  have "(\<Sum>fd \<in> fds es. length (?q fd)) \<le> (\<Sum>fd \<in> fds es. length (pl_fifo s fd)) + 511"
    using internal_writes [OF gi(1,2) 1(2) gi(3)]
  proof (elim disjE exE conjE)
    assume "new_writes (pl_gw s) g' = []"
    with 1 show ?thesis by (simp add: feed_def written_to_def)
  next
    fix fd m
    assume fd: "new_writes (pl_gw s) g' = [(fd, m)]" "fd \<in> fds es" "length m < 512"
    then have q: "length (?q k) = length (pl_fifo s k) + (if k = fd then length m else 0)" for k
      by (simp add: feed_def written_to_def)
    show ?thesis unfolding q using fd by (simp add: sum.distrib finite_fds)
  qed
  with w 1 show ?case by (simp add: pl_work_def)
next
  case (2 fd bs inp)
  then have s': "pl_gw s' = pl_gw s" "pl_fifo s' = (pl_fifo s)(fd := drop (length bs) (pl_fifo s fd))"
    by (auto simp: client_turn_def split: bind_splits)
  have ne: "bs \<noteq> []" "pl_fifo s fd \<noteq> []" using 2(1) by (auto simp: read_ok_def)
  then have fd: "fd \<in> fds es" using pl_inv_fifo [OF inv] by blast
  have "(\<Sum>k \<in> fds es. length (pl_fifo s' k)) < (\<Sum>k \<in> fds es. length (pl_fifo s k))"
    using ne fd by (intro sum_strict_mono_ex1) (auto simp: finite_fds s'(2))
  with s'(1) show ?case by (simp add: pl_work_def)
qed

interpretation pipeline: draining "pl_internal f (table_path es) cap" "pl_inv f xs es cls bs" "pl_work xs es"
  for f es cap xs cls bs
  by unfold_locales (rule pl_inv_internal pl_work_internal; assumption)+

subsection \<open>At rest\<close>

lemma pl_client_moves:
  assumes inv: "pl_inv f xs es cls bs s" and ne: "pl_fifo s fd \<noteq> []"
  shows "\<exists>s'. pl_internal f (table_path es) cap s s'"
proof -
  have fd: "fd \<in> fds es" using pl_inv_fifo [OF inv] ne by blast
  then obtain c where c: "c \<in> set es" "ci_fifo_fd c = Some fd" by (auto simp: fds_def)
  have "clients_ready es cls" using inv by (simp add: pl_inv_def)
  then obtain p where p: "path_ok (table_path es fd) p"
    using c table_path_entry [of es c fd] by (auto simp: clients_ready_def fds_ready_def)
  with inv fd obtain cs where cs: "pl_view (cls fd) p fd cs (g_writes (pl_gw s)) s" unfolding pl_inv_def by blast
  have rd: "read_ok (pl_fifo s fd) (take 1 (pl_fifo s fd))"
    using ne by (auto simp: read_ok_def MSG_BUF_LEN_def take_is_prefix)
  obtain s' where "client_turn (table_path es fd) fd (take 1 (pl_fifo s fd))
      \<lparr>i_read = None, i_rand = 0, i_sent = False, i_from = None\<rparr> s = Some s'"
    using pl_view_client [OF cs p rd] by blast
  with rd show ?thesis using pl_client [where path = "table_path es" and s = s] by blast
qed

lemma pl_rest:
  assumes inv: "pl_inv f xs es cls bs s" and cap: "512 \<le> cap"
  shows "(\<forall>s'. \<not> pl_internal f (table_path es) cap s s') \<longleftrightarrow> quiet f (pl_gw s) \<and> (\<forall>fd. pl_fifo s fd = [])"
proof
  assume rest: "\<forall>s'. \<not> pl_internal f (table_path es) cap s s'"
  have gi: "ginv f xs es (pl_gw s)" "gw_guard (pl_gw s)" "fds_ready es"
    using inv by (simp_all add: pl_inv_def clients_ready_def)
  have e: "pl_fifo s fd = []" for fd using pl_client_moves [OF inv] rest by blast
  have "\<not> internal f (pl_gw s) g'" for g'
  proof
    assume i: "internal f (pl_gw s) g'"
    have "\<forall>w \<in> set (new_writes (pl_gw s) g'). length (feed (pl_fifo s) (new_writes (pl_gw s) g') (fst w)) \<le> cap"
      using internal_writes [OF gi(1,2) i gi(3)] cap e by (auto simp: feed_def written_to_def)
    with i rest show False using pl_threads by blast
  qed
  then have "quiet f (pl_gw s)"
    using uart_step_ok [OF gi(1,2)] trans_step_ok [OF gi(1,2)] internal_uart internal_trans
    by (fastforce simp: quiet_def progress_def)
  with e show "quiet f (pl_gw s) \<and> (\<forall>fd. pl_fifo s fd = [])" by blast
next
  assume "quiet f (pl_gw s) \<and> (\<forall>fd. pl_fifo s fd = [])"
  then show "\<forall>s'. \<not> pl_internal f (table_path es) cap s s'"
    by (auto elim!: pl_internalE internalE simp: quiet_def read_ok_def)
qed

lemma pl_reach_inv:
  assumes reach: "pl_reach f xs es (table_path es) cap cls s" and guard: "gw_guard (pl_gw s)"
    and ready: "clients_ready es cls"
  shows "pl_inv f xs es cls (g_in (pl_gw s)) s"
proof -
  obtain t where "(pl_step f (table_path es) cap)\<^sup>*\<^sup>* (pl_init t cls) s" using reach by (auto simp: pl_reach_def)
  then have "suffix (pl_fifo s fd) (written_to fd (g_writes (pl_gw s)))" for fd
    by (induction rule: rtranclp_induct) (auto simp: pl_init_def intro: pl_fifo_suffix)
  moreover have "client_ok (cls fd)" if "fd \<in> fds es" for fd
    using that ready by (auto simp: fds_def clients_ready_def) (metis option.sel)
  then have "\<exists>cs. pl_view (cls fd) p fd cs (g_writes (pl_gw s)) s"
    if "fd \<in> fds es" "path_ok (table_path es fd) p" for fd p
    using pl_view_reach [OF reach] that by blast
  ultimately show ?thesis
    using gw_reach_inv [OF pl_reach_gateway [OF reach] guard] guard ready by (simp add: pl_inv_def)
qed

lemma pl_rest_sent:
  assumes inv: "pl_inv f xs es cls bs s" and rest: "quiet f (pl_gw s)" "pl_fifo s fd = []"
    and c: "c \<in> set es" "ci_fifo_fd c = Some fd" "path_ok (ci_path c) p"
  shows "\<exists>inps. (\<forall>inp \<in> set inps. message_ok inp) \<and> concat (pieces inps) = concat (map msg_text (frames bs)) \<and>
     pl_sent s fd = zip (map enc_msg (client_requests (cls fd) p inps)) (destinations (c_remote (cls fd)) inps) \<and>
     map m_pay (client_requests (cls fd) p inps) = map (\<lambda>c. if fits p c then c else []) (pieces inps) \<and>
     (fits p (concat (pieces inps)) \<longrightarrow> map m_pay (client_requests (cls fd) p inps) = pieces inps)"
proof -
  have i: "fds_ready es" "ginv f xs es (pl_gw s)" "gw_guard (pl_gw s)" "g_in (pl_gw s) = bs"
    using inv by (simp_all add: pl_inv_def clients_ready_def)
  have fd: "fd \<in> fds es" using c by (force simp: fds_def)
  have "path_ok (table_path es fd) p" using table_path_entry [of es c fd] c i(1) by (simp add: fds_ready_def)
  with inv fd obtain cs where cs: "pl_view (cls fd) p fd cs (g_writes (pl_gw s)) s" unfolding pl_inv_def by blast
  moreover have "written_to fd (g_writes (pl_gw s)) = concat (map msg_text (frames bs))"
    using quiet_view [OF i(2,3) rest(1)] written_to_deliver [OF i(1), of fd] fd i(4) by (simp add: fds_def)
  moreover have "length p \<le> 127" using c(3) by (simp add: path_ok_def)
  ultimately show ?thesis
    using pl_view_sent [OF cs c(3)] rest(2) client_payloads_all [of p cs "cls fd"] by (intro exI [of _ cs]) simp
qed

subsection \<open>The property\<close>

text \<open>
  C3. Everything is read.  Take any reachable state of threads, fifos and clients, with room for one
  message in each fifo.  Without further bytes there is no endless run, there is a step until the
  threads are at rest and all fifos are empty, and whenever that is so each client has read all messages
  received on the serial port, in order and without a gap, in pieces of 1 to 512 bytes.  It has sent one
  request for each piece, to its device or to the sender of the last reply, whose payload is the piece if
  that fits into a request and empty otherwise.  So all bytes have been sent when they fit into a
  request together; in general the bytes of pieces that do not fit are lost.
\<close>

theorem pipeline_drains:
  assumes "pl_reach f xs es (table_path es) cap cls s" and "gw_guard (pl_gw s)"
    and "clients_ready es cls" and "512 \<le> cap"
  shows "\<not> (\<exists>r. r 0 = s \<and> (\<forall>i. pl_internal f (table_path es) cap (r i) (r (Suc i)))) \<and>
     (\<forall>s1. (pl_internal f (table_path es) cap)\<^sup>*\<^sup>* s s1 \<longrightarrow>
        ((\<forall>s2. \<not> pl_internal f (table_path es) cap s1 s2) \<longleftrightarrow> quiet f (pl_gw s1) \<and> (\<forall>fd. pl_fifo s1 fd = [])) \<and>
        (quiet f (pl_gw s1) \<and> (\<forall>fd. pl_fifo s1 fd = []) \<longrightarrow>
           (\<forall>c \<in> set es. \<forall>fd p. ci_fifo_fd c = Some fd \<and> path_ok (ci_path c) p \<longrightarrow>
              (\<exists>inps. (\<forall>inp \<in> set inps. message_ok inp) \<and> concat (pieces inps) = messages (pl_gw s) \<and>
                 pl_sent s1 fd =
                   zip (map enc_msg (client_requests (cls fd) p inps)) (destinations (c_remote (cls fd)) inps) \<and>
                 map m_pay (client_requests (cls fd) p inps) = map (\<lambda>c. if fits p c then c else []) (pieces inps) \<and>
                 (fits p (messages (pl_gw s)) \<longrightarrow> map m_pay (client_requests (cls fd) p inps) = pieces inps)))))"
proof -
  have inv: "pl_inv f xs es cls (g_in (pl_gw s)) s" by (rule pl_reach_inv [OF assms(1-3)])
  have inv1: "pl_inv f xs es cls (g_in (pl_gw s)) s1" if "(pl_internal f (table_path es) cap)\<^sup>*\<^sup>* s s1" for s1
    using pipeline.inv_run [OF that inv] .
  show ?thesis
  proof (intro conjI allI impI ballI)
    have "\<not> (\<forall>i. pl_internal f (table_path es) cap (r i) (r (Suc i)))" if "r 0 = s" for r
      using pipeline.no_infinite_run [of f xs es cls "g_in (pl_gw s)" r cap] inv that by simp
    then show "\<not> (\<exists>r. r 0 = s \<and> (\<forall>i. pl_internal f (table_path es) cap (r i) (r (Suc i))))" by blast
  next
    fix s1 c fd p
    assume run: "(pl_internal f (table_path es) cap)\<^sup>*\<^sup>* s s1" and q: "quiet f (pl_gw s1) \<and> (\<forall>fd. pl_fifo s1 fd = [])"
      and c: "c \<in> set es" "ci_fifo_fd c = Some fd \<and> path_ok (ci_path c) p"
    obtain inps where i: "\<forall>inp \<in> set inps. message_ok inp" "concat (pieces inps) = messages (pl_gw s)"
        "pl_sent s1 fd = zip (map enc_msg (client_requests (cls fd) p inps)) (destinations (c_remote (cls fd)) inps)"
        "map m_pay (client_requests (cls fd) p inps) = map (\<lambda>c. if fits p c then c else []) (pieces inps)"
        "fits p (concat (pieces inps)) \<longrightarrow> map m_pay (client_requests (cls fd) p inps) = pieces inps"
      using pl_rest_sent [OF inv1 [OF run] q [THEN conjunct1] q [THEN conjunct2, THEN spec] c(1)
          c(2) [THEN conjunct1] c(2) [THEN conjunct2]] by blast
    from i(1-4) i(5) [unfolded i(2)] show "\<exists>inps. (\<forall>inp \<in> set inps. message_ok inp) \<and> concat (pieces inps) = messages (pl_gw s) \<and>
         pl_sent s1 fd =
           zip (map enc_msg (client_requests (cls fd) p inps)) (destinations (c_remote (cls fd)) inps) \<and>
         map m_pay (client_requests (cls fd) p inps) = map (\<lambda>c. if fits p c then c else []) (pieces inps) \<and>
         (fits p (messages (pl_gw s)) \<longrightarrow> map m_pay (client_requests (cls fd) p inps) = pieces inps)"
      by (intro exI [of _ inps] conjI)
  qed (use pl_rest [OF inv1 assms(4)] in blast)+
qed

theorem pipeline_drains_witness:
  "\<exists>s inps. pl_reach id [(1, 2)] [ex_client_ip] (table_path [ex_client_ip]) 65536 (\<lambda>fd. ex_client) s \<and>
     g_in (pl_gw s) = bytes ''$a&$b&'' \<and> (\<forall>fd. pl_fifo s fd = []) \<and> concat (pieces inps) = bytes ''$a&$b&'' \<and>
     pl_sent s 5 = zip (map enc_msg (client_requests ex_client [0x61] inps)) (destinations 1 inps) \<and>
     map m_pay (client_requests ex_client [0x61] inps) = pieces inps"
proof -
  let ?path = "table_path [ex_client_ip]" and ?cls = "\<lambda>fd. ex_client"
  obtain s where s: "pl_reach id [(1, 2)] [ex_client_ip] ?path 65536 ?cls s" "gw_guard (pl_gw s)" "g_in (pl_gw s) = two_messages"
    using ex_written by fastforce
  have ready: "clients_ready [ex_client_ip] ?cls"
    using ex_entry ex_client_ok by (auto simp: clients_ready_def fds_ready_def)
  have "(512 :: nat) \<le> 65536" by simp
  note th = pipeline_drains [OF s(1,2) ready this]
  obtain s1 where s1: "(pl_internal id ?path 65536)\<^sup>*\<^sup>* s s1" "pl_inv id [(1, 2)] [ex_client_ip] ?cls two_messages s1"
    "\<forall>s2. \<not> pl_internal id ?path 65536 s1 s2"
    using pipeline.comes_to_rest [OF pl_reach_inv [OF s(1,2) ready], of 65536] s(3) by auto
  then have rest: "quiet id (pl_gw s1)" "\<forall>fd. pl_fifo s1 fd = []" using th by blast+
  have "fits [0x61] (messages (pl_gw s))" using s(3) two_messages_ok(2,3) by (intro fits_short) simp_all
  with th [THEN conjunct2, rule_format, OF s1(1), THEN conjunct2, THEN mp, OF conjI [OF rest], THEN bspec,
      of ex_client_ip, THEN spec [of _ 5], THEN spec [of _ "[0x61]"]] ex_entry(1,2) obtain inps where
    "concat (pieces inps) = messages (pl_gw s)"
    "pl_sent s1 5 = zip (map enc_msg (client_requests ex_client [0x61] inps)) (destinations (c_remote ex_client) inps)"
    "map m_pay (client_requests ex_client [0x61] inps) = pieces inps"
    by auto
  moreover have "pl_reach id [(1, 2)] [ex_client_ip] ?path 65536 ?cls s1"
    using s(1) pl_internal_steps [OF s1(1)] unfolding pl_reach_def by (meson rtranclp_trans)
  moreover have "g_in (pl_gw s1) = two_messages" using s1(2) by (simp add: pl_inv_def)
  ultimately show ?thesis
    using rest(2) s(3) two_messages_ok(2)
    by (intro exI [of _ s1] exI [of _ inps]) (simp add: two_messages_def ex_client_sel)
qed

end
