(* ===== verification/Client_Process.thy ===== *)
theory Client_Process
  imports Clients Coap_Client Systems
begin

section \<open>The life of a client process: coapClient/coapClient.c and user/main.c\<close>

text \<open>
  A client process sets itself up (signal handlers, socket, fifo) and then loops; a signal of the
  parent ends it.  Parent and child open the two ends of the fifo independently: the last part is the
  interleaving of both from the \<open>fork\<close> on, where \<open>open\<close> of a fifo waits for the other end.  Results of
  system calls are arguments; \<open>None\<close> is undefined behaviour.
\<close>

subsection \<open>Signals\<close>

datatype rt_signal = TFTP_SIGNAL | COAP_CLOSE_SIGNAL | FIFO_CREATE_SIGNAL

datatype disposition = Sig_default | Sig_ignore | Run_Tftp_Sig | Run_Close_Sig | Run_Fifo_Create_Sig

type_synonym dispositions = "rt_signal \<Rightarrow> disposition"

text \<open>The dispositions a client inherits from the parent, which has registered \<open>Tftp_Sig\<close> only.\<close>

definition inherited :: dispositions where
  "inherited = (\<lambda>sig. Sig_default)(TFTP_SIGNAL := Run_Tftp_Sig)"

definition client_signals :: "dispositions \<Rightarrow> dispositions" where
  "client_signals ds = ds(COAP_CLOSE_SIGNAL := Run_Close_Sig, FIFO_CREATE_SIGNAL := Run_Fifo_Create_Sig)"

text \<open>\<open>Close_Sig\<close> calls \<open>exit\<close>, so that its last statement is never reached.\<close>

definition Close_Sig :: "dispositions \<Rightarrow> dispositions outcome" where
  "Close_Sig ds = Exited"

definition Fifo_Create_Sig :: "dispositions \<Rightarrow> dispositions outcome" where
  "Fifo_Create_Sig ds = Running (ds(FIFO_CREATE_SIGNAL := Sig_ignore))"

text \<open>
  A signal arrives at a client; the default action of a real-time signal ends the process.  The
  inherited \<open>Tftp_Sig\<close>, which is only ever sent to the main process, has no case here.
\<close>

definition client_signal :: "dispositions \<Rightarrow> rt_signal \<Rightarrow> dispositions outcome option" where
  "client_signal ds sig =
     (case ds sig of
        Sig_default \<Rightarrow> Some Exited
      | Sig_ignore \<Rightarrow> Some (Running ds)
      | Run_Close_Sig \<Rightarrow> Some (Close_Sig ds)
      | Run_Fifo_Create_Sig \<Rightarrow> Some (Fifo_Create_Sig ds)
      | Run_Tftp_Sig \<Rightarrow> None)"

fun client_signal_run :: "dispositions \<Rightarrow> rt_signal list \<Rightarrow> dispositions outcome option" where
  "client_signal_run ds [] = Some (Running ds)"
| "client_signal_run ds (sig # sigs) =
     (case client_signal ds sig of
        None \<Rightarrow> None
      | Some Exited \<Rightarrow> Some Exited
      | Some (Running ds') \<Rightarrow> client_signal_run ds' sigs)"

lemma client_signals_keep:
  assumes "ds COAP_CLOSE_SIGNAL \<in> {Sig_default, Run_Close_Sig}"
    and "ds FIFO_CREATE_SIGNAL \<in> {Sig_default, Sig_ignore, Run_Fifo_Create_Sig}"
    and "TFTP_SIGNAL \<notin> set sigs"
  shows "client_signal_run ds sigs \<noteq> None \<and>
     (COAP_CLOSE_SIGNAL \<in> set sigs \<longrightarrow> client_signal_run ds sigs = Some Exited)"
  using assms
proof (induction sigs arbitrary: ds)
  case (Cons sig sigs)
  show ?case
  proof (cases sig)
    case TFTP_SIGNAL
    with Cons.prems show ?thesis by simp
  next
    case COAP_CLOSE_SIGNAL
    with Cons.prems show ?thesis by (auto simp: client_signal_def Close_Sig_def)
  next
    case FIFO_CREATE_SIGNAL
    define ds' where "ds' = ds(FIFO_CREATE_SIGNAL := Sig_ignore)"
    have "ds' COAP_CLOSE_SIGNAL = ds COAP_CLOSE_SIGNAL" "ds' FIFO_CREATE_SIGNAL = Sig_ignore"
      by (simp_all add: ds'_def)
    with FIFO_CREATE_SIGNAL Cons.prems Cons.IH [of ds] Cons.IH [of ds'] show ?thesis
      by (auto simp: client_signal_def Fifo_Create_Sig_def ds'_def [symmetric])
  qed
qed simp

subsection \<open>Setting up\<close>

text \<open>
  What the calls of the set-up deliver: \<open>rand\<close>, the socket, \<open>inet_addr\<close>, \<open>getpid\<close>, and \<open>open\<close> on the name
  of the fifo; \<open>ce_msg\<close> and \<open>ce_send\<close> are the bytes two local arrays happen to hold.
\<close>

record 'a client_env =
  ce_rand :: int
  ce_sock :: int
  ce_addr :: "u8 list \<Rightarrow> 'a"
  ce_pid :: int
  ce_open :: "u8 list \<Rightarrow> int"
  ce_msg :: "u8 list"
  ce_send :: "u8 list"

text \<open>The address of the device goes with the port 5683; the datagrams carry it as \<open>'a\<close>.\<close>

definition COAP_PORT :: nat where
  "COAP_PORT = 5683"

record 'a client_proc =
  cpr_data :: coapIP
  cpr_state :: "'a client"
  cpr_fifo :: "u8 list"
  cpr_fd :: int
  cpr_sigs :: dispositions

definition CoapClient_start ::
  "('a client_env) \<Rightarrow> dispositions \<Rightarrow> coapIP \<Rightarrow> ('a client_proc) outcome option" where
  "CoapClient_start e ds c =
     (let ds1 = client_signals ds;
          send = \<lparr>pdu_buf = ce_send e, pdu_len = 0, pdu_max = MSG_BUF_LEN\<rparr>;
          mid = word_of_int (ce_rand e)
      in
        if ce_sock e = -1 then Some Exited
        else
          do {
            ip \<leftarrow> cstr (ci_ip c) 0;
            _ \<leftarrow> cstr (ci_path c) 0;
            fifo \<leftarrow> GetfifoName (replicate 64 0) 64 (ce_pid e);
            name \<leftarrow> cstr fifo 0;
            if ce_open e name = -1 then Some Exited
            else
              Some (Running \<lparr>cpr_data = c\<lparr>coapSocket := Some (ce_sock e)\<rparr>,
                cpr_state = \<lparr>c_msg_buf = ce_msg e, c_send = send, c_mid = mid, c_remote = ce_addr e ip\<rparr>,
                cpr_fifo = name, cpr_fd = ce_open e name, cpr_sigs = ds1\<rparr>)
          })"

text \<open>The loop, on a sequence of inputs of its turns: the datagrams sent, with their destinations.\<close>

fun CoapClient_loop ::
  "u8 list \<Rightarrow> 'a client \<Rightarrow> 'a client_input list \<Rightarrow> ((u8 list \<times> 'a) list \<times> 'a client) option" where
  "CoapClient_loop path st [] = Some ([], st)"
| "CoapClient_loop path st (inp # inps) =
     do {
       (d, dest, st1) \<leftarrow> CoapClient_turn path st inp;
       (ds, st2) \<leftarrow> CoapClient_loop path st1 inps;
       Some ((d, dest) # ds, st2)
     }"

definition CoapClient ::
  "('a client_env) \<Rightarrow> dispositions \<Rightarrow> coapIP \<Rightarrow> 'a client_input list \<Rightarrow> ((u8 list \<times> 'a) list) outcome option" where
  "CoapClient e ds c inps =
     (case CoapClient_start e ds c of
        None \<Rightarrow> None
      | Some Exited \<Rightarrow> Some Exited
      | Some (Running pr) \<Rightarrow>
          map_option (\<lambda>(sent, st). Running sent) (CoapClient_loop (ci_path (cpr_data pr)) (cpr_state pr) inps))"

lemma CoapClient_loop_sends:
  assumes "client_ok st" and "path_ok path p" and "\<forall>inp \<in> set inps. message_ok inp"
  shows "\<exists>st'. CoapClient_loop path st inps =
     Some (zip (map enc_msg (requests (c_mid st) p (map (\<lambda>i. (i_rand i, the (i_read i))) inps)))
       (destinations (c_remote st) inps), st')"
  using assms
proof (induction inps arbitrary: st)
  case (Cons inp inps)
  then obtain bs where bs: "i_read inp = Some bs" "bs \<noteq> []" "length bs \<le> 512"
    by (auto simp: message_ok_def MSG_BUF_LEN_def split: option.splits)
  have "cstr path 0 = Some p" "length p \<le> 127" using Cons.prems(2) by (auto simp: path_ok_def)
  from CoapClient_turn_sends [OF Cons.prems(1) this bs] obtain st1 where
    st1: "CoapClient_turn path st inp = Some (enc_msg (request_for (c_mid st) (i_rand inp) p bs), c_remote st, st1)"
    "client_ok st1" "c_mid st1 = c_mid st + 1"
    "c_remote st1 = (if i_sent inp then (case i_from inp of None \<Rightarrow> c_remote st | Some a \<Rightarrow> a) else c_remote st)"
    by (auto simp: request_for_def)
  obtain st2 where "CoapClient_loop path st1 inps =
     Some (zip (map enc_msg (requests (c_mid st + 1) p (map (\<lambda>i. (i_rand i, the (i_read i))) inps)))
       (destinations (c_remote st1) inps), st2)"
    using Cons.IH [OF st1(2) Cons.prems(2)] Cons.prems(3) st1(3) by auto
  with st1 bs(1) show ?case by simp
qed simp

definition client_env_ok :: "'a client_env \<Rightarrow> bool" where
  "client_env_ok e \<longleftrightarrow> int32 (ce_pid e) \<and> length (ce_msg e) = MSG_BUF_LEN \<and> length (ce_send e) = MSG_BUF_LEN"

lemma CoapClient_start_ok:
  assumes "client_env_ok e" and "cstr (ci_ip c) 0 = Some ip" and "cstr (ci_path c) 0 = Some p"
    and "ce_sock e \<noteq> -1" and "ce_open e (fifo_name (ce_pid e)) \<noteq> -1"
  shows "\<exists>pr. CoapClient_start e ds c = Some (Running pr) \<and> client_ok (cpr_state pr) \<and>
     c_mid (cpr_state pr) = word_of_int (ce_rand e) \<and> c_remote (cpr_state pr) = ce_addr e ip \<and>
     ci_path (cpr_data pr) = ci_path c \<and> cpr_fifo pr = fifo_name (ce_pid e) \<and> cpr_sigs pr = client_signals ds"
proof -
  obtain b where "GetfifoName (replicate 64 0) 64 (ce_pid e) = Some b" "cstr b 0 = Some (fifo_name (ce_pid e))"
    using GetfifoName_ok [of "replicate 64 0" "ce_pid e"] assms(1) by (auto simp: client_env_ok_def)
  with assms show ?thesis
    by (simp add: CoapClient_start_def client_ok_def client_env_ok_def MSG_BUF_LEN_def)
qed

lemma CoapClient_start_exits:
  assumes "client_env_ok e" and "cstr (ci_ip c) 0 = Some ip" and "cstr (ci_path c) 0 = Some p"
    and "ce_sock e = -1 \<or> ce_open e (fifo_name (ce_pid e)) = -1"
  shows "CoapClient_start e ds c = Some Exited"
proof -
  obtain b where "GetfifoName (replicate 64 0) 64 (ce_pid e) = Some b" "cstr b 0 = Some (fifo_name (ce_pid e))"
    using GetfifoName_ok [of "replicate 64 0" "ce_pid e"] assms(1) by (auto simp: client_env_ok_def)
  with assms show ?thesis by (auto simp: CoapClient_start_def Let_def)
qed

subsection \<open>Parent and child open the fifo\<close>

text \<open>
  After the \<open>fork\<close> the parent looks for the fifo, makes it if it is not there and opens it for writing,
  while the child opens it for reading.  \<open>hs_files\<close> are the existing files.  \<open>open\<close> for reading fails when
  the file is not there; otherwise both sides wait in \<open>open\<close> for each other.  \<open>hs_trace\<close> is what the
  parent has done, as \<open>creat_one\<close> reports it.
\<close>

datatype parent_pc = P_access | P_mkfifo | P_open | P_opening | P_opened | P_exited

datatype child_pc = C_setup | C_opening | C_opened | C_exited

record handshake =
  hs_files :: "u8 list set"
  hs_parent :: parent_pc
  hs_child :: child_pc
  hs_trace :: "proc_event list"

text \<open>\<open>parent\<close> and \<open>child\<close> are the names the two processes use; \<open>mk\<close> tells whether \<open>mkfifo\<close> can succeed.\<close>

inductive hs_step :: "u8 list \<Rightarrow> u8 list \<Rightarrow> bool \<Rightarrow> handshake \<Rightarrow> handshake \<Rightarrow> bool" for parent child mk where
  hs_found: "hs_parent s = P_access \<Longrightarrow> parent \<in> hs_files s \<Longrightarrow>
     hs_step parent child mk s (s\<lparr>hs_parent := P_open\<rparr>)"
| hs_missing: "hs_parent s = P_access \<Longrightarrow> parent \<notin> hs_files s \<Longrightarrow>
     hs_step parent child mk s (s\<lparr>hs_parent := P_mkfifo\<rparr>)"
| hs_make: "hs_parent s = P_mkfifo \<Longrightarrow> mk \<and> parent \<notin> hs_files s \<Longrightarrow>
     hs_step parent child mk s
       (s\<lparr>hs_parent := P_open, hs_files := insert parent (hs_files s), hs_trace := hs_trace s @ [Make_fifo parent]\<rparr>)"
| hs_make_fails: "hs_parent s = P_mkfifo \<Longrightarrow> \<not> (mk \<and> parent \<notin> hs_files s) \<Longrightarrow>
     hs_step parent child mk s (s\<lparr>hs_parent := P_exited\<rparr>)"
| hs_open: "hs_parent s = P_open \<Longrightarrow>
     hs_step parent child mk s (s\<lparr>hs_parent := P_opening, hs_trace := hs_trace s @ [Open_fifo parent]\<rparr>)"
| hs_child_open: "hs_child s = C_setup \<Longrightarrow> child \<in> hs_files s \<Longrightarrow>
     hs_step parent child mk s (s\<lparr>hs_child := C_opening\<rparr>)"
| hs_child_fails: "hs_child s = C_setup \<Longrightarrow> child \<notin> hs_files s \<Longrightarrow>
     hs_step parent child mk s (s\<lparr>hs_child := C_exited\<rparr>)"
| hs_meet: "hs_parent s = P_opening \<Longrightarrow> hs_child s = C_opening \<Longrightarrow> parent = child \<Longrightarrow>
     hs_step parent child mk s (s\<lparr>hs_parent := P_opened, hs_child := C_opened\<rparr>)"

inductive_cases hs_stepE: "hs_step parent child mk s s'"

definition hs_init :: "u8 list set \<Rightarrow> handshake" where
  "hs_init files = \<lparr>hs_files = files, hs_parent = P_access, hs_child = C_setup, hs_trace = []\<rparr>"

definition hs_stuck :: "u8 list \<Rightarrow> u8 list \<Rightarrow> bool \<Rightarrow> handshake \<Rightarrow> bool" where
  "hs_stuck parent child mk s \<longleftrightarrow> (\<forall>s'. \<not> hs_step parent child mk s s')"

text \<open>Steps left: every step of either process lowers it.\<close>

definition hs_work :: "handshake \<Rightarrow> nat" where
  "hs_work s =
     (case hs_parent s of P_access \<Rightarrow> 4 | P_mkfifo \<Rightarrow> 3 | P_open \<Rightarrow> 2 | P_opening \<Rightarrow> 1 | _ \<Rightarrow> 0) +
     (case hs_child s of C_setup \<Rightarrow> 2 | C_opening \<Rightarrow> 1 | _ \<Rightarrow> 0)"

lemma hs_step_work: "hs_step parent child mk s s' \<Longrightarrow> hs_work s' < hs_work s"
  by (erule hs_stepE) (auto simp: hs_work_def split: parent_pc.splits child_pc.splits)

text \<open>What holds at every moment, for one name and a set of files at the start.\<close>

definition hs_inv :: "u8 list \<Rightarrow> bool \<Rightarrow> u8 list set \<Rightarrow> handshake \<Rightarrow> bool" where
  "hs_inv name mk files s \<longleftrightarrow>
     (case hs_parent s of
        P_access \<Rightarrow> hs_files s = files \<and> hs_trace s = []
      | P_mkfifo \<Rightarrow> hs_files s = files \<and> name \<notin> files \<and> hs_trace s = []
      | P_exited \<Rightarrow> hs_files s = files \<and> name \<notin> files \<and> \<not> mk
      | P_open \<Rightarrow> name \<in> hs_files s \<and> hs_trace s = (if name \<in> files then [] else [Make_fifo name])
      | _ \<Rightarrow> name \<in> hs_files s \<and> hs_trace s = (if name \<in> files then [] else [Make_fifo name]) @ [Open_fifo name]) \<and>
     (hs_child s \<in> {C_opening, C_opened} \<longrightarrow> name \<in> hs_files s) \<and>
     (hs_child s = C_exited \<longrightarrow> name \<notin> files) \<and>
     (hs_parent s = P_opened \<longleftrightarrow> hs_child s = C_opened)"

lemma hs_inv_init: "hs_inv name mk files (hs_init files)"
  by (simp add: hs_inv_def hs_init_def)

lemma hs_inv_step: "hs_inv name mk files s \<Longrightarrow> hs_step name name mk s s' \<Longrightarrow> hs_inv name mk files s'"
  by (erule hs_stepE) (auto simp: hs_inv_def split: parent_pc.splits)

interpretation hs_keep: guarded_system "hs_step name name mk" "\<lambda>s. True" "hs_inv name mk files" for name mk files
  by unfold_locales (auto intro: hs_inv_step)

lemma hs_inv_reach: "(hs_step name name mk)\<^sup>*\<^sup>* (hs_init files) s \<Longrightarrow> hs_inv name mk files s"
  using hs_keep.inv_reach hs_inv_init by blast

lemma hs_stuck_cases:
  assumes "hs_stuck name name mk s" and "hs_inv name mk files s"
  shows "(hs_parent s = P_opened \<and> hs_child s = C_opened) \<or>
     (hs_parent s = P_opening \<and> hs_child s = C_exited) \<or> (hs_parent s = P_exited \<and> hs_child s = C_exited)"
proof -
  note no = assms(1) [unfolded hs_stuck_def, rule_format]
  have "hs_child s \<noteq> C_setup" using no hs_child_open hs_child_fails by metis
  moreover have "hs_parent s \<notin> {P_access, P_mkfifo, P_open}"
    using no hs_found hs_missing hs_make hs_make_fails hs_open by (metis insertE empty_iff)
  moreover have "\<not> (hs_parent s = P_opening \<and> hs_child s = C_opening)" using no hs_meet by metis
  ultimately show ?thesis
    using assms(2) by (cases "hs_parent s"; cases "hs_child s") (auto simp: hs_inv_def)
qed

interpretation hs_stop: draining "hs_step parent child mk" "\<lambda>s. True" hs_work for parent child mk
  by unfold_locales (auto intro: hs_step_work)

lemma hs_ends: "\<exists>s'. (hs_step parent child mk)\<^sup>*\<^sup>* s s' \<and> hs_stuck parent child mk s'"
  using hs_stop.comes_to_rest unfolding hs_stuck_def by blast

text \<open>The schedule in which the child is faster.\<close>

lemma hs_child_first:
  assumes "name \<notin> files"
  shows "\<exists>s. (hs_step name name True)\<^sup>*\<^sup>* (hs_init files) s \<and> hs_parent s = P_opening \<and> hs_child s = C_exited"
proof -
  let ?s1 = "(hs_init files)\<lparr>hs_child := C_exited\<rparr>"
  let ?s2 = "?s1\<lparr>hs_parent := P_mkfifo\<rparr>"
  let ?s3 = "?s2\<lparr>hs_parent := P_open, hs_files := insert name files, hs_trace := [] @ [Make_fifo name]\<rparr>"
  let ?s4 = "?s3\<lparr>hs_parent := P_opening, hs_trace := ([] @ [Make_fifo name]) @ [Open_fifo name]\<rparr>"
  have "hs_step name name True (hs_init files) ?s1" by (rule hs_child_fails) (simp_all add: hs_init_def assms)
  moreover have "hs_step name name True ?s1 ?s2" by (rule hs_missing) (simp_all add: hs_init_def assms)
  moreover have "hs_step name name True ?s2 ?s3"
    using hs_make [of ?s2 True name name] by (simp add: hs_init_def assms)
  moreover have "hs_step name name True ?s3 ?s4"
    using hs_open [of ?s3 name name True] by (simp add: hs_init_def)
  ultimately have "(hs_step name name True)\<^sup>*\<^sup>* (hs_init files) ?s4"
    by (meson converse_rtranclp_into_rtranclp rtranclp.rtrancl_refl)
  then show ?thesis by (intro exI [of _ ?s4]) simp
qed

subsection \<open>Properties\<close>

text \<open>
  C13. A client process from its start.  With a socket and a fifo that opens, a client of a table
  entry sends, for any sequence of messages read, exactly the requests for them to the path of its
  entry: the first message id is the random number, ids count up, and the first datagram goes to the
  address of the entry, later ones to whoever answered last.  Without socket or fifo it ends.
\<close>

theorem CoapClient_requests:
  assumes "client_env_ok e" and "cstr (ci_ip c) 0 = Some ip" and "path_ok (ci_path c) p"
    and "\<forall>inp \<in> set inps. message_ok inp"
  shows "CoapClient e ds c inps =
     (if ce_sock e = -1 \<or> ce_open e (fifo_name (ce_pid e)) = -1 then Some Exited
      else Some (Running (zip
        (map enc_msg (requests (word_of_int (ce_rand e)) p (map (\<lambda>i. (i_rand i, the (i_read i))) inps)))
        (destinations (ce_addr e ip) inps))))"
proof -
  have p: "cstr (ci_path c) 0 = Some p" using assms(3) by (simp add: path_ok_def)
  show ?thesis
  proof (cases "ce_sock e = -1 \<or> ce_open e (fifo_name (ce_pid e)) = -1")
    case True
    with CoapClient_start_exits [OF assms(1,2) p] show ?thesis by (simp add: CoapClient_def)
  next
    case False
    then obtain pr where pr: "CoapClient_start e ds c = Some (Running pr)" "client_ok (cpr_state pr)"
      "c_mid (cpr_state pr) = word_of_int (ce_rand e)" "c_remote (cpr_state pr) = ce_addr e ip"
      "ci_path (cpr_data pr) = ci_path c"
      using CoapClient_start_ok [OF assms(1,2) p, of ds] by auto
    from CoapClient_loop_sends [OF pr(2) assms(3,4)] pr False show ?thesis by (auto simp: CoapClient_def)
  qed
qed

definition ex_client_env :: "nat client_env" where
  "ex_client_env = \<lparr>ce_rand = 65534, ce_sock = 3, ce_addr = length, ce_pid = 100, ce_open = (\<lambda>name. 4),
     ce_msg = replicate 512 7, ce_send = replicate 512 7\<rparr>"

lemma ex_ip_cstr: "cstr (ci_ip (ip_entry ([0x31], [0x61]))) 0 = Some [0x31]"
  "path_ok (ci_path (ip_entry ([0x31], [0x61]))) [0x61]"
proof -
  have "ci_ip (ip_entry ([0x31], [0x61])) = [0x31] @ 0 # replicate 62 0"
    "ci_path (ip_entry ([0x31], [0x61])) = [0x61] @ 0 # replicate 126 0"
    by (simp_all add: ip_entry_def flip: replicate_Suc)
  then show "cstr (ci_ip (ip_entry ([0x31], [0x61]))) 0 = Some [0x31]"
    "path_ok (ci_path (ip_entry ([0x31], [0x61]))) [0x61]"
    using cstr_prefix [of "[0x31]" "[]"] cstr_prefix [of "[0x61]" "[]"] by (simp_all add: path_ok_def)
qed

theorem CoapClient_requests_witness:
  "CoapClient ex_client_env inherited (ip_entry ([0x31], [0x61]))
     [\<lparr>i_read = Some [0x24, 0x26], i_rand = 0x0102, i_sent = True, i_from = Some 9\<rparr>,
      \<lparr>i_read = Some [0x24, 0x26], i_rand = 0x0304, i_sent = True, i_from = None\<rparr>] =
   Some (Running [([0x42, 1, 0xFF, 0xFE, 2, 1, 0xB1, 0x61, 0xFF, 0x24, 0x26], 1),
     ([0x42, 1, 0xFF, 0xFF, 4, 3, 0xB1, 0x61, 0xFF, 0x24, 0x26], 9)])"
proof -
  have "client_env_ok ex_client_env"
    by (simp add: client_env_ok_def ex_client_env_def int32_def MSG_BUF_LEN_def)
  moreover have "enc_msg (client_req 0xFFFE 0x0102 [0x61] [0x24, 0x26]) = [0x42, 1, 0xFF, 0xFE, 2, 1, 0xB1, 0x61, 0xFF, 0x24, 0x26]"
    "enc_msg (client_req 0xFFFF 0x0304 [0x61] [0x24, 0x26]) = [0x42, 1, 0xFF, 0xFF, 4, 3, 0xB1, 0x61, 0xFF, 0x24, 0x26]"
    by (simp_all add: client_req_def enc_msg_def msg_first_def enc_opt_hdr_def opt_first_def opt_nib_def
        opt_ext_def enc_pay_def le_bytes_2 mid_hi_def mid_lo_def)
  moreover have "word_of_int (ce_rand ex_client_env) = (0xFFFE :: u16)" "ce_sock ex_client_env = 3"
    "ce_open ex_client_env n = 4" "ce_addr ex_client_env = length" for n
    by (simp_all add: ex_client_env_def)
  ultimately show ?thesis
    using CoapClient_requests [where e = ex_client_env and ds = inherited and inps =
      "[\<lparr>i_read = Some [0x24, 0x26], i_rand = 0x0102, i_sent = True, i_from = Some 9\<rparr>,
        \<lparr>i_read = Some [0x24, 0x26], i_rand = 0x0304, i_sent = True, i_from = None\<rparr>]", OF _ ex_ip_cstr]
    by (simp add: message_ok_def MSG_BUF_LEN_def request_for_def)
qed

text \<open>
  C31. Opening the fifo.  Whatever the order of their steps, parent and child come to a stop.  When
  the fifo of that process id exists from an earlier run, both have opened it.  When it does not
  exist, the child may look for it before the parent has made it; then the child exits and the parent
  waits forever in \<open>open\<close>, and with it everything \<open>CreatCoapclient\<close> still has to do.  When both have
  opened the fifo, the parent has done what \<open>creat_one\<close> reports.
\<close>

theorem fifo_handshake:
  assumes "env_ok e" and "fe_exists e \<longleftrightarrow> fifo_name (fe_pid e) \<in> files" and "ce_pid ce = fe_pid e"
    and "length fifo = 64" and "t_store t d = Some c"
  shows "(\<forall>mk s s'. hs_step (fifo_name (fe_pid e)) (fifo_name (ce_pid ce)) mk s s' \<longrightarrow> hs_work s' < hs_work s) \<and>
     (\<forall>mk s. \<exists>s'. (hs_step (fifo_name (fe_pid e)) (fifo_name (ce_pid ce)) mk)\<^sup>*\<^sup>* s s' \<and>
        hs_stuck (fifo_name (fe_pid e)) (fifo_name (ce_pid ce)) mk s') \<and>
     (\<forall>mk s. (hs_step (fifo_name (fe_pid e)) (fifo_name (ce_pid ce)) mk)\<^sup>*\<^sup>* (hs_init files) s \<and>
          hs_stuck (fifo_name (fe_pid e)) (fifo_name (ce_pid ce)) mk s \<longrightarrow>
        (if fe_exists e \<or> hs_parent s = P_opened
         then hs_parent s = P_opened \<and> hs_child s = C_opened \<and>
           (\<exists>t' fifo'. creat_one e t fifo d = Some (Cont (t', fifo', hs_trace s)))
         else hs_child s = C_exited \<and> hs_parent s \<in> {P_opening, P_exited})) \<and>
     (\<not> fe_exists e \<longrightarrow>
        (\<exists>s. (hs_step (fifo_name (fe_pid e)) (fifo_name (ce_pid ce)) True)\<^sup>*\<^sup>* (hs_init files) s \<and>
           hs_stuck (fifo_name (fe_pid e)) (fifo_name (ce_pid ce)) True s \<and>
           hs_parent s = P_opening \<and> hs_child s = C_exited))"
proof -
  let ?n = "fifo_name (fe_pid e)"
  have all: "if fe_exists e \<or> hs_parent s = P_opened
         then hs_parent s = P_opened \<and> hs_child s = C_opened \<and>
           (\<exists>t' fifo'. creat_one e t fifo d = Some (Cont (t', fifo', hs_trace s)))
         else hs_child s = C_exited \<and> hs_parent s \<in> {P_opening, P_exited}"
    if "(hs_step ?n ?n mk)\<^sup>*\<^sup>* (hs_init files) s" "hs_stuck ?n ?n mk s" for mk s
  proof -
    note inv = hs_inv_reach [OF that(1)]
    have "\<exists>t' fifo'. creat_one e t fifo d = Some (Cont (t', fifo', hs_trace s))" if "hs_parent s = P_opened"
    proof -
      have "hs_trace s = fifo_events e" using inv that assms(2) by (simp add: hs_inv_def fifo_events_def)
      with creat_one_ok [OF assms(1,4,5)] show ?thesis by auto
    qed
    moreover have "hs_child s = C_exited \<Longrightarrow> \<not> fe_exists e" using inv assms(2) by (simp add: hs_inv_def)
    moreover note hs_stuck_cases [OF that(2) inv]
    ultimately show ?thesis by (cases "hs_parent s = P_opened") (simp_all, blast)
  qed
  have "\<exists>s. (hs_step ?n ?n True)\<^sup>*\<^sup>* (hs_init files) s \<and> hs_stuck ?n ?n True s \<and>
      hs_parent s = P_opening \<and> hs_child s = C_exited" if new: "\<not> fe_exists e"
  proof -
    obtain s where s: "(hs_step ?n ?n True)\<^sup>*\<^sup>* (hs_init files) s" "hs_parent s = P_opening" "hs_child s = C_exited"
      using hs_child_first [of ?n files] new assms(2) by auto
    then have "hs_stuck ?n ?n True s" by (auto simp: hs_stuck_def elim!: hs_stepE)
    with s show ?thesis by blast
  qed
  moreover have "\<forall>mk s s'. hs_step ?n ?n mk s s' \<longrightarrow> hs_work s' < hs_work s" using hs_step_work by blast
  ultimately show ?thesis unfolding assms(3) using all hs_ends by (intro conjI allI impI) blast+
qed

theorem fifo_handshake_witness:
  "\<exists>s. (hs_step (fifo_name 100) (fifo_name 100) True)\<^sup>*\<^sup>* (hs_init {}) s \<and>
     hs_stuck (fifo_name 100) (fifo_name 100) True s \<and> hs_parent s = P_opening \<and> hs_child s = C_exited"
proof -
  let ?e = "\<lparr>fe_pid = 100, fe_exists = False, fe_mkfifo = 0, fe_open = 5\<rparr>"
  let ?t = "empty_iptab\<lparr>t_store := [2 \<mapsto> ip_entry ([0x31], [0x61])]\<rparr>"
  have "ce_pid ex_client_env = 100" by (simp add: ex_client_env_def)
  with fifo_handshake [of ?e "{}" ex_client_env "replicate 64 0" ?t 2 "ip_entry ([0x31], [0x61])"] show ?thesis
    by (simp add: env_ok_def)
qed

end
