(* ===== verification/Children.thy ===== *)
theory Children
  imports Client_Process
begin

section \<open>Stopping the clients: \<open>UpdateCoapclient\<close> among the child processes\<close>

text \<open>
  \<open>UpdateCoapclient\<close> sends each client the close signal and calls \<open>wait\<close>, which returns as soon as any
  child has ended.  The children run beside it: clients on their way through their set-up, and the
  two servers.  A child that has ended stays a zombie until \<open>wait\<close> takes it.
\<close>

subsection \<open>Steps\<close>

datatype child_state = Runs dispositions | Closing | Zombie

text \<open>The pids of the clients still to be stopped; at \<open>Up_wait\<close> one has just got the signal.\<close>

datatype update_pc = Up_kill "int list" | Up_wait "int list" | Up_done

record family =
  fm_child :: "int \<Rightarrow> child_state option"
  fm_pc :: update_pc
  fm_events :: "proc_event list"

text \<open>The close signal arrives at a running child; at a zombie, or at no child, it has no effect.\<close>

definition closed :: "child_state \<Rightarrow> child_state option" where
  "closed c =
     (case c of
        Runs ds \<Rightarrow> map_option (\<lambda>r. case r of Running ds' \<Rightarrow> Runs ds' | Exited \<Rightarrow> Closing) (client_signal ds COAP_CLOSE_SIGNAL)
      | _ \<Rightarrow> Some c)"

text \<open>
  Steps that happen of themselves: the parent goes on, a child that got the signal ends.  Without a
  child to wait for, \<open>wait\<close> returns at once.
\<close>

inductive up_step :: "family \<Rightarrow> family \<Rightarrow> bool" where
  up_kill: "fm_pc s = Up_kill (p # ps) \<Longrightarrow> fm_child s p = Some c \<Longrightarrow> closed c = Some c' \<Longrightarrow>
     up_step s (s\<lparr>fm_child := (fm_child s)(p \<mapsto> c'), fm_pc := Up_wait ps,
       fm_events := fm_events s @ [Kill_client p]\<rparr>)"
| up_kill_gone: "fm_pc s = Up_kill (p # ps) \<Longrightarrow> fm_child s p = None \<Longrightarrow>
     up_step s (s\<lparr>fm_pc := Up_wait ps, fm_events := fm_events s @ [Kill_client p]\<rparr>)"
| up_end: "fm_pc s = Up_kill [] \<Longrightarrow> up_step s (s\<lparr>fm_pc := Up_done\<rparr>)"
| up_wait: "fm_pc s = Up_wait ps \<Longrightarrow> fm_child s q = Some Zombie \<Longrightarrow>
     up_step s (s\<lparr>fm_child := (fm_child s)(q := None), fm_pc := Up_kill ps, fm_events := fm_events s @ [Wait_child]\<rparr>)"
| up_wait_none: "fm_pc s = Up_wait ps \<Longrightarrow> fm_child s = Map.empty \<Longrightarrow>
     up_step s (s\<lparr>fm_pc := Up_kill ps, fm_events := fm_events s @ [Wait_child]\<rparr>)"
| child_ends: "fm_child s q = Some Closing \<Longrightarrow> up_step s (s\<lparr>fm_child := (fm_child s)(q \<mapsto> Zombie)\<rparr>)"

text \<open>What may happen besides: a client registers its handlers, any child ends by itself.\<close>

inductive env_step :: "int set \<Rightarrow> family \<Rightarrow> family \<Rightarrow> bool" for clients where
  child_registers: "q \<in> clients \<Longrightarrow> fm_child s q = Some (Runs ds) \<Longrightarrow>
     env_step clients s (s\<lparr>fm_child := (fm_child s)(q \<mapsto> Runs (client_signals ds))\<rparr>)"
| child_dies: "fm_child s q = Some (Runs ds) \<Longrightarrow>
     env_step clients s (s\<lparr>fm_child := (fm_child s)(q \<mapsto> Zombie)\<rparr>)"

inductive_cases up_stepE: "up_step s s'"
inductive_cases env_stepE: "env_step clients s s'"

definition family_step :: "int set \<Rightarrow> family \<Rightarrow> family \<Rightarrow> bool" where
  "family_step clients s s' \<longleftrightarrow> up_step s s' \<or> env_step clients s s'"

definition update_start :: "(int \<Rightarrow> child_state option) \<Rightarrow> int list \<Rightarrow> family" where
  "update_start ch pids = \<lparr>fm_child = ch, fm_pc = Up_kill pids, fm_events = []\<rparr>"

subsection \<open>The invariant\<close>

text \<open>A child that has not got a signal that ends it, and has not ended.\<close>

definition unsignalled :: "child_state option \<Rightarrow> bool" where
  "unsignalled c \<longleftrightarrow> (\<exists>ds. c = Some (Runs ds))"

lemma unsignalled_simps [simp]: "unsignalled (Some (Runs ds))" "\<not> unsignalled (Some Closing)" "\<not> unsignalled (Some Zombie)" "\<not> unsignalled None"
  by (simp_all add: unsignalled_def)

lemma unsignalled_cases: "\<not> unsignalled c \<Longrightarrow> c \<in> {None, Some Zombie, Some Closing}"
proof (cases c)
  case (Some d)
  then show "\<not> unsignalled c \<Longrightarrow> c \<in> {None, Some Zombie, Some Closing}" by (cases d) simp_all
qed simp

text \<open>The close signal ends a client before and after it has registered its handlers.\<close>

definition closes :: "child_state option \<Rightarrow> bool" where
  "closes c \<longleftrightarrow> (\<forall>ds. c = Some (Runs ds) \<longrightarrow> ds COAP_CLOSE_SIGNAL \<in> {Sig_default, Run_Close_Sig})"

lemma closes_simps [simp]: "closes (Some Closing)" "closes (Some Zombie)" "closes None"
  "closes (Some (Runs ds)) \<Longrightarrow> closes (Some (Runs (client_signals ds)))"
  by (simp_all add: closes_def client_signals_def)

lemma closed_ends: "closes (Some c) \<Longrightarrow> \<exists>c'. closed c = Some c' \<and> c' \<in> {Closing, Zombie}"
  by (cases c) (auto simp: closed_def closes_def client_signal_def Close_Sig_def)

fun rest_of :: "update_pc \<Rightarrow> int list" where
  "rest_of (Up_kill ps) = ps"
| "rest_of (Up_wait ps) = ps"
| "rest_of Up_done = []"

text \<open>The wait that is due.\<close>

fun due :: "update_pc \<Rightarrow> proc_event list" where
  "due (Up_wait ps) = [Wait_child]"
| "due _ = []"

definition stops :: "int list \<Rightarrow> proc_event list" where
  "stops ks = concat (map (\<lambda>p. [Kill_client p, Wait_child]) ks)"

lemma stops_simps [simp]: "stops [] = []" "stops (ks @ ls) = stops ks @ stops ls" "stops [p] = [Kill_client p, Wait_child]"
  by (simp_all add: stops_def)

text \<open>\<open>ks\<close> are the clients killed so far: none of them unsignalled, and as many children have been taken.\<close>

definition fm_inv :: "int set \<Rightarrow> int list \<Rightarrow> family \<Rightarrow> bool" where
  "fm_inv D pids s \<longleftrightarrow>
     finite D \<and> distinct pids \<and> set pids \<subseteq> D \<and> dom (fm_child s) \<subseteq> D \<and> (\<forall>q \<in> set pids. closes (fm_child s q)) \<and>
     (\<exists>ks. pids = ks @ rest_of (fm_pc s) \<and> (\<forall>p \<in> set ks. \<not> unsignalled (fm_child s p)) \<and>
        card (D - dom (fm_child s)) + length (due (fm_pc s)) = length ks \<and> fm_events s @ due (fm_pc s) = stops ks)"

lemma fm_invE:
  assumes "fm_inv D pids s"
  obtains ks where "finite D" "distinct pids" "set pids \<subseteq> D" "dom (fm_child s) \<subseteq> D"
    "\<forall>q \<in> set pids. closes (fm_child s q)" "pids = ks @ rest_of (fm_pc s)" "\<forall>p \<in> set ks. \<not> unsignalled (fm_child s p)"
    "card (D - dom (fm_child s)) + length (due (fm_pc s)) = length ks" "fm_events s @ due (fm_pc s) = stops ks"
  using assms unfolding fm_inv_def by blast

lemma fm_invI:
  assumes "finite D" "distinct pids" "set pids \<subseteq> D" "dom (fm_child s) \<subseteq> D" "\<forall>q \<in> set pids. closes (fm_child s q)"
    and "pids = ks @ rest_of (fm_pc s)" "\<forall>p \<in> set ks. \<not> unsignalled (fm_child s p)"
    and "card (D - dom (fm_child s)) + length (due (fm_pc s)) = length ks" "fm_events s @ due (fm_pc s) = stops ks"
  shows "fm_inv D pids s"
  using assms unfolding fm_inv_def by blast

lemma fm_inv_start:
  assumes "finite (dom ch)" "distinct pids" "set pids \<subseteq> dom ch" "\<forall>q \<in> set pids. closes (ch q)"
  shows "fm_inv (dom ch) pids (update_start ch pids)"
  using assms by (simp add: fm_inv_def update_start_def)

text \<open>A child goes from one state to another.\<close>

lemma fm_inv_child:
  assumes inv: "fm_inv D pids s" and q: "fm_child s q = Some c" and run: "unsignalled (Some c') \<Longrightarrow> unsignalled (Some c)"
    and cl: "q \<in> set pids \<Longrightarrow> closes (Some c')"
  shows "fm_inv D pids (s\<lparr>fm_child := (fm_child s)(q \<mapsto> c')\<rparr>)"
  using inv
proof (rule fm_invE, goal_cases)
  case (1 ks)
  have "dom ((fm_child s)(q \<mapsto> c')) = dom (fm_child s)" using q by auto
  moreover have "\<forall>p \<in> set ks. \<not> unsignalled (((fm_child s)(q \<mapsto> c')) p)" using 1(7) q run by auto
  ultimately show ?case using 1 cl by (intro fm_invI [where ks = ks]) simp_all
qed

text \<open>The parent sends the signal; after that the client is no longer unsignalled.\<close>

lemma fm_inv_kill:
  assumes inv: "fm_inv D pids s" and pc: "fm_pc s = Up_kill (p # ps)" and p: "\<not> unsignalled (fm_child s p)"
  shows "fm_inv D pids (s\<lparr>fm_pc := Up_wait ps, fm_events := fm_events s @ [Kill_client p]\<rparr>)"
  using inv
proof (rule fm_invE, goal_cases)
  case (1 ks)
  with pc p show ?case by (intro fm_invI [where ks = "ks @ [p]"]) auto
qed

text \<open>\<open>wait\<close> takes a child.\<close>

lemma fm_inv_wait:
  assumes inv: "fm_inv D pids s" and pc: "fm_pc s = Up_wait ps" and q: "fm_child s q = Some Zombie"
  shows "fm_inv D pids (s\<lparr>fm_child := (fm_child s)(q := None), fm_pc := Up_kill ps,
     fm_events := fm_events s @ [Wait_child]\<rparr>)"
  using inv
proof (rule fm_invE, goal_cases)
  case (1 ks)
  have "q \<in> D" "finite D" using 1 q by auto
  moreover have "D - dom ((fm_child s)(q := None)) = insert q (D - dom (fm_child s))"
    using \<open>q \<in> D\<close> by auto
  ultimately have "card (D - dom ((fm_child s)(q := None))) = Suc (card (D - dom (fm_child s)))"
    using q by (simp add: domI)
  with 1 pc show ?case by (intro fm_invI [where ks = ks]) auto
qed

text \<open>
  The clients killed are more than the children taken, so that one of them is still there, ending or
  ended.
\<close>

lemma one_left:
  assumes inv: "fm_inv D pids s" and pc: "fm_pc s = Up_wait ps"
  shows "\<exists>p \<in> set pids. fm_child s p \<in> {Some Closing, Some Zombie}"
  using inv
proof (rule fm_invE, goal_cases)
  case (1 ks)
  have "card (set ks) = length ks" using 1 by (simp add: distinct_card)
  then have "card (D - dom (fm_child s)) < card (set ks)" using 1(8) pc by simp
  moreover have "finite (D - dom (fm_child s))" using 1 by blast
  ultimately have "\<not> set ks \<subseteq> D - dom (fm_child s)" by (meson card_mono leD)
  then obtain p where "p \<in> set ks" "p \<notin> D - dom (fm_child s)" by blast
  moreover have "set ks \<subseteq> set pids" using 1(6) by simp
  ultimately have p: "p \<in> set pids" "p \<in> dom (fm_child s)" "\<not> unsignalled (fm_child s p)" using 1 by auto
  then obtain c where "fm_child s p = Some c" by blast
  with p show ?case by (cases c) auto
qed

lemma fm_inv_up:
  assumes inv: "fm_inv D pids s" and step: "up_step s s'"
  shows "fm_inv D pids s'"
  using step
proof (rule up_stepE, goal_cases)
  case (1 p ps c c')
  have p: "p \<in> set pids" using inv 1(2) by (auto elim: fm_invE)
  then have "closes (Some c)" using inv 1(3) by (auto elim!: fm_invE)
  then have c': "\<not> unsignalled (Some c')" "closes (Some c')" using closed_ends [of c] 1(4) by auto
  have "fm_inv D pids (s\<lparr>fm_child := (fm_child s)(p \<mapsto> c')\<rparr>)" using fm_inv_child [OF inv 1(3)] c' by blast
  from fm_inv_kill [OF this, of p ps] show ?case using 1 c' by simp
next
  case (2 p ps)
  then show ?case using fm_inv_kill [OF inv] by simp
next
  case 3
  with inv show ?case by (simp add: fm_inv_def)
next
  case (4 ps q)
  then show ?case using fm_inv_wait [OF inv] by simp
next
  case (5 ps)
  with one_left [OF inv] show ?case by auto
next
  case (6 q)
  with fm_inv_child [OF inv, of q Closing Zombie] show ?case by simp
qed

lemma fm_inv_env: "fm_inv D pids s \<Longrightarrow> env_step (set pids) s s' \<Longrightarrow> fm_inv D pids s'"
proof (erule env_stepE, goal_cases)
  case (1 q ds)
  then have "closes (Some (Runs ds))" by (auto elim!: fm_invE)
  with 1 show ?case by (simp add: fm_inv_child)
next
  case (2 q ds)
  then show ?case by (simp add: fm_inv_child)
qed

subsection \<open>The parent gets through\<close>

fun pc_work :: "update_pc \<Rightarrow> nat" where
  "pc_work (Up_kill ps) = 3 * length ps + 1"
| "pc_work (Up_wait ps) = 3 * length ps + 2"
| "pc_work Up_done = 0"

definition closing :: "family \<Rightarrow> int set" where
  "closing s = {q. fm_child s q = Some Closing}"

definition fm_work :: "family \<Rightarrow> nat" where
  "fm_work s = pc_work (fm_pc s) + card (closing s)"

lemma finite_closing: "fm_inv D pids s \<Longrightarrow> finite (closing s)"
  by (rule finite_subset [of _ D]) (auto simp: closing_def elim!: fm_invE)

lemma fm_work_up:
  assumes inv: "fm_inv D pids s" and step: "up_step s s'"
  shows "fm_work s' < fm_work s"
  using step
proof (rule up_stepE, goal_cases)
  case (1 p ps c c')
  then have "closing s' \<subseteq> insert p (closing s)" by (auto simp: closing_def split: if_splits)
  then have "card (closing s') \<le> card (insert p (closing s))" using finite_closing [OF inv] by (simp add: card_mono)
  also have "\<dots> \<le> Suc (card (closing s))" by (simp add: card_insert_if finite_closing [OF inv])
  finally show ?case using 1 by (simp add: fm_work_def)
next
  case (4 ps q)
  then have "closing s' = closing s" by (auto simp: closing_def)
  with 4 show ?case by (simp add: fm_work_def)
next
  case (6 q)
  then have "closing s' = closing s - {q}" "q \<in> closing s" by (auto simp: closing_def)
  with finite_closing [OF inv] have "card (closing s') < card (closing s)" by (metis card_Diff1_less)
  with 6 show ?case by (simp add: fm_work_def)
qed (simp_all add: fm_work_def closing_def)

interpretation update: draining up_step "fm_inv D pids" fm_work for D pids
  by unfold_locales (auto intro: fm_inv_up fm_work_up)

interpretation family: guarded_system "family_step (set pids)" "\<lambda>_. True" "fm_inv D pids" for D pids
  by unfold_locales (auto simp: family_step_def intro: fm_inv_up fm_inv_env)

lemma update_moves:
  assumes inv: "fm_inv D pids s" and pc: "fm_pc s \<noteq> Up_done"
  shows "\<exists>s'. up_step s s'"
proof (cases "fm_pc s")
  case (Up_kill ps)
  show ?thesis
  proof (cases ps)
    case Nil
    with Up_kill show ?thesis by (blast intro: up_end)
  next
    case (Cons p ps')
    show ?thesis
    proof (cases "fm_child s p")
      case None
      with Up_kill Cons show ?thesis by (blast intro: up_kill_gone)
    next
      case (Some c)
      have "p \<in> set pids" using inv Up_kill Cons by (auto elim!: fm_invE)
      with Some inv have "closes (Some c)" by (auto elim!: fm_invE)
      with Some Up_kill Cons show ?thesis using closed_ends [of c] by (blast intro: up_kill)
    qed
  qed
next
  case (Up_wait ps)
  with one_left [OF inv] show ?thesis by (blast intro: up_wait child_ends)
qed (use pc in simp)

lemma update_done:
  assumes inv: "fm_inv D pids s" and pc: "fm_pc s = Up_done"
  shows "fm_events s = stops pids" "\<forall>p \<in> set pids. \<not> unsignalled (fm_child s p)" "card (D - dom (fm_child s)) = length pids"
    "dom (fm_child s) \<subseteq> D" "(\<forall>q \<in> D - set pids. unsignalled (fm_child s q)) \<Longrightarrow> dom (fm_child s) = D - set pids"
proof -
  show *: "fm_events s = stops pids" "\<forall>p \<in> set pids. \<not> unsignalled (fm_child s p)" "card (D - dom (fm_child s)) = length pids"
    "dom (fm_child s) \<subseteq> D"
    by (rule fm_invE [OF inv], simp add: pc)+
  assume others: "\<forall>q \<in> D - set pids. unsignalled (fm_child s q)"
  have "D - dom (fm_child s) \<subseteq> set pids" using others by (auto simp: unsignalled_def)
  moreover have "card (set pids) = length pids" using inv by (simp add: fm_inv_def distinct_card)
  ultimately have "D - dom (fm_child s) = set pids" using *(3) by (metis card_subset_eq List.finite_set)
  with * show "dom (fm_child s) = D - set pids" by blast
qed

lemma up_steps_family: "up_step\<^sup>*\<^sup>* s s' \<Longrightarrow> (family_step clients)\<^sup>*\<^sup>* s s'"
  by (erule rtranclp_mono [THEN predicate2D, rotated]) (auto simp: family_step_def)

subsection \<open>The clients of the table\<close>

definition client_pids :: "coapIP list \<Rightarrow> int list" where
  "client_pids es = map (\<lambda>c. the (ci_pid c)) es"

definition update_ready :: "iptab \<Rightarrow> coapIP list \<Rightarrow> (int \<Rightarrow> child_state option) \<Rightarrow> bool" where
  "update_ready t es ch \<longleftrightarrow>
     (\<exists>xs. tab t xs es) \<and> (\<forall>c \<in> set es. ci_pid c \<noteq> None) \<and> finite (dom ch) \<and> distinct (client_pids es) \<and>
     set (client_pids es) \<subseteq> dom ch \<and> (\<forall>p \<in> set (client_pids es). closes (ch p))"

lemma kill_from_stops:
  assumes "update_ready t es ch"
  shows "kill_from t (l_head (t_list t)) = Some (stops (client_pids es))"
proof -
  obtain xs where "tab t xs es" using assms by (auto simp: update_ready_def)
  then have "chain (t_heap t) (l_head (t_list t)) xs None" "map (\<lambda>x. t_store t (snd x)) xs = map Some es"
    unfolding tab_def lrep_def by blast+
  with assms show ?thesis
    using kill_from_ok unfolding update_ready_def stops_def client_pids_def by (simp add: comp_def)
qed

text \<open>
  C15. Stopping the clients among all child processes.  In every interleaving with the clients (at any
  point of their set-up), and with children that end by themselves, \<open>UpdateCoapclient\<close> is never blocked
  in \<open>wait\<close> for good: until it is done there is a step, and a state can be reached in which it is done and
  all clients of the table have ended.  When it is done, it has sent the signals of the table's clients
  in order, each followed by a \<open>wait\<close>, and it has taken as many children as there were clients.  Each of
  the clients then has been taken, or has ended, or has got the signal and is about to end: the code does
  not make sure that it has ended.  If the other children are all still running, the children taken
  are exactly the clients.
\<close>

theorem update_stops_clients:
  assumes "update_ready t es ch"
    and "(family_step (set (client_pids es)))\<^sup>*\<^sup>* (update_start ch (client_pids es)) s"
  shows "(fm_pc s \<noteq> Up_done \<longrightarrow> (\<exists>s'. up_step s s')) \<and>
     (\<exists>s'. up_step\<^sup>*\<^sup>* s s' \<and> fm_pc s' = Up_done \<and>
        (\<forall>p \<in> set (client_pids es). fm_child s' p \<in> {None, Some Zombie})) \<and>
     (fm_pc s = Up_done \<longrightarrow>
        kill_from t (l_head (t_list t)) = Some (fm_events s) \<and>
        (\<forall>p \<in> set (client_pids es). fm_child s p \<in> {None, Some Zombie, Some Closing}) \<and>
        dom (fm_child s) \<subseteq> dom ch \<and> card (dom ch - dom (fm_child s)) = length es \<and>
        ((\<forall>q \<in> dom ch - set (client_pids es). \<exists>ds. fm_child s q = Some (Runs ds)) \<longrightarrow>
           dom (fm_child s) = dom ch - set (client_pids es)))"
proof -
  have "fm_inv (dom ch) (client_pids es) (update_start ch (client_pids es))"
    using assms(1) by (intro fm_inv_start) (simp_all add: update_ready_def)
  then have inv: "fm_inv (dom ch) (client_pids es) s"
    using family.inv_reach [OF assms(2)] by blast
  obtain s' where s': "up_step\<^sup>*\<^sup>* s s'" "fm_inv (dom ch) (client_pids es) s'" "\<forall>s''. \<not> up_step s' s''"
    using update.comes_to_rest [OF inv] by blast
  have d': "fm_pc s' = Up_done" using update_moves [OF s'(2)] s'(3) by blast
  have "fm_child s' p \<in> {None, Some Zombie}" if "p \<in> set (client_pids es)" for p
    using update_done(2) [OF s'(2) d'] that s'(3) child_ends [of s' p] unsignalled_cases by blast
  then have fin: "\<exists>s'. up_step\<^sup>*\<^sup>* s s' \<and> fm_pc s' = Up_done \<and>
      (\<forall>p \<in> set (client_pids es). fm_child s' p \<in> {None, Some Zombie})" using s'(1) d' by blast
  have l: "length (client_pids es) = length es" by (simp add: client_pids_def)
  have "\<forall>p \<in> set (client_pids es). fm_child s p \<in> {None, Some Zombie, Some Closing}" if "fm_pc s = Up_done"
    using update_done(2) [OF inv that] unsignalled_cases by blast
  then show ?thesis
    using fin update_moves [OF inv] update_done [OF inv, unfolded l] kill_from_stops [OF assms(1)]
    by (simp add: unsignalled_def)
qed

definition two_clients :: "coapIP list" where
  "two_clients = [(ip_entry ([0x31], [0x61]))\<lparr>ci_pid := Some 7\<rparr>, (ip_entry ([0x32], [0x62]))\<lparr>ci_pid := Some 8\<rparr>]"

definition two_table :: iptab where
  "two_table = \<lparr>t_heap = [1 \<mapsto> \<lparr>e_data = 2, e_next = Some 3\<rparr>, 3 \<mapsto> \<lparr>e_data = 4, e_next = None\<rparr>],
     t_list = \<lparr>l_size = 2, l_destroy = Some free_ip, l_head = Some 1, l_tail = Some 3\<rparr>,
     t_store = [2 \<mapsto> two_clients ! 0, 4 \<mapsto> two_clients ! 1], t_calls = 5\<rparr>"

text \<open>Two clients, one of them before its set-up, beside the two servers 1 and 2.\<close>

definition two_children :: "int \<Rightarrow> child_state option" where
  "two_children = [1 \<mapsto> Runs inherited, 2 \<mapsto> Runs inherited, 7 \<mapsto> Runs (client_signals inherited), 8 \<mapsto> Runs inherited]"

lemma two_ready: "update_ready two_table two_clients two_children" "client_pids two_clients = [7, 8]"
proof -
  show *: "client_pids two_clients = [7, 8]" by (simp add: client_pids_def two_clients_def)
  have "tab two_table [(1, 2), (3, 4)] two_clients"
    by (simp add: tab_def lrep_def two_table_def two_clients_def)
  moreover have "\<forall>c \<in> set two_clients. ci_pid c \<noteq> None" by (simp add: two_clients_def)
  ultimately show "update_ready two_table two_clients two_children"
    using * by (auto simp: update_ready_def two_children_def closes_def inherited_def client_signals_def)
qed

theorem update_stops_clients_witness:
  "\<exists>s. up_step\<^sup>*\<^sup>* (update_start two_children [7, 8]) s \<and> fm_pc s = Up_done \<and>
     kill_from two_table (Some 1) = Some (fm_events s) \<and>
     fm_child s 7 \<in> {None, Some Zombie} \<and> fm_child s 8 \<in> {None, Some Zombie}"
proof -
  note th = update_stops_clients [OF two_ready(1), unfolded two_ready(2)]
  obtain s where s: "up_step\<^sup>*\<^sup>* (update_start two_children [7, 8]) s" "fm_pc s = Up_done"
    "\<forall>p \<in> set [7, 8]. fm_child s p \<in> {None, Some Zombie}"
    using th [OF rtranclp.rtrancl_refl] by blast
  moreover have "l_head (t_list two_table) = Some 1" by (simp add: two_table_def)
  ultimately show ?thesis using th [OF up_steps_family [OF s(1)]] by auto
qed

text \<open>
  \<open>wait(NULL)\<close> does not wait for the client that got the signal: when a server has ended before, it is
  the server that is taken, and the update is done while the client may not even have ended.
\<close>

lemma wait_takes_another_child:
  assumes "update_ready t [c] ch" and "p = the (ci_pid c)" and "unsignalled (ch p)" and "ch q = Some Zombie"
  shows "\<exists>s. up_step\<^sup>*\<^sup>* (update_start ch [p]) s \<and> fm_pc s = Up_done \<and> fm_child s p = Some Closing \<and> fm_child s q = None"
proof -
  obtain ds where ds: "ch p = Some (Runs ds)" "closes (ch p)" using assms by (auto simp: unsignalled_def update_ready_def client_pids_def)
  then have "closed (Runs ds) = Some Closing"
    by (auto simp: closed_def closes_def client_signal_def Close_Sig_def)
  with ds have "up_step (update_start ch [p]) \<lparr>fm_child = ch(p \<mapsto> Closing), fm_pc = Up_wait [], fm_events = [Kill_client p]\<rparr>"
    using up_kill [of "update_start ch [p]" p "[]" "Runs ds" Closing] by (simp add: update_start_def)
  moreover have pq: "p \<noteq> q" using ds assms(4) by auto
  then have "up_step \<lparr>fm_child = ch(p \<mapsto> Closing), fm_pc = Up_wait [], fm_events = [Kill_client p]\<rparr>
      \<lparr>fm_child = ch(p \<mapsto> Closing, q := None), fm_pc = Up_kill [], fm_events = [Kill_client p, Wait_child]\<rparr>" (is "up_step ?b ?c")
    using up_wait [of ?b "[]" q] assms(4) by simp
  moreover have "up_step ?c (?c\<lparr>fm_pc := Up_done\<rparr>)" by (rule up_end) simp
  ultimately have "up_step\<^sup>*\<^sup>* (update_start ch [p]) (?c\<lparr>fm_pc := Up_done\<rparr>)"
    by (blast intro: rtranclp_trans r_into_rtranclp)
  with pq show ?thesis by (intro exI [of _ "?c\<lparr>fm_pc := Up_done\<rparr>"]) simp
qed

end
