(* ===== verification/Startup.thy ===== *)
theory Startup
  imports Dispatch
begin

section \<open>Starting the gateway: \<open>main\<close> in user/main.c\<close>

text \<open>
  \<open>main\<close> sets up queue, semaphore, mutex, database, log and serial port, starts the two threads, and only
  then initialises the list of devices, forks the TFTP server, reads the device table, forks the
  clients and forks the CoAP server.  Results of the system calls are arguments.  Static storage is
  zero at the start.
\<close>

subsection \<open>Sequential part\<close>

record main_env =
  me_sem :: int
  me_mutex :: int
  me_db :: int
  me_zlog :: int
  me_category :: bool
  me_mraa :: mraa_env
  me_uart_thread :: int
  me_trans_thread :: int
  me_tftp_fork :: int
  me_coap_fork :: int
  me_file :: "u8 list option"
  me_buff :: "u8 list"
  me_forks :: "nat \<Rightarrow> fork_env"

text \<open>How far \<open>main\<close> got, in its order.\<close>

datatype main_event =
    Handle_tftp_signal | Queue_ready | Sem_ready | Mutex_ready | Database_ready | Log_ready
  | Port_ready "uart_event list" | Uart_thread_started | Trans_thread_started | List_ready
  | Forked_tftp int | Clients_started "proc_event list" | Forked_coap int

text \<open>
  How it ends: by \<open>exit\<close> or \<open>return\<close> with a code, by an \<open>exit\<close> while starting the clients, or in the
  endless loop; in the children of the forks it goes over to the code of the child, which never
  returns.
\<close>

datatype main_end =
    Main_exit int | Main_return int | Clients_failed | Main_loop
  | Tftp_server | Coap_server | Client_of addr

definition zero_list :: "('a, 's) List_" where
  "zero_list = \<lparr>l_size = 0, l_destroy = None, l_head = None, l_tail = None\<rparr>"

definition zero_table :: iptab where
  "zero_table = \<lparr>t_heap = Map.empty, t_list = zero_list, t_store = Map.empty, t_calls = 0\<rparr>"

record globals =
  gl_gw :: gateway
  gl_tftp_pid :: int
  gl_coap_pid :: int

definition zero_globals :: globals where
  "zero_globals =
     \<lparr>gl_gw = \<lparr>g_sh = \<lparr>sh_heap = Map.empty, sh_queue = zero_list, sh_msgs = Map.empty, sh_sem = 0, sh_calls = 0,
          sh_db = []\<rparr>,
        g_uart = \<lparr>u_buf = replicate UART_RD_BUF_SIZE 0, u_count = 0\<rparr>, g_upc = U_read, g_tab = zero_table,
        g_msg = None, g_tpc = T_wait, g_writes = [], g_in = []\<rparr>,
      gl_tftp_pid = 0, gl_coap_pid = 0\<rparr>"

text \<open>Up to the start of the threads.\<close>

definition main_init :: "main_env \<Rightarrow> globals \<Rightarrow> main_event list \<times> (main_end + globals)" where
  "main_init e g =
     (let sh = g_sh (gl_gw g);
          g1 = g\<lparr>gl_gw := (gl_gw g)\<lparr>g_sh := sh\<lparr>sh_queue := queue_init (Some (\<lambda>a. free_msg (Some a)))\<rparr>\<rparr>\<rparr>;
          ev1 = [Handle_tftp_signal, Queue_ready]
      in
        if me_sem e = -1 then (ev1, Inl (Main_exit (-1)))
        else
          let g2 = g1\<lparr>gl_gw := (gl_gw g1)\<lparr>g_sh := (g_sh (gl_gw g1))\<lparr>sh_sem := 0\<rparr>\<rparr>\<rparr>; ev2 = ev1 @ [Sem_ready] in
          if me_mutex e \<noteq> 0 then (ev2, Inl (Main_exit (-1)))
          else
            let ev3 = ev2 @ [Mutex_ready] in
            (case Open_db (me_db e) of
               Exited \<Rightarrow> (ev3, Inl (Main_exit 0))
             | Running _ \<Rightarrow>
                 let ev4 = ev3 @ [Database_ready] in
                 if me_zlog e \<noteq> 0 then (ev4, Inl (Main_return (-1)))
                 else if \<not> me_category e then (ev4, Inl (Main_return (-2)))
                 else
                   let ev5 = ev4 @ [Log_ready, Port_ready (Uart_Init (me_mraa e) 115200)] in
                   if me_uart_thread e \<noteq> 0 then (ev5, Inl (Main_exit (-1)))
                   else
                     let ev6 = ev5 @ [Uart_thread_started] in
                     if me_trans_thread e \<noteq> 0 then (ev6, Inl (Main_exit (-1)))
                     else (ev6 @ [Trans_thread_started], Inr g2)))"

text \<open>From the initialisation of the list on.\<close>

definition set_table :: "iptab \<Rightarrow> globals \<Rightarrow> globals" where
  "set_table t g = g\<lparr>gl_gw := (gl_gw g)\<lparr>g_tab := t\<rparr>\<rparr>"

definition main_list_init :: "globals \<Rightarrow> globals" where
  "main_list_init g = set_table ((g_tab (gl_gw g))\<lparr>t_list := list_init (Some free_ip)\<rparr>) g"

definition main_children ::
  "(nat \<Rightarrow> addr option) \<Rightarrow> main_env \<Rightarrow> globals \<Rightarrow> (main_event list \<times> main_end \<times> globals) option" where
  "main_children mal e g =
     (let g1 = main_list_init g; ev1 = [List_ready, Forked_tftp (me_tftp_fork e)] in
      if me_tftp_fork e = 0 then Some (ev1, Tftp_server, g1)
      else
        let g2 = (if me_tftp_fork e > 0 then g1\<lparr>gl_tftp_pid := me_tftp_fork e\<rparr> else g1) in
        (case CreatCoapclient mal (me_buff e) (me_file e) (me_forks e) (g_tab (gl_gw g2)) of
           None \<Rightarrow> None
         | Some Exit \<Rightarrow> Some (ev1, Clients_failed, g2)
         | Some (Client d) \<Rightarrow> Some (ev1, Client_of d, g2)
         | Some (Cont (t, evs)) \<Rightarrow>
             let g3 = set_table t g2; ev2 = ev1 @ [Clients_started evs, Forked_coap (me_coap_fork e)] in
             if me_coap_fork e = 0 then Some (ev2, Coap_server, g3)
             else
               Some (ev2, Main_loop, if me_coap_fork e > 0 then g3\<lparr>gl_coap_pid := me_coap_fork e\<rparr> else g3)))"

definition main_fn ::
  "(nat \<Rightarrow> addr option) \<Rightarrow> main_env \<Rightarrow> globals \<Rightarrow> (main_event list \<times> main_end \<times> globals) option" where
  "main_fn mal e g =
     (case main_init e g of
        (evs, Inl r) \<Rightarrow> Some (evs, r, g)
      | (evs, Inr g1) \<Rightarrow> map_option (\<lambda>(evs', r, g2). (evs @ evs', r, g2)) (main_children mal e g1))"

subsection \<open>The threads run while the table is built\<close>

text \<open>
  The threads run from their start on.  So what \<open>main\<close> does to the table afterwards is interleaved with
  their steps: initialising the list, reading the file, and starting the clients, which sets the
  descriptors the dispatch thread writes to.
\<close>

datatype main_pc = M_list | M_parse | M_create | M_run

inductive su_step ::
  "(nat \<Rightarrow> addr) \<Rightarrow> main_env \<Rightarrow> main_pc \<times> gateway \<Rightarrow> main_pc \<times> gateway \<Rightarrow> bool" for f e where
  su_list: "su_step f e (M_list, g) (M_parse, g\<lparr>g_tab := (g_tab g)\<lparr>t_list := list_init (Some free_ip)\<rparr>\<rparr>)"
| su_parse: "ParsTxt (mallocs f) (g_tab g) (me_buff e) (me_file e) = Some (Running t) \<Longrightarrow>
     su_step f e (M_parse, g) (M_create, g\<lparr>g_tab := t\<rparr>)"
| su_create: "creat_from (me_forks e) 0 (g_tab g) (replicate 64 0) (l_head (t_list (g_tab g))) = Some (Cont (t, evs)) \<Longrightarrow>
     su_step f e (M_create, g) (M_run, g\<lparr>g_tab := t\<rparr>)"
| su_threads: "gw_step f g g' \<Longrightarrow> su_step f e (pc, g) (pc, g')"

text \<open>A message for a client whose descriptor is not set: the dispatch thread is undefined.\<close>

definition trans_next :: "gateway \<Rightarrow> gateway \<Rightarrow> bool" where
  "trans_next g g' \<longleftrightarrow> trans_step g = Next g'"

definition held_message :: "gateway \<Rightarrow> addr \<Rightarrow> u8 list \<Rightarrow> bool" where
  "held_message g a s \<longleftrightarrow> g_msg g = Some a \<and> (\<exists>b. sh_msgs (g_sh g) a = Some b \<and> cstr b 0 = Some s)"

lemma tab_nth:
  assumes "tab t xs es" and "k < length xs"
  shows "t_heap t (fst (xs ! k)) = Some \<lparr>e_data = snd (xs ! k), e_next = head_of (drop (Suc k) xs)\<rparr>"
    and "t_store t (snd (xs ! k)) = Some (es ! k)" and "length xs = length es"
proof -
  have t: "chain (t_heap t) (l_head (t_list t)) xs None" "map (\<lambda>x. t_store t (snd x)) xs = map Some es"
    using assms(1) unfolding tab_def lrep_def by blast+
  from chain_nth [OF t(1) assms(2)]
  show "t_heap t (fst (xs ! k)) = Some \<lparr>e_data = snd (xs ! k), e_next = head_of (drop (Suc k) xs)\<rparr>" .
  show l: "length xs = length es" using t(2) by (metis length_map)
  show "t_store t (snd (xs ! k)) = Some (es ! k)" using t(2) assms(2) l by (metis nth_map)
qed

lemma unset_descriptor_undefined:
  assumes t: "tab (g_tab g) xs es" and held: "held_message g a s"
    and pc: "g_tpc g = T_write (head_of (drop k xs))"
    and j: "k \<le> j" "j < length es" "ci_fifo_fd (es ! j) = None" "\<forall>i. k \<le> i \<and> i < j \<longrightarrow> ci_fifo_fd (es ! i) \<noteq> None"
  shows "\<exists>g'. trans_next\<^sup>*\<^sup>* g g' \<and> trans_step g' = Undefined"
  using assms
proof (induction "j - k" arbitrary: g k)
  case 0
  have "length xs = length es" using 0(2) unfolding tab_def by (metis length_map)
  then have k: "k = j" "k < length xs" using 0(1,5,6) by simp_all
  then have pc: "g_tpc g = T_write (Some (fst (xs ! j)))" using 0(4) by (simp add: head_of_drop)
  have "trans_step g = Undefined"
    using 0(7) k tab_nth(1,2) [OF 0(2)] by (simp add: trans_step_def trans_write_def pc)
  then show ?case by blast
next
  case (Suc n)
  have len: "length xs = length es" using Suc(3) unfolding tab_def by (metis length_map)
  then have k: "k < length xs" using Suc(2,7) by simp
  note at = tab_nth [OF Suc(3) k]
  obtain fd where fd: "ci_fifo_fd (es ! k) = Some fd" using Suc(2,9) by fastforce
  obtain b where b: "g_msg g = Some a" "sh_msgs (g_sh g) a = Some b" "cstr b 0 = Some s"
    using Suc(4) by (auto simp: held_message_def)
  let ?g = "g\<lparr>g_writes := g_writes g @ [(fd, s)], g_tpc := T_write (head_of (drop (Suc k) xs))\<rparr>"
  have "trans_next g ?g"
    using Suc(5) k by (simp add: trans_next_def trans_step_def trans_write_def head_of_drop at fd b)
  moreover have "\<exists>g'. trans_next\<^sup>*\<^sup>* ?g g' \<and> trans_step g' = Undefined"
  proof (rule Suc(1))
    show "n = j - Suc k" "Suc k \<le> j" using Suc(2,6) by simp_all
  qed (use Suc in \<open>simp_all add: held_message_def\<close>)
  ultimately show ?case by (meson converse_rtranclp_into_rtranclp)
qed

text \<open>A message \<open>$&\<close> that arrives at once, taken in by the serial thread alone, whatever the table is.\<close>

definition early_shared :: "(nat \<Rightarrow> addr) \<Rightarrow> shared \<Rightarrow> shared" where
  "early_shared f sh = uart_post (sh\<lparr>sh_heap := [f 1 \<mapsto> \<lparr>e_data = f 0, e_next = None\<rparr>],
     sh_queue := (queue_init (Some (\<lambda>a. free_msg (Some a))))\<lparr>l_size := 1, l_head := Some (f 1), l_tail := Some (f 1)\<rparr>,
     sh_calls := 2\<rparr>)"

lemma early_message:
  fixes f :: "nat \<Rightarrow> addr" and t :: iptab
  defines "sh \<equiv> stored_message (replicate 25 0x20) 0 (g_sh (gw_init t)) (f 0) [0x24, 0x26]"
  shows "\<exists>u. (gw_step f)\<^sup>*\<^sup>* (gw_init t) ((gw_init t)\<lparr>g_sh := early_shared f sh, g_uart := u, g_in := [0x24, 0x26]\<rparr>)"
proof -
  let ?now = "replicate 25 (0x20 :: u8)" and ?sh0 = "g_sh (gw_init t)"
  have now: "ctime_text ?now" by (simp add: ctime_text_def)
  have m: "mallocs f (sh_calls ?sh0) = Some (f 0)" by (simp add: mallocs_def gw_init_def)
  have "uart_holds (g_uart (gw_init t)) []" by (simp add: gw_init_def uart_holds_def UART_RD_BUF_SIZE_def)
  from uart_recv_plain [OF this, of "0x24" "mallocs f" ?now 0 ?sh0] obtain u1 where
    u1: "uart_recv (mallocs f) ?now 0 ?sh0 (g_uart (gw_init t)) 0x24 = Some (Running (?sh0, u1, None))"
    "uart_holds u1 [0x24]" by (auto simp: UART_END_FLAG_def)
  let ?g1 = "(gw_init t)\<lparr>g_uart := u1, g_in := [0x24]\<rparr>"
  have "uart_byte (mallocs f) ?now 0 0x24 (gw_init t) = Next ?g1" using u1(1) by (simp add: uart_byte_def gw_init_def)
  then have s1: "gw_step f (gw_init t) ?g1" using step_byte [OF now] by blast
  have "length (msg_text ([0x24] @ [0x26])) \<le> MSG_LIMIT" by (simp add: msg_text_def MSG_LIMIT_def)
  then obtain u2 where u2: "uart_recv (mallocs f) ?now 0 ?sh0 u1 0x26 = Some (Running (sh, u2, Some (f 0)))"
    using uart_recv_piece [where mal = "mallocs f" and sh = ?sh0 and a = "f 0", OF u1(2) _ _ now m, of "0x26" 0]
    by (auto simp: UART_END_FLAG_def UART_START_FLAG_def sh_def)
  let ?g2 = "(gw_init t)\<lparr>g_sh := sh, g_uart := u2, g_in := [0x24, 0x26], g_upc := U_enqueue (f 0)\<rparr>"
  have "uart_byte (mallocs f) ?now 0 0x26 ?g1 = Next ?g2" using u2 by (simp add: uart_byte_def) (simp add: gw_init_def)
  then have s2: "gw_step f ?g1 ?g2" using step_byte [OF now] by blast
  define g3 where "g3 = (case uart_step (mallocs f) ?g2 of Next g \<Rightarrow> g)"
  define g4 where "g4 = (case uart_step (mallocs f) g3 of Next g \<Rightarrow> g)"
  note defs = gw_init_def sh_def stored_message_def uart_step_def uart_enqueue_def early_shared_def uart_post_def
    mallocs_def queue_enqueue_def queue_init_def list_init_def list_ins_next_def inc32_def Let_def
  have 3: "uart_step (mallocs f) ?g2 = Next g3" unfolding g3_def by (simp add: defs)
  have 4: "uart_step (mallocs f) g3 = Next g4" unfolding g4_def g3_def by (simp add: defs)
  have 5: "uart_step (mallocs f) g4 = Next ((gw_init t)\<lparr>g_sh := early_shared f sh, g_uart := uart_clear u2, g_in := [0x24, 0x26]\<rparr>)"
    unfolding g4_def g3_def by (simp add: defs)
  have "(internal f)\<^sup>*\<^sup>* ?g2 ((gw_init t)\<lparr>g_sh := early_shared f sh, g_uart := uart_clear u2, g_in := [0x24, 0x26]\<rparr>)"
    using internal_uart [OF 3] internal_uart [OF 4] internal_uart [OF 5]
    by (meson converse_rtranclp_into_rtranclp rtranclp.rtrancl_refl)
  with s1 s2 internal_steps show ?thesis by (meson converse_rtranclp_into_rtranclp)
qed

lemma early_dispatch:
  fixes f :: "nat \<Rightarrow> addr" and t :: iptab
  defines "sh \<equiv> stored_message (replicate 25 0x20) 0 (g_sh (gw_init t)) (f 0) [0x24, 0x26]"
  assumes "l_size (t_list tb) > 0"
  shows "\<exists>g'. trans_next\<^sup>*\<^sup>* ((gw_init t)\<lparr>g_sh := early_shared f sh, g_uart := u, g_in := [0x24, 0x26], g_tab := tb\<rparr>) g' \<and>
     g_tab g' = tb \<and> held_message g' (f 0) [0x24, 0x26] \<and> g_tpc g' = T_write (l_head (t_list tb))"
proof -
  let ?g = "(gw_init t)\<lparr>g_sh := early_shared f sh, g_uart := u, g_in := [0x24, 0x26], g_tab := tb\<rparr>"
  define g1 where "g1 = (case trans_step ?g of Next g \<Rightarrow> g)"
  define g2 where "g2 = (case trans_step g1 of Next g \<Rightarrow> g)"
  define g3 where "g3 = (case trans_step g2 of Next g \<Rightarrow> g)"
  note defs = gw_init_def sh_def stored_message_def trans_step_def early_shared_def uart_post_def
    queue_dequeue_def queue_init_def list_init_def list_rem_next_def dec32_def Let_def
  have 1: "trans_step ?g = Next g1" unfolding g1_def by (simp add: defs)
  have 2: "trans_step g1 = Next g2" unfolding g2_def g1_def by (simp add: defs)
  have 3: "trans_step g2 = Next g3" unfolding g3_def g2_def g1_def using assms(2) by (simp add: defs)
  have "trans_next\<^sup>*\<^sup>* ?g g3"
    using 1 2 3 by (meson trans_next_def converse_rtranclp_into_rtranclp rtranclp.rtrancl_refl)
  moreover have "g_tab g3 = tb \<and> g_tpc g3 = T_write (l_head (t_list tb)) \<and> g_msg g3 = Some (f 0) \<and>
      sh_msgs (g_sh g3) (f 0) = Some (msg_block [0x24, 0x26])"
    unfolding g3_def g2_def g1_def using assms(2) by (simp add: defs)
  moreover have "cstr (msg_block [0x24, 0x26]) 0 = Some [0x24, 0x26]"
    using cstr_prefix [of "[0x24, 0x26]" "[]" "replicate 509 0"]
    by (simp add: msg_block_def flip: replicate_Suc)
  ultimately show ?thesis by (auto simp: held_message_def)
qed

subsection \<open>A table after the set-up\<close>

lemma zero_table_ready: "tab zero_table [] []" "inj f \<Longrightarrow> new_from f zero_table"
  by (simp_all add: tab_def zero_table_def zero_list_def lrep_def new_from_def)

lemma listed_table:
  defines "t \<equiv> zero_table\<lparr>t_list := list_init (Some free_ip)\<rparr>"
  shows "tab t [] []" "l_destroy (t_list t) = Some free_ip" "inj f \<Longrightarrow> new_from f t"
  by (simp_all add: t_def tab_def zero_table_def zero_list_def lrep_def list_init_def new_from_def)

definition setup_ok :: "main_env \<Rightarrow> bool" where
  "setup_ok e \<longleftrightarrow> me_sem e \<noteq> -1 \<and> me_mutex e = 0 \<and> me_db e = 0 \<and> me_zlog e = 0 \<and> me_category e \<and>
     me_uart_thread e = 0 \<and> me_trans_thread e = 0"

definition setup_events :: "main_env \<Rightarrow> main_event list" where
  "setup_events e = [Handle_tftp_signal, Queue_ready, Sem_ready, Mutex_ready, Database_ready, Log_ready,
     Port_ready (Uart_Init (me_mraa e) 115200), Uart_thread_started, Trans_thread_started]"

lemma main_init_ok:
  "setup_ok e \<Longrightarrow> main_init e zero_globals =
     (setup_events e, Inr (zero_globals\<lparr>gl_gw := gw_init zero_table\<rparr>))"
  by (simp add: main_init_def setup_ok_def setup_events_def zero_globals_def gw_init_def Open_db_def Let_def)

text \<open>A device file that can be read and whose clients all start.\<close>

definition devices_ok :: "main_env \<Rightarrow> u8 list \<Rightarrow> bool" where
  "devices_ok e cont \<longleftrightarrow> me_file e = Some cont \<and> length cont < 2147483647 \<and> length (me_buff e) = 128 \<and>
     (\<forall>cs \<in> set (chunks cont). safe_line cs) \<and> (\<forall>j < length (file_entries cont). env_ok (me_forks e j))"

definition started_clients :: "main_env \<Rightarrow> u8 list \<Rightarrow> coapIP list" where
  "started_clients e cont =
     map2 (\<lambda>j c. client_entry (me_forks e j) c) [0..<length (file_entries cont)] (file_entries cont)"

definition client_events :: "main_env \<Rightarrow> u8 list \<Rightarrow> proc_event list" where
  "client_events e cont = concat (map (\<lambda>j. fifo_events (me_forks e j)) [0..<length (file_entries cont)])"

lemma started_clients_fds: "c \<in> set (started_clients e cont) \<Longrightarrow> ci_fifo_fd c \<noteq> None"
  by (auto simp: started_clients_def client_entry_def set_zip)

lemma file_entries_unset: "c \<in> set (file_entries cont) \<Longrightarrow> ci_fifo_fd c = None"
  by (auto simp: file_entries_def line_entries_def ip_entry_def split: option.splits)

subsection \<open>Properties\<close>

text \<open>
  C7. A start without failures.  When the calls of the set-up succeed, the device file can be read
  and every fork and fifo succeeds, \<open>main\<close> goes through its steps in order, ends in its loop with the
  pids of both servers recorded, and, if no message arrives in the meantime, leaves the gateway in
  the initial state of the two threads, with one running client, whose descriptor is set, for every
  entry of the device file: what the theorems on the threads start from.  Failures of the serial port
  calls do not change that.
\<close>

theorem main_starts:
  assumes "setup_ok e" and "devices_ok e cont" and "inj f" and "me_tftp_fork e > 0" and "me_coap_fork e > 0"
  shows "\<exists>t xs. main_fn (mallocs f) e zero_globals =
       Some (setup_events e @ [List_ready, Forked_tftp (me_tftp_fork e),
           Clients_started (client_events e cont), Forked_coap (me_coap_fork e)],
         Main_loop, \<lparr>gl_gw = gw_init t, gl_tftp_pid = me_tftp_fork e, gl_coap_pid = me_coap_fork e\<rparr>) \<and>
     gw_reach f xs (started_clients e cont) (gw_init t)"
proof -
  let ?t0 = "zero_table\<lparr>t_list := list_init (Some free_ip)\<rparr>"
  have "\<exists>t' xs'. CreatCoapclient (mallocs f) (me_buff e) (Some cont) (me_forks e) ?t0 =
      Some (Cont (t', client_events e cont)) \<and> tab t' xs' (started_clients e cont)"
    using CreatCoapclient_ok [OF listed_table(1,2) listed_table(3) [OF assms(3)], of "me_buff e" cont "me_forks e"] assms(2)
    unfolding devices_ok_def client_events_def started_clients_def by auto
  then obtain t xs where t: "CreatCoapclient (mallocs f) (me_buff e) (Some cont) (me_forks e) ?t0 =
      Some (Cont (t, client_events e cont))" "tab t xs (started_clients e cont)" by blast
  then have "tab_ready xs (started_clients e cont) t" using started_clients_fds by (simp add: tab_ready_def)
  then have "gw_reach f xs (started_clients e cont) (gw_init t)" using assms(3) by (rule gw_reach_init)
  moreover have "main_fn (mallocs f) e zero_globals =
       Some (setup_events e @ [List_ready, Forked_tftp (me_tftp_fork e),
           Clients_started (client_events e cont), Forked_coap (me_coap_fork e)],
         Main_loop, \<lparr>gl_gw = gw_init t, gl_tftp_pid = me_tftp_fork e, gl_coap_pid = me_coap_fork e\<rparr>)"
    using assms(2,4,5) t(1)
    by (simp add: main_fn_def main_init_ok [OF assms(1)] main_children_def main_list_init_def set_table_def Let_def
        devices_ok_def) (simp add: zero_globals_def gw_init_def set_table_def)
  ultimately show ?thesis by blast
qed

definition ex_main_env :: main_env where
  "ex_main_env = \<lparr>me_sem = 0, me_mutex = 0, me_db = 0, me_zlog = 0, me_category = True,
     me_mraa = \<lparr>mr_init = False, mr_flush = False, mr_baud = True, mr_mode = True, mr_flow = True\<rparr>,
     me_uart_thread = 0, me_trans_thread = 0, me_tftp_fork = 50, me_coap_fork = 60,
     me_file = Some sample_file, me_buff = replicate 128 7, me_forks = ex_env\<rparr>"

lemma ex_main_env_ok: "setup_ok ex_main_env" "devices_ok ex_main_env sample_file"
  "started_clients ex_main_env sample_file = [ex_client_ip]" "file_entries sample_file = [ip_entry ([0x31], [0x61])]"
proof -
  show e: "file_entries sample_file = [ip_entry ([0x31], [0x61])]"
    by (rule sample_entries)
  have "\<forall>cs \<in> set (chunks sample_file). safe_line cs" by (simp add: sample_chunks safe_line_def)
  moreover have "length sample_file < 2147483647" by (simp add: sample_file_def)
  ultimately show "devices_ok ex_main_env sample_file"
    by (simp add: devices_ok_def e ex_main_env_def) (simp add: ex_env_def env_ok_def)
  show "started_clients ex_main_env sample_file = [ex_client_ip]"
    by (simp add: started_clients_def e ex_main_env_def ex_client_ip_def)
qed (simp add: setup_ok_def ex_main_env_def)

theorem main_starts_witness:
  "\<exists>evs t xs. main_fn (mallocs id) ex_main_env zero_globals =
       Some (evs, Main_loop, \<lparr>gl_gw = gw_init t, gl_tftp_pid = 50, gl_coap_pid = 60\<rparr>) \<and>
     gw_reach id xs [ex_client_ip] (gw_init t)"
proof -
  have "me_tftp_fork ex_main_env = 50" "me_coap_fork ex_main_env = 60" by (simp_all add: ex_main_env_def)
  with main_starts [OF ex_main_env_ok(1,2) inj_on_id] show ?thesis unfolding ex_main_env_ok(3) by auto
qed

text \<open>
  A start that fails.  When a call of the set-up fails, \<open>main\<close> ends with the code of the first
  one that does: 0 when the database cannot be opened, as if all were well, and -1 or -2 otherwise;
  the thread of the dispatcher is not started, and no process is.
\<close>

lemma main_fails:
  assumes "\<not> setup_ok e"
  shows "\<exists>evs r. main_fn mal e zero_globals = Some (evs, r, zero_globals) \<and>
     r = (if me_sem e = -1 \<or> me_mutex e \<noteq> 0 then Main_exit (-1) else if me_db e \<noteq> 0 then Main_exit 0
          else if me_zlog e \<noteq> 0 then Main_return (-1) else if \<not> me_category e then Main_return (-2)
          else Main_exit (-1)) \<and>
     Trans_thread_started \<notin> set evs \<and> List_ready \<notin> set evs \<and> prefix evs (setup_events e)"
  using assms
  by (auto simp: main_fn_def main_init_def setup_ok_def setup_events_def Open_db_def Let_def)

lemma main_fails_witness:
  "\<exists>evs. main_fn (mallocs id) (ex_main_env\<lparr>me_db := 1\<rparr>) zero_globals = Some (evs, Main_exit 0, zero_globals)"
  using main_fails [of "ex_main_env\<lparr>me_db := 1\<rparr>" "mallocs id"] by (auto simp: setup_ok_def ex_main_env_def)

text \<open>
  C32. The threads start too early.  For every device file with an entry there is a run of the
  start-up in which a message that arrives before the clients are started makes the dispatch thread
  undefined: the list already holds the entries, but the descriptor it writes to is not set yet.
\<close>

theorem startup_race:
  assumes "setup_ok e" and "inj f" and "me_file e = Some cont" and "length cont < 2147483647"
    and "length (me_buff e) = 128" and "\<forall>cs \<in> set (chunks cont). safe_line cs" and "file_entries cont \<noteq> []"
  shows "\<exists>evs g0 g. main_init e zero_globals = (evs, Inr g0) \<and>
     (su_step f e)\<^sup>*\<^sup>* (M_list, gl_gw g0) (M_create, g) \<and> trans_step g = Undefined"
proof -
  let ?t0 = "zero_table\<lparr>t_list := list_init (Some free_ip)\<rparr>"
  let ?sh = "stored_message (replicate 25 0x20) 0 (g_sh (gw_init zero_table)) (f 0) [0x24, 0x26]"
  obtain t1 xs where t1: "ParsTxt (mallocs f) ?t0 (me_buff e) (Some cont) = Some (Running t1)"
    "tab t1 xs (file_entries cont)"
    using ParsTxt_spec [OF listed_table(1,2) listed_table(3) [OF assms(2)] assms(5,6) _ assms(4)] by auto
  have l: "l_size (t_list t1) = int (length xs)" "l_head (t_list t1) = head_of (drop 0 xs)"
    "length xs = length (file_entries cont)"
    using t1(2) tab_lengths [OF t1(2)] chain_head unfolding tab_def lrep_def by auto
  obtain u where u: "(gw_step f)\<^sup>*\<^sup>* (gw_init zero_table)
      ((gw_init zero_table)\<lparr>g_sh := early_shared f ?sh, g_uart := u, g_in := [0x24, 0x26]\<rparr>)" (is "_\<^sup>*\<^sup>* _ ?g")
    using early_message [of f zero_table] by blast
  have gw: "(su_step f e)\<^sup>*\<^sup>* (pc, g1) (pc, g2)" if "(gw_step f)\<^sup>*\<^sup>* g1 g2" for pc g1 g2
    using that by (induction rule: rtranclp_induct) (auto intro: rtranclp.rtrancl_into_rtrancl su_threads)
  have "g_tab ?g = zero_table" by (simp add: gw_init_def)
  then have "su_step f e (M_list, ?g) (M_parse, ?g\<lparr>g_tab := ?t0\<rparr>)" using su_list [of f e ?g] by simp
  moreover have "su_step f e (M_parse, ?g\<lparr>g_tab := ?t0\<rparr>) (M_create, ?g\<lparr>g_tab := t1\<rparr>)"
    using su_parse [of f "?g\<lparr>g_tab := ?t0\<rparr>" e t1] t1(1) assms(3) by simp
  ultimately have s1: "(su_step f e)\<^sup>*\<^sup>* (M_list, gw_init zero_table) (M_create, ?g\<lparr>g_tab := t1\<rparr>)"
    using gw [OF u] by (meson rtranclp.rtrancl_into_rtrancl)
  have "l_size (t_list t1) > 0" using l assms(7) by simp
  then obtain g1 where g1: "trans_next\<^sup>*\<^sup>* (?g\<lparr>g_tab := t1\<rparr>) g1" "g_tab g1 = t1"
    "held_message g1 (f 0) [0x24, 0x26]" "g_tpc g1 = T_write (head_of (drop 0 xs))"
    using early_dispatch [where f = f and t = zero_table and u = u and tb = t1] l(2) by auto
  have "0 < length (file_entries cont)" "ci_fifo_fd (file_entries cont ! 0) = None"
    using assms(7) file_entries_unset [OF nth_mem, of 0 cont] by simp_all
  then obtain g2 where g2: "trans_next\<^sup>*\<^sup>* g1 g2" "trans_step g2 = Undefined"
    using unset_descriptor_undefined [where k = 0 and j = 0, OF _ g1(3,4)] t1(2) g1(2) by auto
  have trans: "(su_step f e)\<^sup>*\<^sup>* (pc, g1) (pc, g2)" if "trans_next\<^sup>*\<^sup>* g1 g2" for pc g1 g2
    using that by (induction rule: rtranclp_induct)
      (auto simp: trans_next_def intro: rtranclp.rtrancl_into_rtrancl su_threads step_internal internal_trans)
  have "(su_step f e)\<^sup>*\<^sup>* (M_list, gw_init zero_table) (M_create, g2)"
    using s1 trans [OF g1(1)] trans [OF g2(1)] by (meson rtranclp_trans)
  with g2(2) main_init_ok [OF assms(1)] show ?thesis by auto
qed

theorem startup_race_witness:
  "\<exists>evs g0 g. main_init ex_main_env zero_globals = (evs, Inr g0) \<and>
     (su_step id ex_main_env)\<^sup>*\<^sup>* (M_list, gl_gw g0) (M_create, g) \<and> trans_step g = Undefined"
  using startup_race [OF ex_main_env_ok(1) inj_on_id, of sample_file] ex_main_env_ok(2,4)
  by (simp add: devices_ok_def)

end
