(* ===== verification/Failures.thy ===== *)
theory Failures
  imports Startup
begin

section \<open>Failures that are not looked at: user/main.c, uart/uart.c\<close>

text \<open>
  Two results the program does not look at: a \<open>fork\<close> that fails while the clients are started, and a
  \<open>queue_enqueue\<close> that fails because \<open>malloc\<close> does.  Both make a later step of the dispatch thread
  undefined.  And messages that arrive while the table is empty: they are taken out of the queue, but
  neither written nor freed.
\<close>

subsection \<open>The first message meets an entry without descriptor\<close>

lemma trans_next_gw: "trans_next\<^sup>*\<^sup>* g g' \<Longrightarrow> (gw_step f)\<^sup>*\<^sup>* g g'"
  by (induction rule: rtranclp_induct)
    (auto simp: trans_next_def intro: rtranclp.rtrancl_into_rtrancl step_internal internal_trans)

lemma unset_entry_reached:
  assumes t: "tab t xs es" and j: "j < length es" "ci_fifo_fd (es ! j) = None"
  shows "\<exists>g. (gw_step f)\<^sup>*\<^sup>* (gw_init t) g \<and> g_in g = [0x24, 0x26] \<and> trans_step g = Undefined"
proof -
  let ?sh = "stored_message (replicate 25 0x20) 0 (g_sh (gw_init t)) (f 0) [0x24, 0x26]"
  define k where "k = (LEAST i. ci_fifo_fd (es ! i) = None)"
  have k: "ci_fifo_fd (es ! k) = None" "k < length es" "\<forall>i. 0 \<le> i \<and> i < k \<longrightarrow> ci_fifo_fd (es ! i) \<noteq> None"
    using LeastI [of "\<lambda>i. ci_fifo_fd (es ! i) = None", OF j(2)] Least_le [of "\<lambda>i. ci_fifo_fd (es ! i) = None", OF j(2)]
      not_less_Least j(1) unfolding k_def by fastforce+
  have l: "l_size (t_list t) = int (length xs)" "l_head (t_list t) = head_of (drop 0 xs)" "length xs = length es"
    using t tab_lengths [OF t] chain_head unfolding tab_def lrep_def by auto
  then have "l_size (t_list t) > 0" using j(1) by linarith
  obtain u where u: "(gw_step f)\<^sup>*\<^sup>* (gw_init t)
      ((gw_init t)\<lparr>g_sh := early_shared f ?sh, g_uart := u, g_in := [0x24, 0x26]\<rparr>)" (is "_\<^sup>*\<^sup>* _ ?g")
    using early_message [of f t] by blast
  have "?g\<lparr>g_tab := t\<rparr> = ?g" by (simp add: gw_init_def)
  then obtain g1 where g1: "trans_next\<^sup>*\<^sup>* ?g g1" "g_tab g1 = t" "held_message g1 (f 0) [0x24, 0x26]"
    "g_tpc g1 = T_write (head_of (drop 0 xs))"
    using early_dispatch [where f = f and t = t and u = u and tb = t] \<open>l_size (t_list t) > 0\<close> l(2) by auto
  then obtain g2 where g2: "trans_next\<^sup>*\<^sup>* g1 g2" "trans_step g2 = Undefined"
    using unset_descriptor_undefined [where k = 0 and j = k, OF _ g1(3,4)] t k by auto
  have "g_in b = g_in a" if "trans_next\<^sup>*\<^sup>* a b" for a b
    using that by (induction rule: rtranclp_induct)
      (auto simp: trans_next_def trans_step_def trans_write_def Let_def split: if_splits option.splits trans_pc.splits
        prod.splits bind_splits)
  then have "g_in g2 = [0x24, 0x26]" using g1(1) g2(1) by simp
  moreover have "(gw_step f)\<^sup>*\<^sup>* (gw_init t) g2"
    using u trans_next_gw [OF g1(1)] trans_next_gw [OF g2(1)] by (meson rtranclp_trans)
  ultimately show ?thesis using g2(2) by blast
qed

subsection \<open>The queue after a failed enqueue\<close>

lemma dequeue_empty:
  assumes "qrep (h, q) []"
  shows "queue_dequeue h q = Some (-1, None, h, q)"
  using assms by (auto simp: qrep_def queue_dequeue_def list_rem_next_empty)

text \<open>The two threads after \<open>malloc\<close> has failed in \<open>queue_enqueue\<close>: post, clear nothing yet, dequeue.\<close>

lemma enqueue_failure_steps:
  assumes "g_upc g = U_enqueue a" and "g_tpc g = T_wait" and "sh_sem (g_sh g) = 0"
    and "qrep (sh_heap (g_sh g), sh_queue (g_sh g)) []" and "mal (sh_calls (g_sh g)) = None"
    and "l_size (t_list (g_tab g)) > 0"
  shows "\<exists>g1 g2 g3. uart_step mal g = Next g1 \<and> uart_step mal g1 = Next g2 \<and> trans_next\<^sup>*\<^sup>* g2 g3 \<and>
     g_tab g3 = g_tab g \<and> g_msg g3 = g_msg g \<and> g_tpc g3 = T_write (l_head (t_list (g_tab g))) \<and>
     sh_msgs (g_sh g3) = sh_msgs (g_sh g)"
proof -
  let ?sh = "(g_sh g)\<lparr>sh_calls := sh_calls (g_sh g) + 1\<rparr>"
  let ?g1 = "g\<lparr>g_sh := ?sh, g_upc := U_post\<rparr>"
  let ?g2 = "?g1\<lparr>g_sh := ?sh\<lparr>sh_sem := 1\<rparr>, g_upc := U_clear\<rparr>"
  let ?a = "?g2\<lparr>g_sh := ?sh, g_tpc := T_dequeue\<rparr>"
  let ?b = "?a\<lparr>g_tpc := T_check\<rparr>"
  let ?c = "?b\<lparr>g_tpc := T_write (l_head (t_list (g_tab g)))\<rparr>"
  have s: "(g_sh g)\<lparr>sh_calls := n, sh_sem := 0\<rparr> = (g_sh g)\<lparr>sh_calls := n\<rparr>" for n using assms(3) by (cases "g_sh g") simp
  have "uart_step mal g = Next ?g1"
    using assms(1,5) by (simp add: uart_step_def uart_enqueue_def queue_enqueue_def list_ins_next_def)
  moreover have "uart_step mal ?g1 = Next ?g2" using assms(3) by (simp add: uart_step_def uart_post_def)
  moreover have "trans_next ?g2 ?a" using assms(2) by (simp add: trans_next_def trans_step_def Let_def s)
  moreover have "trans_next ?a ?b"
    using dequeue_empty [OF assms(4)] by (simp add: trans_next_def trans_step_def Let_def)
  moreover have "trans_next ?b ?c" using assms(6) by (simp add: trans_next_def trans_step_def Let_def)
  ultimately show ?thesis
    by (intro exI [of _ ?g1] exI [of _ ?g2] exI [of _ ?c])
      (auto intro: converse_rtranclp_into_rtranclp)
qed

subsection \<open>Messages without clients\<close>

definition stored_events :: "db_event list \<Rightarrow> db_event list" where
  "stored_events evs = filter (\<lambda>ev. ev \<noteq> Sql_error) evs"

text \<open>As many blocks are allocated as messages were handed to the database; none is written.\<close>

definition hoard :: "gateway \<Rightarrow> bool" where
  "hoard g \<longleftrightarrow> finite (dom (sh_msgs (g_sh g))) \<and> card (dom (sh_msgs (g_sh g))) = length (stored_events (sh_db (g_sh g))) \<and>
     (\<forall>p. g_tpc g \<noteq> T_write p) \<and> g_writes g = []"

lemma hoard_byte:
  assumes "ginv f xs [] g" and "hoard g" and "uart_byte (mallocs f) now rc ch g = Next g'"
  shows "hoard g'"
proof -
  obtain D tm qs um where v: "gview f xs [] g D tm qs um" using assms(1) by (rule ginvE)
  have new: "sh_msgs (g_sh g) (f (sh_calls (g_sh g))) = None" using gviewD(2) [OF v] by (simp add: mem_inv_def)
  have one: "length (stored_events evs) = 1" if "Insert_db now rc b = Some evs" for b evs
    using that by (auto simp: Insert_db_def stored_events_def split: bind_splits if_splits)
  have app: "stored_events (xs @ ys) = stored_events xs @ stored_events ys" for xs ys by (simp add: stored_events_def)
  show ?thesis
    using assms(2,3) new one
    by (auto simp: uart_byte_def uart_recv_def mallocs_def hoard_def app Let_def domIff
        split: if_splits option.splits outcome.splits bind_splits)
qed

lemma hoard_internal:
  assumes "tab_ready xs [] (g_tab g)" and "hoard g" and "internal f g g'"
  shows "hoard g'"
proof -
  have "l_size (t_list (g_tab g)) = 0" using tab_readyD(3,4) [OF assms(1)] by simp
  with assms(2,3) show ?thesis
    by (auto elim!: internalE simp: hoard_def uart_step_def uart_enqueue_def uart_post_def trans_step_def Let_def
        split: if_splits option.splits uart_pc.splits trans_pc.splits prod.splits bind_splits)
qed

interpretation gl: guarded_system "gw_step f" gw_guard "\<lambda>g. ginv f xs [] g \<and> hoard g" for f xs
proof unfold_locales
  fix g g' assume "gw_step f g g'" "gw_guard g'"
  then show "gw_guard g" by (rule gw.guard_back)
next
  fix g g' assume inv: "ginv f xs [] g \<and> hoard g" and step: "gw_step f g g'" and guard: "gw_guard g'"
  have "hoard g'" using step
  proof cases
    case (step_byte now rc ch)
    with inv hoard_byte show ?thesis by blast
  next
    case step_internal
    with inv hoard_internal show ?thesis by (auto simp: ginv_def)
  qed
  with gw.inv_step [OF conjunct1 [OF inv] step guard] show "ginv f xs [] g' \<and> hoard g'" ..
qed

definition two_pieces :: "u8 list" where
  "two_pieces = [0x24, 0x26, 0x24, 0x26]"

subsection \<open>Properties\<close>

text \<open>
  A fork that fails.  When starting one of the clients fails because \<open>fork\<close> does, \<open>main\<close> goes on
  into its loop all the same, with an entry in its table whose descriptor was never set, and the
  first message makes the dispatch thread undefined.
\<close>

lemma failed_fork_undefined:
  assumes "setup_ok e" and "inj f" and "me_file e = Some cont" and "length cont < 2147483647"
    and "length (me_buff e) = 128" and "\<forall>cs \<in> set (chunks cont). safe_line cs"
    and "\<forall>i < length (file_entries cont). env_or_failed (me_forks e i)"
    and "j < length (file_entries cont)" and "fe_pid (me_forks e j) < 0"
    and "me_tftp_fork e > 0" and "me_coap_fork e > 0"
  shows "\<exists>evs gl t g. main_fn (mallocs f) e zero_globals = Some (evs, Main_loop, gl) \<and> gl_gw gl = gw_init t \<and>
     (gw_step f)\<^sup>*\<^sup>* (gw_init t) g \<and> g_in g = bytes ''$&'' \<and> trans_step g = Undefined"
proof -
  let ?t0 = "zero_table\<lparr>t_list := list_init (Some free_ip)\<rparr>"
  define es where "es = map2 (\<lambda>j c. fork_result (me_forks e j) c) [0..<length (file_entries cont)] (file_entries cont)"
  obtain t xs evs where t: "CreatCoapclient (mallocs f) (me_buff e) (Some cont) (me_forks e) ?t0 = Some (Cont (t, evs))"
    "tab t xs es"
    using CreatCoapclient_any [OF listed_table(1,2) listed_table(3) [OF assms(2)] assms(5,6) _ assms(4,7)]
    unfolding es_def by auto
  have "\<exists>evs gl. main_fn (mallocs f) e zero_globals = Some (evs, Main_loop, gl) \<and> gl_gw gl = gw_init t"
    using assms(3,10,11) t(1)
    by (simp add: main_fn_def main_init_ok [OF assms(1)] main_children_def main_list_init_def set_table_def Let_def)
      (simp add: zero_globals_def gw_init_def set_table_def)
  moreover have "j < length es" "ci_fifo_fd (es ! j) = None"
    using assms(8,9) file_entries_unset [OF nth_mem [OF assms(8)]] by (simp_all add: es_def fork_result_def)
  moreover have "bytes ''$&'' = [0x24, 0x26]" by (simp add: bytes_def)
  ultimately show ?thesis using unset_entry_reached [OF t(2), of j f] by auto
qed

lemma failed_fork_undefined_witness:
  "\<exists>evs gl t g. main_fn (mallocs id) (ex_main_env\<lparr>me_forks := (\<lambda>i. \<lparr>fe_pid = -1, fe_exists = False, fe_mkfifo = 0, fe_open = 5\<rparr>)\<rparr>)
       zero_globals = Some (evs, Main_loop, gl) \<and> gl_gw gl = gw_init t \<and>
     (gw_step id)\<^sup>*\<^sup>* (gw_init t) g \<and> g_in g = bytes ''$&'' \<and> trans_step g = Undefined"
proof -
  let ?e = "ex_main_env\<lparr>me_forks := (\<lambda>i. \<lparr>fe_pid = -1, fe_exists = False, fe_mkfifo = 0, fe_open = 5\<rparr>)\<rparr>"
  have "setup_ok ?e" using ex_main_env_ok(1) by (simp add: setup_ok_def)
  moreover have "me_file ?e = Some sample_file" "length (me_buff ?e) = 128" "me_tftp_fork ?e > 0" "me_coap_fork ?e > 0"
    by (simp_all add: ex_main_env_def)
  moreover have "length sample_file < 2147483647" "\<forall>cs \<in> set (chunks sample_file). safe_line cs"
    using ex_main_env_ok(2) by (simp_all add: devices_ok_def)
  ultimately show ?thesis
    using failed_fork_undefined [of ?e id sample_file 0] by (simp add: ex_main_env_ok(4) env_or_failed_def)
qed

text \<open>
  An enqueue that fails.  When \<open>malloc\<close> fails in \<open>queue_enqueue\<close> while the queue is empty and the
  dispatch thread waits, the semaphore is posted all the same; the dispatch thread finds the queue
  empty, its message pointer is still NULL, and it writes that to the first client.
\<close>

lemma enqueue_failure_undefined:
  assumes "gw_reach f xs es g" and "gw_guard g" and "es \<noteq> []"
    and "g_upc g = U_enqueue a" and "g_tpc g = T_wait" and "sh_sem (g_sh g) = 0" and "g_msg g = None"
    and "mal (sh_calls (g_sh g)) = None"
  shows "\<exists>g1 g2 g3. uart_step mal g = Next g1 \<and> uart_step mal g1 = Next g2 \<and> trans_next\<^sup>*\<^sup>* g2 g3 \<and>
     trans_step g3 = Undefined"
proof -
  obtain D tm qs um where r: "tab_ready xs es (g_tab g)" and v: "gview f xs es g D tm qs um"
    using gw_reach_inv [OF assms(1,2)] by (rule ginvE)
  have "qs = []" using gviewD(4) [OF v] assms(4-6) by (simp add: sem_inv_def)
  then have q: "qrep (sh_heap (g_sh g), sh_queue (g_sh g)) []" using gviewD(1) [OF v] by simp
  note tab = tab_readyD [OF r]
  have len: "0 < length xs" using tab(4) assms(3) by simp
  then have size: "l_size (t_list (g_tab g)) > 0" using tab(3) by simp
  obtain g1 g2 g3 where g: "uart_step mal g = Next g1" "uart_step mal g1 = Next g2" "trans_next\<^sup>*\<^sup>* g2 g3"
    "g_tab g3 = g_tab g" "g_msg g3 = g_msg g" "g_tpc g3 = T_write (l_head (t_list (g_tab g)))"
    using enqueue_failure_steps [where mal = mal, OF assms(4-6) q assms(8) size] by blast
  have "l_head (t_list (g_tab g)) = Some (fst (xs ! 0))"
    using chain_head [OF tab(1)] head_of_drop [of 0 xs] len by simp
  moreover have "trans_write g3 (fst (xs ! 0)) = None"
    using g(4,5) assms(7) by (auto simp: trans_write_def split: bind_splits)
  ultimately have "trans_step g3 = Undefined" using g(6) by (simp add: trans_step_def)
  with g show ?thesis by blast
qed

lemma enqueue_failure_undefined_witness:
  "\<exists>u g1 g2 g3. uart_step (\<lambda>i. None) (ex_msg_in u) = Next g1 \<and> uart_step (\<lambda>i. None) g1 = Next g2 \<and>
     trans_next\<^sup>*\<^sup>* g2 g3 \<and> trans_step g3 = Undefined"
proof -
  obtain u where u: "(gw_step id)\<^sup>*\<^sup>* (gw_init ex_tab) (ex_msg_in u)" using ex_bytes by blast
  then have r: "gw_reach id [(1, 2)] [ex_client_ip] (ex_msg_in u)" using ex_tab_ready by (auto simp: gw_reach_def)
  have guard: "gw_guard (ex_msg_in u)" using ex_guard [of u] by (simp add: gw_guard_def ex_writing_def)
  have "g_upc (ex_msg_in u) = U_enqueue 0" "g_tpc (ex_msg_in u) = T_wait" "sh_sem (g_sh (ex_msg_in u)) = 0"
    "g_msg (ex_msg_in u) = None" by (simp_all add: ex_msg_in_def gw_init_def stored_message_def)
  with enqueue_failure_undefined [OF r guard, of 0 "\<lambda>i. None"] show ?thesis by blast
qed

text \<open>
  Messages without clients.  While the table is empty every message that arrives is stored in
  the database but neither written to a client nor freed: once the threads are at rest, nothing was
  written, and the block of every message is still allocated, for good.
\<close>

lemma empty_table_leaks:
  assumes "gw_reach f xs [] g" and "gw_guard g"
  shows "g_writes g = [] \<and> card (dom (sh_msgs (g_sh g))) = length (frames (g_in g)) \<and> db_inv g \<and>
     (quiet f g \<longrightarrow> queue_size (sh_queue (g_sh g)) = 0)"
proof -
  obtain t where t: "tab_ready xs [] t" "inj f" "(gw_step f)\<^sup>*\<^sup>* (gw_init t) g"
    using assms(1) by (auto simp: gw_reach_def)
  have "hoard (gw_init t)" by (simp add: hoard_def gw_init_def stored_events_def)
  then have inv: "ginv f xs [] g \<and> hoard g"
    using gl.inv_reach [OF t(3) _ assms(2)] gw_init_inv [OF t(1,2)] by blast
  then have "db_inv g" by (simp add: ginv_def)
  moreover from this have "length (stored_events (sh_db (g_sh g))) = length (frames (g_in g))"
    by (auto simp: db_inv_def stored_events_def dest: list_all2_lengthD)
  ultimately show ?thesis
    using inv quiet_view [OF conjunct1 [OF inv] assms(2)] by (auto simp: hoard_def)
qed

lemma empty_table_leaks_witness:
  "\<exists>g :: gateway. g_in g = two_pieces \<and> g_writes g = [] \<and> queue_size (sh_queue (g_sh g)) = 0 \<and> card (dom (sh_msgs (g_sh g))) = 2"
proof -
  have ready: "tab_ready [] [] zero_table" by (simp add: tab_ready_def zero_table_ready)
  have ok: "ok_input two_pieces" "length two_pieces < 2147483647" "length (frames two_pieces) = 2"
    by (simp_all add: two_pieces_def ok_input_def frames_def cut_def cut1_def UART_END_FLAG_def UART_START_FLAG_def
        ok_piece_def msg_text_def MSG_LIMIT_def)
  obtain g where g: "(gw_step id)\<^sup>*\<^sup>* (gw_init zero_table) g" "quiet id g" "g_in g = two_pieces"
    using quiet_after [OF ready inj_on_id ok(1,2)] by blast
  have "gw_reach id [] [] g" using g(1) ready by (auto simp: gw_reach_def)
  moreover have "gw_guard g" using g(3) ok by (simp add: gw_guard_def)
  ultimately show ?thesis using empty_table_leaks [of id "[]" g] g(2,3) ok(3) by (intro exI [of _ g]) simp
qed

end
