(* ===== verification/Tftp.thy ===== *)
theory Tftp
  imports Gateway_Prelude
begin

section \<open>The TFTP server: TFTPServer/tftputils.c and tftpserver.c\<close>

text \<open>
  The server receives a new device table.  The functions of tftputils.c read and write fields of
  packets in arrays.  The server's state is its receive buffer, the files, the open stream \<open>file\<close> and
  the block \<open>args\<close> of the transfer; results of system calls are in the record \<open>tftp_env\<close>.  An action
  yields what was sent so far even if it ends in undefined behaviour: the events, and \<open>None\<close> or the
  value and the new state.  A stream that is NULL or closed is \<open>None\<close>, a block that is not allocated
  or freed is \<open>None\<close>.  What a stream for writing holds reaches the file when it is closed.
\<close>

subsection \<open>tftputils.c\<close>

definition TFTP_RRQ :: u8 where
  "TFTP_RRQ = 1"

definition TFTP_WRQ :: u8 where
  "TFTP_WRQ = 2"

definition TFTP_DATA :: u8 where
  "TFTP_DATA = 3"

definition TFTP_ACK :: u8 where
  "TFTP_ACK = 4"

definition TFTP_ERROR :: u8 where
  "TFTP_ERROR = 5"

definition TFTP_DATA_PKT_HDR_LEN :: nat where
  "TFTP_DATA_PKT_HDR_LEN = 4"

definition TFTP_ACK_PKT_LEN :: nat where
  "TFTP_ACK_PKT_LEN = 4"

definition TFTP_DATA_LEN_MAX :: nat where
  "TFTP_DATA_LEN_MAX = 512"

definition TFTP_DATA_PKT_LEN_MAX :: nat where
  "TFTP_DATA_PKT_LEN_MAX = TFTP_DATA_PKT_HDR_LEN + TFTP_DATA_LEN_MAX"

datatype tftp_errorcode =
    TFTP_ERR_NOTDEFINED | TFTP_ERR_FILE_NOT_FOUND | TFTP_ERR_ACCESS_VIOLATION | TFTP_ERR_DISKFULL
  | TFTP_ERR_ILLEGALOP | TFTP_ERR_UKNOWN_TRANSFER_ID | TFTP_ERR_FILE_ALREADY_EXISTS | TFTP_ERR_NO_SUCH_USER

fun err_num :: "tftp_errorcode \<Rightarrow> u8" where
  "err_num TFTP_ERR_NOTDEFINED = 0"
| "err_num TFTP_ERR_FILE_NOT_FOUND = 1"
| "err_num TFTP_ERR_ACCESS_VIOLATION = 2"
| "err_num TFTP_ERR_DISKFULL = 3"
| "err_num TFTP_ERR_ILLEGALOP = 4"
| "err_num TFTP_ERR_UKNOWN_TRANSFER_ID = 5"
| "err_num TFTP_ERR_FILE_ALREADY_EXISTS = 6"
| "err_num TFTP_ERR_NO_SUCH_USER = 7"

definition tftp_decode_op :: "u8 list \<Rightarrow> u8 option" where
  "tftp_decode_op buf = rd buf 1"

text \<open>The 16-bit number behind the opcode, in network byte order.\<close>

definition tftp_extract_block :: "u8 list \<Rightarrow> u16 option" where
  "tftp_extract_block buf =
     do {
       hi \<leftarrow> rd buf 2;
       lo \<leftarrow> rd buf 3;
       Some (word_of_nat (unat hi * 256 + unat lo))
     }"

definition tftp_extract_filename :: "u8 list \<Rightarrow> u8 list \<Rightarrow> u8 list option" where
  "tftp_extract_filename fname buf =
     do {
       s \<leftarrow> cstr buf 2;
       wrn fname 0 (s @ [0])
     }"

definition tftp_set_opcode :: "u8 list \<Rightarrow> u8 \<Rightarrow> u8 list option" where
  "tftp_set_opcode buffer opcode =
     do {
       b \<leftarrow> wr buffer 0 0;
       wr b 1 opcode
     }"

definition tftp_set_errorcode :: "u8 list \<Rightarrow> tftp_errorcode \<Rightarrow> u8 list option" where
  "tftp_set_errorcode buffer errCode =
     do {
       b \<leftarrow> wr buffer 2 0;
       wr b 3 (err_num errCode)
     }"

definition tftp_set_errormsg :: "u8 list \<Rightarrow> u8 list \<Rightarrow> u8 list option" where
  "tftp_set_errormsg buffer errormsg = wrn buffer 4 (errormsg @ [0])"

definition tftp_set_block :: "u8 list \<Rightarrow> u16 \<Rightarrow> u8 list option" where
  "tftp_set_block packet block =
     do {
       b \<leftarrow> wr packet 2 (word_of_nat (unat block div 256));
       wr b 3 (word_of_nat (unat block mod 256))
     }"

definition tftp_set_data_message :: "u8 list \<Rightarrow> u8 list \<Rightarrow> nat \<Rightarrow> u8 list option" where
  "tftp_set_data_message packet buf buflen =
     do {
       d \<leftarrow> rdn buf 0 buflen;
       wrn packet 4 d
     }"

definition tftp_is_correct_ack :: "u8 list \<Rightarrow> int \<Rightarrow> bool option" where
  "tftp_is_correct_ack buf block =
     do {
       op \<leftarrow> tftp_decode_op buf;
       if op \<noteq> TFTP_ACK then Some False
       else do {
         b \<leftarrow> tftp_extract_block buf;
         Some (block = int (unat b))
       }
     }"

subsection \<open>State and actions\<close>

datatype tftp_event = Tftp_send int "u8 list" | Close_sock int | Signal_parent

record tftp_connection_args =
  ta_op :: u8
  ta_data :: "u8 list"
  ta_data_len :: nat
  ta_block :: int
  ta_tot_bytes :: int

text \<open>A stream: its file, whether it is open for writing, and what was written or is still to be read.\<close>

record stream =
  st_name :: "u8 list"
  st_write :: bool
  st_data :: "u8 list"

record tftpd =
  tftpRecvBuffer :: "u8 list"
  td_files :: "u8 list \<Rightarrow> u8 list option"
  td_file :: "stream option"
  td_args :: "tftp_connection_args option"

text \<open>
  What the system calls of a request deliver: the new socket (-1 for failure), whether it can be
  bound, whether the file can be opened for writing, whether \<open>malloc\<close> succeeds, the datagram received
  by the transfer (\<open>None\<close> when \<open>recvfrom\<close> returns -1; it is assumed to return) and how many bytes \<open>fwrite\<close> takes.
\<close>

record tftp_env =
  te_sock :: int
  te_bind :: bool
  te_fopen :: bool
  te_malloc :: bool
  te_recv :: "u8 list option"
  te_fwrite :: nat

type_synonym 'a act = "tftpd \<Rightarrow> tftp_event list \<times> ('a \<times> tftpd) option"

definition ret :: "'a \<Rightarrow> 'a act" where
  "ret x s = ([], Some (x, s))"

definition seq :: "'a act \<Rightarrow> ('a \<Rightarrow> 'b act) \<Rightarrow> 'b act" where
  "seq m k s =
     (case m s of
        (es, None) \<Rightarrow> (es, None)
      | (es, Some (x, s')) \<Rightarrow> (case k x s' of (es', r) \<Rightarrow> (es @ es', r)))"

definition need :: "'a option \<Rightarrow> 'a act" where
  "need v s = ([], map_option (\<lambda>x. (x, s)) v)"

definition emit :: "tftp_event \<Rightarrow> unit act" where
  "emit e s = ([e], Some ((), s))"

definition get :: "tftpd act" where
  "get s = ([], Some (s, s))"

definition upd :: "(tftpd \<Rightarrow> tftpd) \<Rightarrow> unit act" where
  "upd f s = ([], Some ((), f s))"

text \<open>Reading and writing the fields of \<open>*args\<close>.\<close>

definition get_args :: "tftp_connection_args act" where
  "get_args = seq get (\<lambda>s. need (td_args s))"

definition upd_args :: "(tftp_connection_args \<Rightarrow> tftp_connection_args) \<Rightarrow> unit act" where
  "upd_args f = seq get_args (\<lambda>a. upd (\<lambda>s. s\<lparr>td_args := Some (f a)\<rparr>))"

lemmas act_defs = ret_def seq_def need_def emit_def get_def upd_def get_args_def upd_args_def

subsection \<open>tftpserver.c: packets\<close>

fun tftp_errorcode_string :: "tftp_errorcode \<Rightarrow> u8 list" where
  "tftp_errorcode_string TFTP_ERR_NOTDEFINED = bytes ''not defined''"
| "tftp_errorcode_string TFTP_ERR_FILE_NOT_FOUND = bytes ''file not found''"
| "tftp_errorcode_string TFTP_ERR_ACCESS_VIOLATION = bytes ''access violation''"
| "tftp_errorcode_string TFTP_ERR_DISKFULL = bytes ''disk full''"
| "tftp_errorcode_string TFTP_ERR_ILLEGALOP = bytes ''illegal operation''"
| "tftp_errorcode_string TFTP_ERR_UKNOWN_TRANSFER_ID = bytes ''unknown transfer id''"
| "tftp_errorcode_string TFTP_ERR_FILE_ALREADY_EXISTS = bytes ''file already exists''"
| "tftp_errorcode_string TFTP_ERR_NO_SUCH_USER = bytes ''no such user''"

text \<open>The length is an \<open>unsigned short\<close>.\<close>

definition tftp_send_message :: "int \<Rightarrow> u8 list \<Rightarrow> nat \<Rightarrow> unit act" where
  "tftp_send_message sock buf buflen =
     seq (need (rdn buf 0 (buflen mod 65536))) (\<lambda>d. emit (Tftp_send sock d))"

definition tftp_construct_error_message :: "u8 list \<Rightarrow> tftp_errorcode \<Rightarrow> (nat \<times> u8 list) option" where
  "tftp_construct_error_message buf err =
     do {
       b1 \<leftarrow> tftp_set_opcode buf TFTP_ERROR;
       b2 \<leftarrow> tftp_set_errorcode b1 err;
       b3 \<leftarrow> tftp_set_errormsg b2 (tftp_errorcode_string err);
       Some (4 + length (tftp_errorcode_string err) + 1, b3)
     }"

text \<open>
  The local arrays of the following functions start uninitialised; every byte of them that is sent
  has been written before.
\<close>

definition tftp_send_error_message :: "int \<Rightarrow> tftp_errorcode \<Rightarrow> unit act" where
  "tftp_send_error_message sock err =
     seq (need (tftp_construct_error_message (replicate 512 0) err)) (\<lambda>(error_len, buf).
       tftp_send_message sock buf error_len)"

definition tftp_send_data_packet :: "int \<Rightarrow> u16 \<Rightarrow> u8 list \<Rightarrow> nat \<Rightarrow> unit act" where
  "tftp_send_data_packet sock block buf buflen =
     seq (need (do {
         p1 \<leftarrow> tftp_set_opcode (replicate TFTP_DATA_PKT_LEN_MAX 0) TFTP_DATA;
         p2 \<leftarrow> tftp_set_block p1 block;
         tftp_set_data_message p2 buf buflen
       })) (\<lambda>packet. tftp_send_message sock packet (buflen + 4))"

definition tftp_send_ack_packet :: "int \<Rightarrow> u16 \<Rightarrow> unit act" where
  "tftp_send_ack_packet sock block =
     seq (need (do {
         p1 \<leftarrow> tftp_set_opcode (replicate TFTP_ACK_PKT_LEN 0) TFTP_ACK;
         tftp_set_block p1 block
       })) (\<lambda>packet. tftp_send_message sock packet TFTP_ACK_PKT_LEN)"

subsection \<open>tftpserver.c: transfers\<close>

definition fclose_file :: "unit act" where
  "fclose_file = seq get (\<lambda>s. seq (need (td_file s)) (\<lambda>f. upd (\<lambda>s. s\<lparr>td_file := None,
     td_files := (if st_write f then (td_files s)(st_name f \<mapsto> st_data f) else td_files s)\<rparr>)))"

text \<open>\<open>free\<close> of NULL does nothing; \<open>args\<close> tells whether the pointer is not NULL.\<close>

definition free_args :: "bool \<Rightarrow> unit act" where
  "free_args args = (if args then seq get_args (\<lambda>_. upd (\<lambda>s. s\<lparr>td_args := None\<rparr>)) else ret ())"

definition tftp_cleanup_rd :: "int \<Rightarrow> bool \<Rightarrow> unit act" where
  "tftp_cleanup_rd sock args =
     seq fclose_file (\<lambda>_. seq (free_args args) (\<lambda>_. emit (Close_sock sock)))"

definition tftp_cleanup_wr :: "int \<Rightarrow> bool \<Rightarrow> unit act" where
  "tftp_cleanup_wr sock args =
     seq fclose_file (\<lambda>_. seq (free_args args) (\<lambda>_. emit (Close_sock sock)))"

text \<open>\<open>fread\<close> of at most 512 bytes.\<close>

definition fread_file :: "(u8 list) act" where
  "fread_file = seq get (\<lambda>s. seq (need (td_file s)) (\<lambda>f.
     seq (upd (\<lambda>s. s\<lparr>td_file := Some (f\<lparr>st_data := drop TFTP_DATA_LEN_MAX (st_data f)\<rparr>)\<rparr>)) (\<lambda>_.
       ret (take TFTP_DATA_LEN_MAX (st_data f)))))"

definition tftp_send_next_block :: "int \<Rightarrow> unit act" where
  "tftp_send_next_block sock =
     seq fread_file (\<lambda>d.
     seq get_args (\<lambda>a.
     seq (need (wrn (ta_data a) 0 d)) (\<lambda>data.
     seq (upd_args (\<lambda>a. a\<lparr>ta_data := data, ta_data_len := length d\<rparr>)) (\<lambda>_.
       tftp_send_data_packet sock (word_of_int (ta_block a)) data (length d)))))"

text \<open>
  Allocating and filling in \<open>*args\<close>; \<open>data\<close> and \<open>data_len\<close> start uninitialised and are set before they are
  used.  The fields \<open>to\<close> and \<open>last_time\<close> are never used and left out.
\<close>

definition new_args :: "int \<Rightarrow> unit act" where
  "new_args block =
     upd (\<lambda>s. s\<lparr>td_args := Some \<lparr>ta_op = TFTP_RRQ, ta_data = replicate TFTP_DATA_PKT_LEN_MAX 0, ta_data_len = 0,
       ta_block = block, ta_tot_bytes = 0\<rparr>\<rparr>)"

text \<open>\<open>memset\<close> of the receive buffer, then a datagram (cut at the size of the buffer), if there is one.\<close>

definition recv_cleared :: "u8 list option \<Rightarrow> int act" where
  "recv_cleared d =
     (let bs = (case d of None \<Rightarrow> [] | Some bs \<Rightarrow> take 1024 bs) in
      seq (need (wrn (replicate 1024 0) 0 bs)) (\<lambda>b.
      seq (upd (\<lambda>s. s\<lparr>tftpRecvBuffer := b\<rparr>)) (\<lambda>_.
        ret (case d of None \<Rightarrow> -1 | Some _ \<Rightarrow> int (length bs)))))"

text \<open>
  A read request.  \<open>te_recv\<close> is what \<open>recvfrom\<close> returns, \<open>None\<close> for -1; when it never returns, nothing after
  the first packet happens.  The call of \<open>recvfrom\<close> passes the address of the pointer \<open>to\<close> for the 16 bytes of
  the sender's address: as soon as a datagram arrives, this writes over what lies behind the
  pointer, which is undefined.
\<close>

definition tftp_process_read :: "tftp_env \<Rightarrow> int \<Rightarrow> u8 list \<Rightarrow> int act" where
  "tftp_process_read env sock FileName =
     seq (need (cstr FileName 0)) (\<lambda>name.
     seq get (\<lambda>s.
     seq (upd (\<lambda>s. s\<lparr>td_file := map_option (\<lambda>c. \<lparr>st_name = name, st_write = False, st_data = c\<rparr>) (td_files s name)\<rparr>)) (\<lambda>_.
     (if td_files s name = None
      then seq (tftp_send_error_message sock TFTP_ERR_FILE_NOT_FOUND) (\<lambda>_.
           seq (tftp_cleanup_rd sock False) (\<lambda>_. ret 0))
      else if \<not> te_malloc env
      then seq (tftp_send_error_message sock TFTP_ERR_NOTDEFINED) (\<lambda>_.
           seq (tftp_cleanup_rd sock False) (\<lambda>_. ret 0))
      else
        seq (new_args 1) (\<lambda>_.
        seq (tftp_send_next_block sock) (\<lambda>_.
        seq (need (if te_recv env = None then Some () else None)) (\<lambda>_.
        seq (recv_cleared (te_recv env)) (\<lambda>_.
        seq get (\<lambda>s.
        seq get_args (\<lambda>a.
        seq (need (tftp_is_correct_ack (tftpRecvBuffer s) (ta_block a))) (\<lambda>ok.
        seq (if ok then upd_args (\<lambda>a. a\<lparr>ta_block := ta_block a + 1\<rparr>) else tftp_cleanup_rd sock True) (\<lambda>_.
        seq get_args (\<lambda>a.
        seq (if ta_data_len a < TFTP_DATA_LEN_MAX then tftp_cleanup_rd sock True else ret ()) (\<lambda>_.
          ret 1))))))))))))))"

definition fwrite_file :: "nat \<Rightarrow> u8 list \<Rightarrow> nat act" where
  "fwrite_file n d = seq get (\<lambda>s. seq (need (td_file s)) (\<lambda>f.
     seq (upd (\<lambda>s. s\<lparr>td_file := Some (f\<lparr>st_data := st_data f @ take n d\<rparr>)\<rparr>)) (\<lambda>_. ret (length (take n d)))))"

text \<open>The first data packet of a write request, of \<open>num\<close> bytes in the buffer.\<close>

definition write_data :: "tftp_env \<Rightarrow> int \<Rightarrow> int \<Rightarrow> unit act" where
  "write_data env sock num =
     seq get (\<lambda>s.
     seq get_args (\<lambda>a.
     seq (need (tftp_extract_block (tftpRecvBuffer s))) (\<lambda>b.
     (if num > int TFTP_DATA_PKT_HDR_LEN \<and> int (unat b) = ta_block a + 1
      then
        seq (need (rdn (tftpRecvBuffer s) TFTP_DATA_PKT_HDR_LEN (nat num - TFTP_DATA_PKT_HDR_LEN))) (\<lambda>d.
        seq (fwrite_file (te_fwrite env) d) (\<lambda>n.
        seq (if n = 0
             then seq (tftp_send_error_message sock TFTP_ERR_FILE_NOT_FOUND) (\<lambda>_. tftp_cleanup_rd sock True)
             else ret ()) (\<lambda>_.
          upd_args (\<lambda>a. a\<lparr>ta_block := ta_block a + 1, ta_tot_bytes := ta_tot_bytes a + (num - 4)\<rparr>))))
      else if int (unat b) = ta_block a + 1 then upd_args (\<lambda>a. a\<lparr>ta_block := ta_block a + 1\<rparr>)
      else ret ()))))"

definition tftp_process_write :: "tftp_env \<Rightarrow> int \<Rightarrow> u8 list \<Rightarrow> int act" where
  "tftp_process_write env sock FileName =
     seq (need (cstr FileName 0)) (\<lambda>name.
     (if \<not> te_fopen env
      then seq (upd (\<lambda>s. s\<lparr>td_file := None\<rparr>)) (\<lambda>_.
           seq (tftp_send_error_message sock TFTP_ERR_FILE_NOT_FOUND) (\<lambda>_.
           seq (tftp_cleanup_rd sock False) (\<lambda>_. ret 0)))
      else
        seq (upd (\<lambda>s. s\<lparr>td_files := (td_files s)(name \<mapsto> []),
             td_file := Some \<lparr>st_name = name, st_write = True, st_data = []\<rparr>\<rparr>)) (\<lambda>_.
        (if \<not> te_malloc env
         then seq (tftp_send_error_message sock TFTP_ERR_NOTDEFINED) (\<lambda>_.
              seq (tftp_cleanup_rd sock False) (\<lambda>_. ret 0))
         else
           seq (new_args 0) (\<lambda>_.
           seq get_args (\<lambda>a.
           seq (tftp_send_ack_packet sock (word_of_int (ta_block a))) (\<lambda>_.
           seq (recv_cleared (te_recv env)) (\<lambda>num.
           seq (write_data env sock num) (\<lambda>_.
           seq get_args (\<lambda>a.
           seq (tftp_send_ack_packet sock (word_of_int (ta_block a))) (\<lambda>_.
           seq (if num < int TFTP_DATA_PKT_LEN_MAX then tftp_cleanup_wr sock True else ret ()) (\<lambda>_.
           seq (emit Signal_parent) (\<lambda>_.
             ret 0)))))))))))))"

subsection \<open>tftpserver.c: requests\<close>

definition process_tftp_request :: "tftp_env \<Rightarrow> int \<Rightarrow> u8 list \<Rightarrow> unit act" where
  "process_tftp_request env sock pkt_buf =
     seq (need (tftp_decode_op pkt_buf)) (\<lambda>op.
     (if te_sock env = -1 then tftp_send_error_message sock TFTP_ERR_NOTDEFINED
      else if \<not> te_bind env then ret ()
      else if op = TFTP_RRQ
      then seq (need (tftp_extract_filename (replicate 30 0) pkt_buf)) (\<lambda>FileName.
           seq (tftp_process_read env (te_sock env) FileName) (\<lambda>_. ret ()))
      else if op = TFTP_WRQ
      then seq (need (tftp_extract_filename (replicate 30 0) pkt_buf)) (\<lambda>FileName.
           seq (tftp_process_write env (te_sock env) FileName) (\<lambda>_. ret ()))
      else seq (tftp_send_error_message (te_sock env) TFTP_ERR_ACCESS_VIOLATION) (\<lambda>_.
           emit (Close_sock (te_sock env)))))"

text \<open>
  A turn of the loop of \<open>tftpd_init\<close>: a datagram (\<open>None\<close> for a failure) is written over the front of the
  buffer, which is not cleared before, and processed.
\<close>

definition tftpd_turn :: "tftp_env \<Rightarrow> int \<Rightarrow> u8 list option \<Rightarrow> unit act" where
  "tftpd_turn env sockfd d =
     (case d of
        None \<Rightarrow> ret ()
      | Some bs \<Rightarrow>
          if bs = [] then ret ()
          else
            seq get (\<lambda>s.
            seq (need (wrn (tftpRecvBuffer s) 0 (take 1024 bs))) (\<lambda>b.
            seq (upd (\<lambda>s. s\<lparr>tftpRecvBuffer := b\<rparr>)) (\<lambda>_.
              process_tftp_request env sockfd b))))"

subsection \<open>Packets\<close>

definition block_bytes :: "u16 \<Rightarrow> u8 list" where
  "block_bytes b = [word_of_nat (unat b div 256), word_of_nat (unat b mod 256)]"

definition ack_packet :: "u16 \<Rightarrow> u8 list" where
  "ack_packet b = [0, 4] @ block_bytes b"

definition data_packet :: "u16 \<Rightarrow> u8 list \<Rightarrow> u8 list" where
  "data_packet b d = [0, 3] @ block_bytes b @ d"

definition error_packet :: "tftp_errorcode \<Rightarrow> u8 list" where
  "error_packet e = [0, 5, 0, err_num e] @ tftp_errorcode_string e @ [0]"

lemma header_writes [c_array]:
  "wr (a # b # c # d # r) 0 x = Some (x # b # c # d # r)"
  "wr (a # b # c # d # r) 1 x = Some (a # x # c # d # r)"
  "wr (a # b # c # d # r) 2 x = Some (a # b # x # d # r)"
  "wr (a # b # c # d # r) 3 x = Some (a # b # c # x # r)"
  by (simp_all add: wr_def numeral_eq_Suc)

lemma header_reads [c_array]:
  "rd (a # b # c # d # r) 1 = Some b" "rd (a # b # c # d # r) 2 = Some c" "rd (a # b # c # d # r) 3 = Some d"
  by (simp_all add: rd_def numeral_eq_Suc)

lemma body_write [c_array]:
  "length ys \<le> length r \<Longrightarrow> wrn (a # b # c # d # r) 4 ys = Some (a # b # c # d # ys @ drop (length ys) r)"
  by (simp add: wrn_def numeral_eq_Suc)

lemma body_read [c_array]: "length ys \<le> length r \<Longrightarrow> n = 4 + length ys \<Longrightarrow>
   rdn (a # b # c # d # ys @ drop (length ys) r) 0 n = Some (a # b # c # d # ys)"
  by (simp add: rdn_def numeral_eq_Suc)

lemma zeros_4: "4 \<le> n \<Longrightarrow> replicate n (0 :: u8) = 0 # 0 # 0 # 0 # replicate (n - 4) 0"
proof -
  assume "4 \<le> n"
  then have "replicate n (0 :: u8) = replicate 4 0 @ replicate (n - 4) 0" by (simp flip: replicate_add)
  also have "replicate 4 (0 :: u8) = [0, 0, 0, 0]" by (simp add: numeral_eq_Suc)
  finally show ?thesis by simp
qed

lemma local_arrays:
  "replicate 4 (0 :: u8) = [0, 0, 0, 0]" "replicate 512 (0 :: u8) = 0 # 0 # 0 # 0 # replicate 508 0"
  "replicate 516 (0 :: u8) = 0 # 0 # 0 # 0 # replicate 512 0"
  using zeros_4 [of 4] zeros_4 [of 512] zeros_4 [of 516] by simp_all

lemma length_error_string: "length (tftp_errorcode_string e) \<le> 100"
  by (cases e) simp_all

lemma tftp_send_error_message_ok:
  "tftp_send_error_message sock e s = ([Tftp_send sock (error_packet e)], Some ((), s))"
proof -
  let ?r = "replicate 508 (0 :: u8)" and ?m = "tftp_errorcode_string e @ [0]"
  have l: "length ?m \<le> length ?r" using length_error_string [of e] by simp
  have "tftp_construct_error_message (replicate 512 0) e =
      Some (4 + length ?m, 0 # 5 # 0 # err_num e # ?m @ drop (length ?m) ?r)"
    using l body_write [OF l, of 0 5 0 "err_num e"]
    by (simp add: tftp_construct_error_message_def local_arrays(2) tftp_set_opcode_def tftp_set_errorcode_def
        tftp_set_errormsg_def TFTP_ERROR_def header_writes)
  moreover have "(4 + length ?m) mod 65536 = 4 + length ?m" using length_error_string [of e] by simp
  moreover note body_read [OF l refl, of 0 5 0 "err_num e"]
  ultimately show ?thesis
    by (simp add: tftp_send_error_message_def tftp_send_message_def act_defs error_packet_def)
qed

lemma tftp_send_ack_packet_ok:
  "tftp_send_ack_packet sock b s = ([Tftp_send sock (ack_packet b)], Some ((), s))"
  using body_read [of "[]" "[]" 4] 
  by (simp add: tftp_send_ack_packet_def TFTP_ACK_PKT_LEN_def local_arrays(1) tftp_set_opcode_def tftp_set_block_def
      header_writes tftp_send_message_def act_defs ack_packet_def block_bytes_def TFTP_ACK_def)

lemma tftp_send_data_packet_ok:
  assumes "length d \<le> 512" and "rdn buf 0 (length d) = Some d"
  shows "tftp_send_data_packet sock b buf (length d) s = ([Tftp_send sock (data_packet b d)], Some ((), s))"
proof -
  have l: "length d \<le> length (replicate 512 (0 :: u8))" using assms(1) by simp
  have "(length d + 4) mod 65536 = 4 + length d" using assms(1) by simp
  then show ?thesis
    using body_read [OF l add.commute] body_write [OF l] assms
    by (simp add: tftp_send_data_packet_def TFTP_DATA_PKT_LEN_MAX_def TFTP_DATA_PKT_HDR_LEN_def TFTP_DATA_LEN_MAX_def
        local_arrays(3) tftp_set_opcode_def tftp_set_block_def tftp_set_data_message_def header_writes tftp_send_message_def
        act_defs data_packet_def block_bytes_def TFTP_DATA_def)
qed

subsection \<open>A write request\<close>

lemma write_data_ok:
  assumes "tftpRecvBuffer s = 0 # 3 # 0 # 1 # d @ z" and "td_args s = Some a" "ta_block a = 0"
    and "td_file s = Some f" and "length d \<le> te_fwrite env"
  shows "write_data env sock (4 + int (length d)) s =
     ([], Some ((), s\<lparr>td_file := Some (f\<lparr>st_data := st_data f @ d\<rparr>),
        td_args := Some (a\<lparr>ta_block := 1, ta_tot_bytes := ta_tot_bytes a + int (length d)\<rparr>)\<rparr>))"
proof -
  have b: "tftp_extract_block (tftpRecvBuffer s) = Some 1"
    using assms(1) by (simp add: tftp_extract_block_def header_reads)
  have d: "rdn (tftpRecvBuffer s) 4 (nat (4 + int (length d)) - 4) = Some d"
    using assms(1) by (simp add: rdn_def nat_add_distrib numeral_eq_Suc)
  show ?thesis
  proof (cases "d = []")
    case True
    then show ?thesis
      using b assms(2-4) by (simp add: write_data_def act_defs TFTP_DATA_PKT_HDR_LEN_def)
  next
    case False
    then show ?thesis
      using b d assms(2-5) by (simp add: write_data_def fwrite_file_def act_defs TFTP_DATA_PKT_HDR_LEN_def)
  qed
qed

lemma recv_cleared_ok:
  assumes "length bs \<le> 1024"
  shows "recv_cleared (Some bs) s =
     ([], Some (int (length bs), s\<lparr>tftpRecvBuffer := bs @ replicate (1024 - length bs) 0\<rparr>))"
  using assms by (simp add: recv_cleared_def wrn_def act_defs)

lemma recv_cleared_none:
  "recv_cleared None s = ([], Some (-1, s\<lparr>tftpRecvBuffer := replicate 1024 0\<rparr>))"
  by (simp add: recv_cleared_def wrn_def act_defs)

definition write_env :: "tftp_env \<Rightarrow> u8 list \<Rightarrow> bool" where
  "write_env env d \<longleftrightarrow> te_sock env \<noteq> -1 \<and> te_bind env \<and> te_fopen env \<and> te_malloc env \<and>
     te_recv env = Some (data_packet 1 d) \<and> length d \<le> te_fwrite env"

lemmas cleanup_defs = tftp_cleanup_wr_def tftp_cleanup_rd_def fclose_file_def free_args_def

lemmas tftp_sizes = TFTP_DATA_PKT_LEN_MAX_def TFTP_DATA_PKT_HDR_LEN_def TFTP_DATA_LEN_MAX_def

lemma tftp_process_write_ok:
  assumes env: "write_env env d" and d: "length d \<le> 512" and name: "cstr FileName 0 = Some name"
  shows "\<exists>s'. tftp_process_write env k FileName s =
       ([Tftp_send k (ack_packet 0), Tftp_send k (ack_packet 1)] @
        (if length d < 512 then [Close_sock k] else []) @ [Signal_parent], Some (0, s')) \<and>
     (if length d < 512 then td_files s' = (td_files s)(name \<mapsto> d) \<and> td_file s' = None \<and> td_args s' = None
      else td_files s' = (td_files s)(name \<mapsto> []) \<and> td_file s' \<noteq> None \<and> td_args s' \<noteq> None) \<and>
     length (tftpRecvBuffer s') = 1024"
proof -
  let ?z = "replicate (1020 - length d) 0"
  have z: "length d + (1020 - length d) = 1020" using d by simp
  have p: "data_packet 1 d = 0 # 3 # 0 # 1 # d" by (simp add: data_packet_def block_bytes_def)
  have r: "recv_cleared (Some (data_packet 1 d)) t =
      ([], Some (4 + int (length d), t\<lparr>tftpRecvBuffer := 0 # 3 # 0 # 1 # d @ ?z\<rparr>))" for t
    using env d recv_cleared_ok [of "data_packet 1 d" t] by (simp add: write_env_def p)
  show ?thesis
  proof (cases "length d < 512")
    case True
    then show ?thesis
      using env name
      by (simp add: tftp_process_write_def write_env_def act_defs new_args_def r write_data_ok
          tftp_send_ack_packet_ok cleanup_defs tftp_sizes z)
  next
    case False
    then show ?thesis
      using env name
      by (simp add: tftp_process_write_def write_env_def act_defs new_args_def r write_data_ok
          tftp_send_ack_packet_ok cleanup_defs tftp_sizes z)
  qed
qed

text \<open>The first datagram of a write is not a data packet of block 1, or carries no data.\<close>

definition no_first_block :: "u8 list \<Rightarrow> bool" where
  "no_first_block bs \<longleftrightarrow> length bs < 516 \<and> (length bs \<le> 4 \<or> (bs ! 2, bs ! 3) \<noteq> (0, 1))"

definition lost_env :: "tftp_env \<Rightarrow> u8 list \<Rightarrow> bool" where
  "lost_env env bs \<longleftrightarrow> te_sock env \<noteq> -1 \<and> te_bind env \<and> te_fopen env \<and> te_malloc env \<and>
     te_recv env = Some bs \<and> no_first_block bs"

lemma write_data_lost:
  assumes "no_first_block bs" and "tftpRecvBuffer s = bs @ replicate (1024 - length bs) 0"
    and "td_args s = Some a" "ta_block a = 0"
  shows "\<exists>a'. write_data env sock (int (length bs)) s = ([], Some ((), s\<lparr>td_args := Some a'\<rparr>))"
proof -
  define hi where "hi = (bs @ replicate (1024 - length bs) 0) ! 2"
  define lo where "lo = (bs @ replicate (1024 - length bs) 0) ! 3"
  have l: "length bs < 516" using assms(1) by (simp add: no_first_block_def)
  define v :: u16 where "v = word_of_nat (unat hi * 256 + unat lo)"
  have b: "tftp_extract_block (tftpRecvBuffer s) = Some v"
    using l assms(2) by (simp add: tftp_extract_block_def rd_def hi_def lo_def v_def)
  have n: "unat v = unat hi * 256 + unat lo"
    unfolding v_def using u8_less [of hi] u8_less [of lo] by (intro unat_of_nat_u16) simp
  have same: "s\<lparr>td_args := Some a\<rparr> = s" using assms(3) by simp
  show ?thesis
  proof (cases "length bs \<le> 4")
    case True
    then show ?thesis
      using b assms(3,4)
      by (auto simp: write_data_def act_defs TFTP_DATA_PKT_HDR_LEN_def intro: exI [of _ a] same [symmetric])
  next
    case False
    then have "hi = bs ! 2" "lo = bs ! 3" by (simp_all add: hi_def lo_def nth_append)
    with assms(1) False have "(hi, lo) \<noteq> (0, 1)" by (simp add: no_first_block_def)
    have "unat v \<noteq> 1"
    proof
      assume "unat v = 1"
      then have "unat hi = unat (0 :: u8)" "unat lo = unat (1 :: u8)" using n by simp_all presburger+
      then have "hi = 0" "lo = 1" by (simp_all only: unsigned_word_eqI)
      with \<open>(hi, lo) \<noteq> (0, 1)\<close> show False by simp
    qed
    then have "int (unat v) \<noteq> 1" by linarith
    with b assms(3,4) False show ?thesis
      by (auto simp: write_data_def act_defs TFTP_DATA_PKT_HDR_LEN_def simp del: of_nat_unat intro: exI [of _ a] same [symmetric])
  qed
qed

lemma tftp_process_write_lost:
  assumes env: "lost_env env bs" and name: "cstr FileName 0 = Some name"
  shows "\<exists>evs s'. tftp_process_write env k FileName s = (evs, Some (0, s')) \<and> Signal_parent \<in> set evs \<and>
     td_files s' = (td_files s)(name \<mapsto> []) \<and> td_file s' = None \<and> td_args s' = None \<and> length (tftpRecvBuffer s') = 1024"
proof -
  have l: "length bs < 516" using env by (simp add: lost_env_def no_first_block_def)
  let ?b = "bs @ replicate (1024 - length bs) 0"
  have r: "recv_cleared (Some bs) t = ([], Some (int (length bs), t\<lparr>tftpRecvBuffer := ?b\<rparr>))" for t
    using recv_cleared_ok [of bs t] l by simp
  let ?a = "\<lparr>ta_op = TFTP_RRQ, ta_data = replicate TFTP_DATA_PKT_LEN_MAX 0, ta_data_len = 0, ta_block = 0, ta_tot_bytes = 0\<rparr>"
  let ?s = "s\<lparr>td_files := (td_files s)(name \<mapsto> []), td_file := Some \<lparr>st_name = name, st_write = True, st_data = []\<rparr>,
    td_args := Some ?a, tftpRecvBuffer := ?b\<rparr>"
  obtain a' where "write_data env k (int (length bs)) ?s = ([], Some ((), ?s\<lparr>td_args := Some a'\<rparr>))"
    using write_data_lost [of bs ?s ?a] env by (auto simp: lost_env_def)
  then show ?thesis
    using env name l
    by (simp add: tftp_process_write_def lost_env_def act_defs new_args_def r tftp_send_ack_packet_ok cleanup_defs
        tftp_sizes)
qed

subsection \<open>A read request\<close>

lemma tftp_process_read_undefined:
  assumes name: "cstr FileName 0 = Some name" and mal: "te_malloc env"
  shows "tftp_process_read env k FileName s =
     (case td_files s name of
        None \<Rightarrow> ([Tftp_send k (error_packet TFTP_ERR_FILE_NOT_FOUND)], None)
      | Some c \<Rightarrow> ([Tftp_send k (data_packet 1 (take 512 c))] @ (if te_recv env = None then [Close_sock k] else []), None))"
proof (cases "td_files s name")
  case None
  then show ?thesis
    using name by (simp add: tftp_process_read_def act_defs tftp_send_error_message_ok cleanup_defs)
next
  case (Some c)
  let ?d = "take 512 c"
  let ?data = "?d @ replicate (516 - length ?d) 0"
  have w: "wrn (replicate 516 0) 0 ?d = Some ?data" by (simp add: wrn_def)
  have d: "length ?d \<le> 512" "rdn ?data 0 (length ?d) = Some ?d"
    using rdn_append [of "[]" ?d] by (simp_all only: append_Nil list.size) simp
  have snd: "tftp_send_data_packet k 1 ?data (min (length c) 512) t = ([Tftp_send k (data_packet 1 ?d)], Some ((), t))" for t
    using tftp_send_data_packet_ok [OF d, of k 1 t] by simp
  have ack: "tftp_is_correct_ack (replicate 1024 0) 1 = Some False"
    by (simp add: tftp_is_correct_ack_def tftp_decode_op_def rd_def TFTP_ACK_def)
  show ?thesis
    using name mal Some w snd ack
    by (cases "te_recv env") (simp_all add: tftp_process_read_def act_defs new_args_def tftp_send_next_block_def
        fread_file_def tftp_sizes recv_cleared_none cleanup_defs)
qed

subsection \<open>Requests in the receive buffer\<close>

definition request :: "u8 \<Rightarrow> u8 list \<Rightarrow> u8 list \<Rightarrow> u8 list" where
  "request op name mode = [0, op] @ name @ [0] @ mode"

lemma request_cstr:
  assumes "0 \<notin> set name"
  shows "cstr (request op name mode @ z) 2 = Some name"
  using cstr_prefix [OF assms, of "[0, op]" "mode @ z"] by (simp add: request_def numeral_2_eq_2)

lemma extract_filename:
  assumes "cstr b 2 = Some name"
  shows "if length name < 30 then \<exists>fn. tftp_extract_filename (replicate 30 0) b = Some fn \<and> cstr fn 0 = Some name
     else tftp_extract_filename (replicate 30 0) b = None"
proof (cases "length name < 30")
  case True
  let ?fn = "name @ 0 # drop (Suc (length name)) (replicate 30 0)"
  have "tftp_extract_filename (replicate 30 0) b = Some ?fn"
    using True assms by (simp add: tftp_extract_filename_def wrn_def)
  moreover have "cstr ?fn 0 = Some name" using cstr_prefix [OF cstr_no_zero [OF assms], of "[]"] by simp
  ultimately show ?thesis using True by simp
next
  case False
  then show ?thesis using assms by (simp add: tftp_extract_filename_def wrn_def)
qed

lemma tftpd_turn_request:
  assumes "length (tftpRecvBuffer s) = 1024" and "length (request op name mode) \<le> 1024"
  defines "b \<equiv> request op name mode @ drop (length (request op name mode)) (tftpRecvBuffer s)"
  shows "tftpd_turn env l (Some (request op name mode)) s = process_tftp_request env l b (s\<lparr>tftpRecvBuffer := b\<rparr>)"
    and "tftp_decode_op b = Some op"
proof -
  have "request op name mode \<noteq> []" by (simp add: request_def)
  then show "tftpd_turn env l (Some (request op name mode)) s = process_tftp_request env l b (s\<lparr>tftpRecvBuffer := b\<rparr>)"
    using assms by (simp add: tftpd_turn_def act_defs wrn_def)
  show "tftp_decode_op b = Some op" by (simp add: b_def tftp_decode_op_def rd_def request_def)
qed

lemma tftpd_write:
  assumes "length (tftpRecvBuffer s) = 1024" and "length (request TFTP_WRQ name mode) \<le> 1024"
    and "0 \<notin> set name" "length name < 30" and "write_env env d" and "length d \<le> 512"
  shows "\<exists>s'. tftpd_turn env l (Some (request TFTP_WRQ name mode)) s =
       ([Tftp_send (te_sock env) (ack_packet 0), Tftp_send (te_sock env) (ack_packet 1)] @
        (if length d < 512 then [Close_sock (te_sock env)] else []) @ [Signal_parent], Some ((), s')) \<and>
     (if length d < 512 then td_files s' = (td_files s)(name \<mapsto> d) \<and> td_file s' = None \<and> td_args s' = None
      else td_files s' = (td_files s)(name \<mapsto> []) \<and> td_file s' \<noteq> None \<and> td_args s' \<noteq> None) \<and>
     length (tftpRecvBuffer s') = 1024"
proof -
  let ?r = "request TFTP_WRQ name mode"
  let ?b = "?r @ drop (length ?r) (tftpRecvBuffer s)"
  obtain fn where fn: "tftp_extract_filename (replicate 30 0) ?b = Some fn" "cstr fn 0 = Some name"
    using extract_filename [OF request_cstr [OF assms(3)]] assms(4) by (simp only: if_True) blast
  obtain s' where s': "tftp_process_write env (te_sock env) fn (s\<lparr>tftpRecvBuffer := ?b\<rparr>) =
       ([Tftp_send (te_sock env) (ack_packet 0), Tftp_send (te_sock env) (ack_packet 1)] @
        (if length d < 512 then [Close_sock (te_sock env)] else []) @ [Signal_parent], Some (0, s'))"
     "if length d < 512 then td_files s' = (td_files s)(name \<mapsto> d) \<and> td_file s' = None \<and> td_args s' = None
      else td_files s' = (td_files s)(name \<mapsto> []) \<and> td_file s' \<noteq> None \<and> td_args s' \<noteq> None"
     "length (tftpRecvBuffer s') = 1024"
    using tftp_process_write_ok [OF assms(5,6) fn(2), of "te_sock env" "s\<lparr>tftpRecvBuffer := ?b\<rparr>"] by auto
  have "process_tftp_request env l ?b (s\<lparr>tftpRecvBuffer := ?b\<rparr>) =
      ([Tftp_send (te_sock env) (ack_packet 0), Tftp_send (te_sock env) (ack_packet 1)] @
        (if length d < 512 then [Close_sock (te_sock env)] else []) @ [Signal_parent], Some ((), s'))"
    using tftpd_turn_request(2) [OF assms(1,2)] fn(1) s'(1) assms(5)
    by (simp add: process_tftp_request_def act_defs write_env_def TFTP_WRQ_def TFTP_RRQ_def)
  with s'(2,3) tftpd_turn_request(1) [OF assms(1,2), of env l] show ?thesis by auto
qed

lemma tftpd_write_lost:
  assumes "length (tftpRecvBuffer s) = 1024" and "length (request TFTP_WRQ name mode) \<le> 1024"
    and "0 \<notin> set name" "length name < 30" and "lost_env env bs"
  shows "\<exists>evs s'. tftpd_turn env l (Some (request TFTP_WRQ name mode)) s = (evs, Some ((), s')) \<and>
     Signal_parent \<in> set evs \<and> td_files s' = (td_files s)(name \<mapsto> [])"
proof -
  let ?r = "request TFTP_WRQ name mode"
  let ?b = "?r @ drop (length ?r) (tftpRecvBuffer s)"
  obtain fn where fn: "tftp_extract_filename (replicate 30 0) ?b = Some fn" "cstr fn 0 = Some name"
    using extract_filename [OF request_cstr [OF assms(3)]] assms(4) by (simp only: if_True) blast
  obtain evs s' where s': "tftp_process_write env (te_sock env) fn (s\<lparr>tftpRecvBuffer := ?b\<rparr>) = (evs, Some (0, s'))"
    "Signal_parent \<in> set evs" "td_files s' = (td_files s)(name \<mapsto> [])"
    using tftp_process_write_lost [OF assms(5) fn(2), of "te_sock env" "s\<lparr>tftpRecvBuffer := ?b\<rparr>"] by auto
  have "process_tftp_request env l ?b (s\<lparr>tftpRecvBuffer := ?b\<rparr>) = (evs, Some ((), s'))"
    using tftpd_turn_request(2) [OF assms(1,2)] fn(1) s'(1) assms(5)
    by (simp add: process_tftp_request_def act_defs lost_env_def TFTP_WRQ_def TFTP_RRQ_def)
  with s'(2,3) tftpd_turn_request(1) [OF assms(1,2), of env l] show ?thesis by auto
qed

subsection \<open>Properties\<close>

text \<open>
  C26. Receiving a file.  A write request with a name below 30 bytes, followed by a first data packet
  of at most 512 bytes, is acknowledged twice, and the parent is signalled.  When the packet is
  shorter than 512 bytes the transfer is complete: the file holds exactly the data, the stream is
  closed, the block freed and the socket closed.  A packet of 512 bytes, after which the protocol
  has more to send, ends the same way for the parent, but the stream is never closed, the file
  stays empty as far as its readers can rely on, and block and socket leak.\<close>

theorem tftpd_write_stores:
  assumes "length (tftpRecvBuffer s) = 1024" and "length (request TFTP_WRQ name mode) \<le> 1024"
    and "0 \<notin> set name" "length name < 30" and "write_env env d" and "length d \<le> 512"
  shows "\<exists>s'. tftpd_turn env l (Some (request TFTP_WRQ name mode)) s =
       ([Tftp_send (te_sock env) (ack_packet 0), Tftp_send (te_sock env) (ack_packet 1)] @
        (if length d < 512 then [Close_sock (te_sock env)] else []) @ [Signal_parent], Some ((), s')) \<and>
     (if length d < 512 then td_files s' = (td_files s)(name \<mapsto> d) \<and> td_file s' = None \<and> td_args s' = None
      else td_files s' = (td_files s)(name \<mapsto> []) \<and> td_file s' \<noteq> None \<and> td_args s' \<noteq> None)"
  using tftpd_write [OF assms] by blast

definition ex_tftpd :: tftpd where
  "ex_tftpd = \<lparr>tftpRecvBuffer = replicate 1024 0, td_files = Map.empty, td_file = None, td_args = None\<rparr>"

definition ex_tftp_env :: "u8 list \<Rightarrow> tftp_env" where
  "ex_tftp_env d = \<lparr>te_sock = 7, te_bind = True, te_fopen = True, te_malloc = True, te_recv = Some (data_packet 1 d),
     te_fwrite = 512\<rparr>"

theorem tftpd_write_stores_witness:
  "\<exists>s'. tftpd_turn (ex_tftp_env (bytes ''1/a#'')) 3 (Some (request TFTP_WRQ (bytes ''IPtable.txt'') (bytes ''octet''))) ex_tftpd =
       ([Tftp_send 7 [0, 4, 0, 0], Tftp_send 7 [0, 4, 0, 1], Close_sock 7, Signal_parent], Some ((), s')) \<and>
     td_files s' (bytes ''IPtable.txt'') = Some (bytes ''1/a#'')"
proof -
  have z: "0 \<notin> set (bytes ''IPtable.txt'')" by (simp add: bytes_def)
  have e: "write_env (ex_tftp_env (bytes ''1/a#'')) (bytes ''1/a#'')" by (simp add: write_env_def ex_tftp_env_def)
  show ?thesis
    using tftpd_write_stores [OF _ _ z _ e, of ex_tftpd "bytes ''octet''" 3]
    by (simp add: ex_tftpd_def request_def ack_packet_def block_bytes_def) (auto simp: ex_tftp_env_def)
qed

text \<open>
  C39. Reading a file fails.  Take a read request, with a name that fits, for which the server gets its
  socket, its port and the memory of the transfer.  If the file is not there, the server sends the error
  packet and then closes a NULL stream, which is undefined.  If it is there, the server sends exactly one
  packet, the first 512 bytes of the file as block 1, and goes on when \<open>recvfrom\<close> returns; from then on
  every path is undefined: a datagram makes \<open>recvfrom\<close> write the sender's address over a pointer, and after
  a failure (-1) the block is used after it was freed.  If no datagram ever comes, \<open>recvfrom\<close> does not
  return, as no timeout is set; this case is not in the model, in which \<open>te_recv\<close> is what the call returns.\<close>

theorem tftpd_read_undefined:
  assumes "length (tftpRecvBuffer s) = 1024" and "length (request TFTP_RRQ name mode) \<le> 1024"
    and "0 \<notin> set name" "length name < 30" and "te_sock env \<noteq> -1" "te_bind env" "te_malloc env"
  shows "tftpd_turn env l (Some (request TFTP_RRQ name mode)) s =
     (case td_files s name of
        None \<Rightarrow> ([Tftp_send (te_sock env) (error_packet TFTP_ERR_FILE_NOT_FOUND)], None)
      | Some c \<Rightarrow> ([Tftp_send (te_sock env) (data_packet 1 (take 512 c))] @
          (if te_recv env = None then [Close_sock (te_sock env)] else []), None))"
proof -
  let ?r = "request TFTP_RRQ name mode"
  let ?b = "?r @ drop (length ?r) (tftpRecvBuffer s)"
  obtain fn where fn: "tftp_extract_filename (replicate 30 0) ?b = Some fn" "cstr fn 0 = Some name"
    using extract_filename [OF request_cstr [OF assms(3)]] assms(4) by (simp only: if_True) blast
  show ?thesis
    unfolding tftpd_turn_request(1) [OF assms(1,2)]
    using tftpd_turn_request(2) [OF assms(1,2)] fn(1) assms(5,6) tftp_process_read_undefined [OF fn(2) assms(7)]
    by (simp add: process_tftp_request_def act_defs split: option.splits)
qed

theorem tftpd_read_undefined_witness:
  "tftpd_turn (ex_tftp_env []) 3 (Some (request TFTP_RRQ (bytes ''x'') (bytes ''octet''))) ex_tftpd =
     ([Tftp_send 7 ([0, 5, 0, 1] @ bytes ''file not found'' @ [0])], None)"
proof -
  have z: "0 \<notin> set (bytes ''x'')" by (simp add: bytes_def)
  show ?thesis
    using tftpd_read_undefined [OF _ _ z, of ex_tftpd "bytes ''octet''" "ex_tftp_env []" 3]
    by (simp add: ex_tftpd_def request_def error_packet_def ex_tftp_env_def)
qed

text \<open>
  Other requests.  A request with a name of 30 bytes or more runs over the array for the name.  An
  opcode that is neither a read nor a write request is answered with the access violation error on
  the new socket, which is closed, and nothing else changes.\<close>

lemma tftpd_bad_requests:
  assumes "length (tftpRecvBuffer s) = 1024" and "length (request op name mode) \<le> 1024"
    and "0 \<notin> set name" and "te_sock env \<noteq> -1" "te_bind env"
  shows "(op = TFTP_RRQ \<or> op = TFTP_WRQ \<longrightarrow> 30 \<le> length name \<longrightarrow>
       tftpd_turn env l (Some (request op name mode)) s = ([], None)) \<and>
     (op \<noteq> TFTP_RRQ \<and> op \<noteq> TFTP_WRQ \<longrightarrow>
       (\<exists>b. tftpd_turn env l (Some (request op name mode)) s =
         ([Tftp_send (te_sock env) (error_packet TFTP_ERR_ACCESS_VIOLATION), Close_sock (te_sock env)],
          Some ((), s\<lparr>tftpRecvBuffer := b\<rparr>))))"
proof -
  let ?r = "request op name mode"
  let ?b = "?r @ drop (length ?r) (tftpRecvBuffer s)"
  have "30 \<le> length name \<Longrightarrow> tftp_extract_filename (replicate 30 0) ?b = None"
    using extract_filename [OF request_cstr [OF assms(3)], of op mode] by simp
  then show ?thesis
    unfolding tftpd_turn_request(1) [OF assms(1,2)]
    using tftpd_turn_request(2) [OF assms(1,2)] assms(4,5)
    by (auto simp: process_tftp_request_def act_defs tftp_send_error_message_ok)
qed

lemma tftpd_bad_requests_witness:
  "tftpd_turn (ex_tftp_env []) 3 (Some (request TFTP_WRQ (replicate 30 0x61) [])) ex_tftpd = ([], None) \<and>
   (\<exists>b. tftpd_turn (ex_tftp_env []) 3 (Some (request TFTP_ACK [] [])) ex_tftpd =
      ([Tftp_send 7 (error_packet TFTP_ERR_ACCESS_VIOLATION), Close_sock 7], Some ((), ex_tftpd\<lparr>tftpRecvBuffer := b\<rparr>)))"
proof -
  have e: "length (tftpRecvBuffer ex_tftpd) = 1024" "te_sock (ex_tftp_env []) = 7" "te_bind (ex_tftp_env [])"
    by (simp_all add: ex_tftpd_def ex_tftp_env_def)
  show ?thesis
    using tftpd_bad_requests [OF e(1), of TFTP_WRQ "replicate 30 0x61" "[]" "ex_tftp_env []" 3]
      tftpd_bad_requests [OF e(1), of TFTP_ACK "[]" "[]" "ex_tftp_env []" 3] e(2,3)
    by (simp add: request_def TFTP_ACK_def TFTP_RRQ_def TFTP_WRQ_def)
qed

end
