(* ===== verification/Tftp_Server.thy ===== *)
theory Tftp_Server
  imports Tftp
begin

section \<open>The TFTP server process: \<open>tftpd_init\<close> in TFTPServer/tftpserver.c\<close>

text \<open>
  The server opens and binds its socket and then handles one request after the other.  \<open>sockfd\<close> and
  \<open>bound\<close> are the results of \<open>socket\<close> and \<open>bind\<close>; each turn of the loop has its own environment and
  datagram.  The result of \<open>setsockopt\<close>, which is to set a timeout, is not looked at.
\<close>

fun tftpd_loop :: "int \<Rightarrow> (tftp_env \<times> u8 list option) list \<Rightarrow> unit act" where
  "tftpd_loop sockfd [] = ret ()"
| "tftpd_loop sockfd ((env, d) # turns) = seq (tftpd_turn env sockfd d) (\<lambda>_. tftpd_loop sockfd turns)"

definition tftpd_init ::
  "int \<Rightarrow> int \<Rightarrow> (tftp_env \<times> u8 list option) list \<Rightarrow> tftpd \<Rightarrow> (tftp_event list \<times> (unit \<times> tftpd) option) outcome" where
  "tftpd_init sockfd bound turns s =
     (if sockfd = -1 then Exited
      else if bound = -1 then Exited
      else Running (tftpd_loop sockfd turns s))"

subsection \<open>A sequence of uploads\<close>

record upload =
  up_env :: tftp_env
  up_name :: "u8 list"
  up_mode :: "u8 list"
  up_data :: "u8 list"

definition upload_ok :: "upload \<Rightarrow> bool" where
  "upload_ok u \<longleftrightarrow> write_env (up_env u) (up_data u) \<and> length (up_data u) < 512 \<and>
     0 \<notin> set (up_name u) \<and> length (up_name u) < 30 \<and> length (request TFTP_WRQ (up_name u) (up_mode u)) \<le> 1024"

definition upload_turn :: "upload \<Rightarrow> tftp_env \<times> u8 list option" where
  "upload_turn u = (up_env u, Some (request TFTP_WRQ (up_name u) (up_mode u)))"

definition upload_events :: "upload \<Rightarrow> tftp_event list" where
  "upload_events u =
     (let k = te_sock (up_env u) in
        [Tftp_send k (ack_packet 0), Tftp_send k (ack_packet 1), Close_sock k, Signal_parent])"

definition store_upload :: "upload \<Rightarrow> (u8 list \<Rightarrow> u8 list option) \<Rightarrow> u8 list \<Rightarrow> u8 list option" where
  "store_upload u files = files(up_name u \<mapsto> up_data u)"

lemma tftpd_loop_uploads:
  assumes "length (tftpRecvBuffer s) = 1024" and "\<forall>u \<in> set us. upload_ok u"
  shows "\<exists>s'. tftpd_loop sockfd (map upload_turn us) s = (concat (map upload_events us), Some ((), s')) \<and>
     td_files s' = fold store_upload us (td_files s) \<and> (us \<noteq> [] \<longrightarrow> td_file s' = None \<and> td_args s' = None)"
  using assms
proof (induction us arbitrary: s)
  case (Cons u us)
  have u: "write_env (up_env u) (up_data u)" "length (up_data u) < 512" "0 \<notin> set (up_name u)" "length (up_name u) < 30"
    "length (request TFTP_WRQ (up_name u) (up_mode u)) \<le> 1024"
    using Cons.prems(2) by (simp_all add: upload_ok_def)
  from u(2) have "length (up_data u) \<le> 512" by simp
  from tftpd_write [OF Cons.prems(1) u(5,3,4,1) this, of sockfd] u(2) obtain s1 where
    s1: "tftpd_turn (up_env u) sockfd (Some (request TFTP_WRQ (up_name u) (up_mode u))) s = (upload_events u, Some ((), s1))"
    "td_files s1 = store_upload u (td_files s)" "td_file s1 = None" "td_args s1 = None" "length (tftpRecvBuffer s1) = 1024"
    by (auto simp: upload_events_def store_upload_def Let_def)
  from Cons.IH [OF s1(5)] Cons.prems(2) obtain s2 where
    "tftpd_loop sockfd (map upload_turn us) s1 = (concat (map upload_events us), Some ((), s2))"
    "td_files s2 = fold store_upload us (td_files s1)" "us \<noteq> [] \<longrightarrow> td_file s2 = None \<and> td_args s2 = None"
    by auto
  with s1 show ?case
    by (cases "us = []") (auto simp: upload_turn_def [of u] seq_def ret_def)
qed (simp add: ret_def)

subsection \<open>Properties\<close>

text \<open>
  C16. A sequence of uploads.  Without socket or port the server exits.  Otherwise any number of
  complete uploads of less than 512 bytes each, one after the other, are all stored, later ones over
  earlier ones of the same name; each is acknowledged twice and announced to the parent; nothing
  stays open in between, and the server goes on.
\<close>

theorem tftpd_init_uploads:
  assumes "length (tftpRecvBuffer s) = 1024" and "\<forall>u \<in> set us. upload_ok u"
  shows "(sockfd = -1 \<or> bound = -1 \<longrightarrow> tftpd_init sockfd bound (map upload_turn us) s = Exited) \<and>
     (sockfd \<noteq> -1 \<and> bound \<noteq> -1 \<longrightarrow>
       (\<exists>s'. tftpd_init sockfd bound (map upload_turn us) s = Running (concat (map upload_events us), Some ((), s')) \<and>
          td_files s' = fold store_upload us (td_files s) \<and> (us \<noteq> [] \<longrightarrow> td_file s' = None \<and> td_args s' = None)))"
  using tftpd_loop_uploads [OF assms, of sockfd] by (auto simp: tftpd_init_def)

theorem tftpd_init_uploads_witness:
  "\<exists>evs s'. tftpd_init 3 0
       [(ex_tftp_env (bytes ''1/a#''), Some (request TFTP_WRQ (bytes ''x'') [])),
        (ex_tftp_env (bytes ''2/b#''), Some (request TFTP_WRQ (bytes ''x'') []))] ex_tftpd = Running (evs, Some ((), s')) \<and>
     td_files s' = [bytes ''x'' \<mapsto> bytes ''2/b#''] \<and> length evs = 8"
proof -
  let ?up = "\<lambda>d. \<lparr>up_env = ex_tftp_env d, up_name = bytes ''x'', up_mode = [], up_data = d\<rparr>"
  have "0 \<notin> set (bytes ''x'')" by (simp add: bytes_def)
  then have ok: "upload_ok (?up d)" if "length d < 512" for d
    using that by (simp add: upload_ok_def write_env_def ex_tftp_env_def request_def)
  have "length (tftpRecvBuffer ex_tftpd) = 1024" "td_files ex_tftpd = Map.empty" by (simp_all add: ex_tftpd_def)
  with tftpd_init_uploads [of ex_tftpd "[?up (bytes ''1/a#''), ?up (bytes ''2/b#'')]" 3 0] ok show ?thesis
    by (auto simp: upload_turn_def upload_events_def store_upload_def Let_def)
qed

end
