(* ===== verification/Coap_Numbers.thy ===== *)
theory Coap_Numbers
  imports Complex_Main Picocoap_Decode Coap_Server
begin

section \<open>The numbers of the protocol: picocoap.h and microcoap.h\<close>

text \<open>
  The enumerations of both CoAP libraries, as data types with the names of the source and functions
  to their values, and the parameters of the protocol.  The client uses one library and the server the
  other, so that their numbers have to be the same.
\<close>

subsection \<open>microcoap.h\<close>

text \<open>\<open>coap_option_num_t\<close>.\<close>

datatype coap_option_num_t =
    COAP_OPTION_IF_MATCH
  | COAP_OPTION_URI_HOST
  | COAP_OPTION_ETAG
  | COAP_OPTION_IF_NONE_MATCH
  | COAP_OPTION_OBSERVE
  | COAP_OPTION_URI_PORT
  | COAP_OPTION_LOCATION_PATH
  | COAP_OPTION_URI_PATH
  | COAP_OPTION_CONTENT_FORMAT
  | COAP_OPTION_MAX_AGE
  | COAP_OPTION_URI_QUERY
  | COAP_OPTION_ACCEPT
  | COAP_OPTION_LOCATION_QUERY
  | COAP_OPTION_PROXY_URI
  | COAP_OPTION_PROXY_SCHEME

fun option_num_t :: "coap_option_num_t \<Rightarrow> nat" where
  "option_num_t COAP_OPTION_IF_MATCH = 1"
| "option_num_t COAP_OPTION_URI_HOST = 3"
| "option_num_t COAP_OPTION_ETAG = 4"
| "option_num_t COAP_OPTION_IF_NONE_MATCH = 5"
| "option_num_t COAP_OPTION_OBSERVE = 6"
| "option_num_t COAP_OPTION_URI_PORT = 7"
| "option_num_t COAP_OPTION_LOCATION_PATH = 8"
| "option_num_t COAP_OPTION_URI_PATH = 11"
| "option_num_t COAP_OPTION_CONTENT_FORMAT = 12"
| "option_num_t COAP_OPTION_MAX_AGE = 14"
| "option_num_t COAP_OPTION_URI_QUERY = 15"
| "option_num_t COAP_OPTION_ACCEPT = 17"
| "option_num_t COAP_OPTION_LOCATION_QUERY = 20"
| "option_num_t COAP_OPTION_PROXY_URI = 35"
| "option_num_t COAP_OPTION_PROXY_SCHEME = 39"

text \<open>\<open>coap_method_t\<close>.\<close>

datatype coap_method_t =
    COAP_METHOD_GET
  | COAP_METHOD_POST
  | COAP_METHOD_PUT
  | COAP_METHOD_DELETE

fun method_num :: "coap_method_t \<Rightarrow> nat" where
  "method_num COAP_METHOD_GET = 1"
| "method_num COAP_METHOD_POST = 2"
| "method_num COAP_METHOD_PUT = 3"
| "method_num COAP_METHOD_DELETE = 4"

text \<open>\<open>coap_msgtype_t\<close>.\<close>

datatype coap_msgtype_t =
    COAP_TYPE_CON
  | COAP_TYPE_NONCON
  | COAP_TYPE_ACK
  | COAP_TYPE_RESET

fun msgtype_num :: "coap_msgtype_t \<Rightarrow> nat" where
  "msgtype_num COAP_TYPE_CON = 0"
| "msgtype_num COAP_TYPE_NONCON = 1"
| "msgtype_num COAP_TYPE_ACK = 2"
| "msgtype_num COAP_TYPE_RESET = 3"

text \<open>\<open>coap_responsecode_t\<close>: class and detail of the code.\<close>

datatype coap_responsecode_t =
    COAP_RSPCODE_CONTENT
  | COAP_RSPCODE_NOT_FOUND
  | COAP_RSPCODE_BAD_REQUEST
  | COAP_RSPCODE_CHANGED

fun responsecode_num :: "coap_responsecode_t \<Rightarrow> nat" where
  "responsecode_num COAP_RSPCODE_CONTENT = unat (MAKE_RSPCODE 2 5)"
| "responsecode_num COAP_RSPCODE_NOT_FOUND = unat (MAKE_RSPCODE 4 4)"
| "responsecode_num COAP_RSPCODE_BAD_REQUEST = unat (MAKE_RSPCODE 4 0)"
| "responsecode_num COAP_RSPCODE_CHANGED = unat (MAKE_RSPCODE 2 4)"

text \<open>\<open>coap_content_type_t\<close>.\<close>

datatype coap_content_type_t =
    COAP_CONTENTTYPE_NONE
  | COAP_CONTENTTYPE_TEXT_PLAIN
  | COAP_CONTENTTYPE_APPLICATION_LINKFORMAT

fun content_type_num :: "coap_content_type_t \<Rightarrow> int" where
  "content_type_num COAP_CONTENTTYPE_NONE = (-1)"
| "content_type_num COAP_CONTENTTYPE_TEXT_PLAIN = 0"
| "content_type_num COAP_CONTENTTYPE_APPLICATION_LINKFORMAT = 40"

text \<open>\<open>coap_error_t\<close>, declared with the parser.\<close>

fun error_t_num :: "coap_error_t \<Rightarrow> nat" where
  "error_t_num COAP_ERR_NONE = 0"
| "error_t_num COAP_ERR_HEADER_TOO_SHORT = 1"
| "error_t_num COAP_ERR_VERSION_NOT_1 = 2"
| "error_t_num COAP_ERR_TOKEN_TOO_SHORT = 3"
| "error_t_num COAP_ERR_OPTION_TOO_SHORT_FOR_HEADER = 4"
| "error_t_num COAP_ERR_OPTION_TOO_SHORT = 5"
| "error_t_num COAP_ERR_OPTION_OVERRUNS_PACKET = 6"
| "error_t_num COAP_ERR_OPTION_TOO_BIG = 7"
| "error_t_num COAP_ERR_OPTION_LEN_INVALID = 8"
| "error_t_num COAP_ERR_BUFFER_TOO_SMALL = 9"
| "error_t_num COAP_ERR_UNSUPPORTED = 10"
| "error_t_num COAP_ERR_OPTION_DELTA_INVALID = 11"

subsection \<open>picocoap.h\<close>

text \<open>\<open>coap_version\<close>.\<close>

datatype coap_version =
    COAP_V1

fun version_num :: "coap_version \<Rightarrow> nat" where
  "version_num COAP_V1 = 1"

text \<open>\<open>coap_type\<close>.\<close>

datatype coap_type =
    CT_CON
  | CT_NON
  | CT_ACK
  | CT_RST

fun type_num :: "coap_type \<Rightarrow> nat" where
  "type_num CT_CON = 0"
| "type_num CT_NON = 1"
| "type_num CT_ACK = 2"
| "type_num CT_RST = 3"

text \<open>\<open>coap_code\<close>.\<close>

datatype coap_code =
    CC_EMPTY
  | CC_GET
  | CC_POST
  | CC_PUT
  | CC_DELETE
  | CC_CREATED
  | CC_DELETED
  | CC_VALID
  | CC_CHANGED
  | CC_CONTENT
  | CC_CONTINUE
  | CC_BAD_REQUEST
  | CC_UNAUTHORIZED
  | CC_BAD_OPTION
  | CC_FORBIDDEN
  | CC_NOT_FOUND
  | CC_METHOD_NOT_ALLOWED
  | CC_NOT_ACCEPTABLE
  | CC_REQUEST_ENTITY_INCOMPLETE
  | CC_PRECONDITION_FAILED
  | CC_REQUEST_ENTITY_TOO_LARGE
  | CC_UNSUPPORTED_CONTENT
  | CC_INTERNAL_SERVER_ERROR
  | CC_NOT_IMPLEMENTED
  | CC_BAD_GATEWAY
  | CC_SERVICE_UNAVAILABLE
  | CC_GATEWAY_TIMEOUT
  | CC_PROXYING_NOT_SUPPORTED

fun code_num :: "coap_code \<Rightarrow> nat" where
  "code_num CC_EMPTY = 0"
| "code_num CC_GET = 1"
| "code_num CC_POST = 2"
| "code_num CC_PUT = 3"
| "code_num CC_DELETE = 4"
| "code_num CC_CREATED = 65"
| "code_num CC_DELETED = 66"
| "code_num CC_VALID = 67"
| "code_num CC_CHANGED = 68"
| "code_num CC_CONTENT = 69"
| "code_num CC_CONTINUE = 95"
| "code_num CC_BAD_REQUEST = 128"
| "code_num CC_UNAUTHORIZED = 129"
| "code_num CC_BAD_OPTION = 130"
| "code_num CC_FORBIDDEN = 131"
| "code_num CC_NOT_FOUND = 132"
| "code_num CC_METHOD_NOT_ALLOWED = 133"
| "code_num CC_NOT_ACCEPTABLE = 134"
| "code_num CC_REQUEST_ENTITY_INCOMPLETE = 136"
| "code_num CC_PRECONDITION_FAILED = 140"
| "code_num CC_REQUEST_ENTITY_TOO_LARGE = 141"
| "code_num CC_UNSUPPORTED_CONTENT = 143"
| "code_num CC_INTERNAL_SERVER_ERROR = 160"
| "code_num CC_NOT_IMPLEMENTED = 161"
| "code_num CC_BAD_GATEWAY = 162"
| "code_num CC_SERVICE_UNAVAILABLE = 163"
| "code_num CC_GATEWAY_TIMEOUT = 164"
| "code_num CC_PROXYING_NOT_SUPPORTED = 165"

text \<open>\<open>coap_option_number\<close>; one of the names has a typing error in the code, too.\<close>

datatype coap_option_number =
    CON_IF_MATCH
  | CON_URI_HOST
  | CON_ETAG
  | CON_IF_NONE_MATCH
  | CON_OBSERVE
  | CON_URI_PORT
  | CON_LOCATION_PATH
  | CON_URI_PATH
  | CON_CONTENT_FORMATt
  | CON_MAX_AGE
  | CON_URI_QUERY
  | CON_ACCEPT
  | CON_LOCATION_QUERY
  | CON_PROXY_URI
  | CON_PROXY_SCHEME
  | CON_SIZE1

fun option_number :: "coap_option_number \<Rightarrow> nat" where
  "option_number CON_IF_MATCH = 1"
| "option_number CON_URI_HOST = 3"
| "option_number CON_ETAG = 4"
| "option_number CON_IF_NONE_MATCH = 5"
| "option_number CON_OBSERVE = 6"
| "option_number CON_URI_PORT = 7"
| "option_number CON_LOCATION_PATH = 8"
| "option_number CON_URI_PATH = 11"
| "option_number CON_CONTENT_FORMATt = 12"
| "option_number CON_MAX_AGE = 14"
| "option_number CON_URI_QUERY = 15"
| "option_number CON_ACCEPT = 17"
| "option_number CON_LOCATION_QUERY = 20"
| "option_number CON_PROXY_URI = 35"
| "option_number CON_PROXY_SCHEME = 39"
| "option_number CON_SIZE1 = 60"

text \<open>\<open>coap_error\<close>, declared with the getters.\<close>

fun error_num :: "coap_error \<Rightarrow> nat" where
  "error_num CE_NONE = 0"
| "error_num CE_INVALID_PACKET = 1"
| "error_num CE_BAD_VERSION = 2"
| "error_num CE_TOKEN_LENGTH_OUT_OF_RANGE = 3"
| "error_num CE_UNKNOWN_CODE = 4"
| "error_num CE_TOO_MANY_OPTIONS = 5"
| "error_num CE_OUT_OF_ORDER_OPTIONS_LIST = 6"
| "error_num CE_INSUFFICIENT_BUFFER = 7"
| "error_num CE_FOUND_PAYLOAD_MARKER = 8"
| "error_num CE_END_OF_PACKET = 9"

subsection \<open>Parameters of the protocol\<close>

text \<open>Times are in seconds; \<open>COAP_ACK_RANDOM_FACTOR\<close> is 1.5.\<close>

record coap_parameters =
  ACK_TIMEOUT :: rat
  ACK_RANDOM_FACTOR :: rat
  MAX_RETRANSMIT :: nat
  NSTART :: nat
  DEFAULT_LEISURE :: rat
  PROBING_RATE :: rat
  MAX_TRANSMIT_SPAN :: rat
  MAX_TRANSMIT_WAIT :: rat
  MAX_LATENCY :: rat
  PROCESSING_DELAY :: rat
  MAX_RTT :: rat
  EXCHANGE_LIFETIME :: rat
  NON_LIFETIME :: rat

definition coap_params :: coap_parameters where
  "coap_params =
     \<lparr>ACK_TIMEOUT = 2, ACK_RANDOM_FACTOR = 3 / 2, MAX_RETRANSMIT = 4, NSTART = 1, DEFAULT_LEISURE = 5,
      PROBING_RATE = 1, MAX_TRANSMIT_SPAN = 45, MAX_TRANSMIT_WAIT = 93, MAX_LATENCY = 100,
      PROCESSING_DELAY = 2, MAX_RTT = 202, EXCHANGE_LIFETIME = 247, NON_LIFETIME = 145\<rparr>"

text \<open>The relations between them that the protocol fixes.\<close>

lemma coap_params_consistent:
  "MAX_TRANSMIT_SPAN coap_params =
     ACK_TIMEOUT coap_params * (2 ^ MAX_RETRANSMIT coap_params - 1) * ACK_RANDOM_FACTOR coap_params"
  "MAX_TRANSMIT_WAIT coap_params =
     ACK_TIMEOUT coap_params * (2 ^ (MAX_RETRANSMIT coap_params + 1) - 1) * ACK_RANDOM_FACTOR coap_params"
  "MAX_RTT coap_params = 2 * MAX_LATENCY coap_params + PROCESSING_DELAY coap_params"
  "EXCHANGE_LIFETIME coap_params =
     MAX_TRANSMIT_SPAN coap_params + 2 * MAX_LATENCY coap_params + PROCESSING_DELAY coap_params"
  "NON_LIFETIME coap_params = MAX_TRANSMIT_SPAN coap_params + MAX_LATENCY coap_params"
  by (simp_all add: coap_params_def)

subsection \<open>From one library to the other\<close>

fun pico_option :: "coap_option_num_t \<Rightarrow> coap_option_number" where
  "pico_option COAP_OPTION_IF_MATCH = CON_IF_MATCH"
| "pico_option COAP_OPTION_URI_HOST = CON_URI_HOST"
| "pico_option COAP_OPTION_ETAG = CON_ETAG"
| "pico_option COAP_OPTION_IF_NONE_MATCH = CON_IF_NONE_MATCH"
| "pico_option COAP_OPTION_OBSERVE = CON_OBSERVE"
| "pico_option COAP_OPTION_URI_PORT = CON_URI_PORT"
| "pico_option COAP_OPTION_LOCATION_PATH = CON_LOCATION_PATH"
| "pico_option COAP_OPTION_URI_PATH = CON_URI_PATH"
| "pico_option COAP_OPTION_CONTENT_FORMAT = CON_CONTENT_FORMATt"
| "pico_option COAP_OPTION_MAX_AGE = CON_MAX_AGE"
| "pico_option COAP_OPTION_URI_QUERY = CON_URI_QUERY"
| "pico_option COAP_OPTION_ACCEPT = CON_ACCEPT"
| "pico_option COAP_OPTION_LOCATION_QUERY = CON_LOCATION_QUERY"
| "pico_option COAP_OPTION_PROXY_URI = CON_PROXY_URI"
| "pico_option COAP_OPTION_PROXY_SCHEME = CON_PROXY_SCHEME"

fun pico_type :: "coap_msgtype_t \<Rightarrow> coap_type" where
  "pico_type COAP_TYPE_CON = CT_CON"
| "pico_type COAP_TYPE_NONCON = CT_NON"
| "pico_type COAP_TYPE_ACK = CT_ACK"
| "pico_type COAP_TYPE_RESET = CT_RST"

fun pico_method :: "coap_method_t \<Rightarrow> coap_code" where
  "pico_method COAP_METHOD_GET = CC_GET"
| "pico_method COAP_METHOD_POST = CC_POST"
| "pico_method COAP_METHOD_PUT = CC_PUT"
| "pico_method COAP_METHOD_DELETE = CC_DELETE"

fun pico_response :: "coap_responsecode_t \<Rightarrow> coap_code" where
  "pico_response COAP_RSPCODE_CONTENT = CC_CONTENT"
| "pico_response COAP_RSPCODE_NOT_FOUND = CC_NOT_FOUND"
| "pico_response COAP_RSPCODE_BAD_REQUEST = CC_BAD_REQUEST"
| "pico_response COAP_RSPCODE_CHANGED = CC_CHANGED"

lemma pico_numbers:
  "option_number (pico_option n) = option_num_t n" "type_num (pico_type t) = msgtype_num t"
  "code_num (pico_method m) = method_num m" "code_num (pico_response r) = responsecode_num r"
proof -
  show "option_number (pico_option n) = option_num_t n" by (cases n) simp_all
  show "type_num (pico_type t) = msgtype_num t" by (cases t) simp_all
  show "code_num (pico_method m) = method_num m" by (cases m) simp_all
  show "code_num (pico_response r) = responsecode_num r" by (cases r) (simp_all add: MAKE_RSPCODE_def)
qed

lemma pico_constants:
  "unat Picocoap.COAP_V1 = version_num COAP_V1" "unat Picocoap.CT_CON = type_num CT_CON"
  "unat Picocoap.CT_RST = type_num CT_RST" "unat Picocoap.CC_EMPTY = code_num CC_EMPTY"
  "unat Picocoap.CC_GET = code_num CC_GET" "Picocoap.CON_URI_PATH = int (option_number CON_URI_PATH)"
  by (simp_all add: COAP_V1_def CT_CON_def CT_RST_def CC_EMPTY_def CC_GET_def CON_URI_PATH_def)

lemma micro_constants:
  "unat Microcoap.COAP_OPTION_URI_PATH = option_num_t COAP_OPTION_URI_PATH"
  "unat Microcoap.COAP_OPTION_CONTENT_FORMAT = option_num_t COAP_OPTION_CONTENT_FORMAT"
  "unat Microcoap.COAP_TYPE_ACK = msgtype_num COAP_TYPE_ACK"
  "unat Coap_Server.COAP_METHOD_GET = method_num COAP_METHOD_GET"
  "unat Coap_Server.COAP_METHOD_PUT = method_num COAP_METHOD_PUT"
  "Microcoap.COAP_CONTENTTYPE_NONE = content_type_num COAP_CONTENTTYPE_NONE"
  by (simp_all add: COAP_OPTION_URI_PATH_def COAP_OPTION_CONTENT_FORMAT_def COAP_TYPE_ACK_def COAP_METHOD_GET_def
      COAP_METHOD_PUT_def COAP_CONTENTTYPE_NONE_def)

text \<open>Class and detail of a response code, and the names back from the numbers.\<close>

fun rsp_parts :: "coap_responsecode_t \<Rightarrow> u8 \<times> u8" where
  "rsp_parts COAP_RSPCODE_CONTENT = (2, 5)"
| "rsp_parts COAP_RSPCODE_NOT_FOUND = (4, 4)"
| "rsp_parts COAP_RSPCODE_BAD_REQUEST = (4, 0)"
| "rsp_parts COAP_RSPCODE_CHANGED = (2, 4)"

lemma range_pico_option: "range pico_option = UNIV - {CON_SIZE1}"
proof -
  have "k \<in> range pico_option \<longleftrightarrow> k \<noteq> CON_SIZE1" for k
  proof (cases k)
    case CON_SIZE1
    have "pico_option n \<noteq> CON_SIZE1" for n by (cases n) auto
    with CON_SIZE1 show ?thesis by (metis imageE)
  qed (auto simp: image_iff intro: pico_option.simps [symmetric])
  then show ?thesis by blast
qed

subsection \<open>Properties\<close>

text \<open>
  One set of numbers.  Every option, method, type and response code of the server's library has
  the value of its namesake in the client's, where only one option (Size1) has none; different names
  have different values, all of them fit into the 8 bits, and the types into the 2 bits, of their
  fields; and a message with a type and a response code of the server is read by the client's getters
  as the same type and code, with the class and detail the code was made from.
\<close>

lemma coap_numbers_agree:
  assumes "pdu_rep pdu msg" and "m_type msg = msgtype_num t" and "m_code msg = word_of_nat (responsecode_num r)"
  shows "coap_get_type pdu = Some (word_of_nat (type_num (pico_type t))) \<and>
     coap_get_code pdu = Some (word_of_nat (code_num (pico_response r))) \<and>
     coap_get_code_class pdu = Some (fst (rsp_parts r)) \<and> coap_get_code_detail pdu = Some (snd (rsp_parts r)) \<and>
     (\<forall>n. option_number (pico_option n) = option_num_t n) \<and> range pico_option = UNIV - {CON_SIZE1} \<and>
     (\<forall>m. code_num (pico_method m) = method_num m) \<and>
     inj option_number \<and> inj code_num \<and> inj type_num \<and>
     (\<forall>k. option_number k < 256) \<and> (\<forall>c. code_num c < 256) \<and> (\<forall>t. type_num t < 4)"
proof -
  have inj: "inj option_number" "inj code_num" "inj type_num"
  proof -
    have "option_number x = option_number y \<Longrightarrow> x = y" for x y by (cases x; cases y; simp)
    then show "inj option_number" by (rule injI)
    have "code_num x = code_num y \<Longrightarrow> x = y" for x y by (cases x; cases y; simp)
    then show "inj code_num" by (rule injI)
    have "type_num x = type_num y \<Longrightarrow> x = y" for x y by (cases x; cases y; simp)
    then show "inj type_num" by (rule injI)
  qed
  have "option_number k < 256" for k by (cases k) simp_all
  moreover have "code_num c < 256" for c by (cases c) simp_all
  moreover have "type_num t < 4" for t by (cases t) simp_all
  moreover have g: "coap_get_type pdu = Some (word_of_nat (m_type msg))" "coap_get_code pdu = Some (m_code msg)"
    using coap_getters_rep [OF assms(1)] by blast+
  moreover have "drop_bit 5 (m_code msg) = fst (rsp_parts r)" "m_code msg AND 0x1F = snd (rsp_parts r)"
    unfolding assms(3) by (cases r; simp add: MAKE_RSPCODE_def)+
  ultimately show ?thesis
    using inj range_pico_option assms(2,3)
    by (auto simp: pico_numbers coap_get_code_class_def coap_get_code_detail_def)
qed

definition ex_reply :: coap_msg where
  "ex_reply = \<lparr>m_type = 2, m_code = 0x84, m_id0 = 0, m_id1 = 1, m_tok = [], m_opts = [], m_pay = []\<rparr>"

lemma coap_numbers_agree_witness:
  "coap_get_type (pdu_of ex_reply) = Some (word_of_nat (type_num CT_ACK)) \<and>
   coap_get_code (pdu_of ex_reply) = Some (word_of_nat (code_num CC_NOT_FOUND)) \<and>
   coap_get_code_class (pdu_of ex_reply) = Some 4 \<and> coap_get_code_detail (pdu_of ex_reply) = Some 4"
proof -
  have "wf_msg ex_reply" "length (enc_msg ex_reply) < 1000"
    by (simp_all add: ex_reply_def wf_msg_def enc_msg_def enc_pay_def)
  then have "pdu_rep (pdu_of ex_reply) ex_reply" by (rule pdu_of_rep)
  moreover have "m_type ex_reply = msgtype_num COAP_TYPE_ACK"
    "m_code ex_reply = word_of_nat (responsecode_num COAP_RSPCODE_NOT_FOUND)"
    by (simp_all add: ex_reply_def MAKE_RSPCODE_def)
  ultimately show ?thesis using coap_numbers_agree [of "pdu_of ex_reply" ex_reply COAP_TYPE_ACK COAP_RSPCODE_NOT_FOUND] by simp
qed

end
