(* ===== verification/Coap_Print.thy ===== *)
theory Coap_Print
  imports Picocoap_Decode Printf
begin

section \<open>Debug prints of the client: hex_dump and coap_pretty_print\<close>

text \<open>
  The two functions at the end of coapClient/coapClient.c print a message to the standard output:
  their value is the text printed, \<open>None\<close> if they read outside the buffer or compute with a NULL
  pointer.  The text is compared with a text made from the abstract message.
\<close>

subsection \<open>hex_dump\<close>

text \<open>The inner loop: the columns \<open>js\<close> of the row that starts at \<open>i\<close>.\<close>

fun hex_columns :: "u8 list \<Rightarrow> nat \<Rightarrow> nat \<Rightarrow> nat list \<Rightarrow> u8 list option" where
  "hex_columns b len i [] = Some []"
| "hex_columns b len i (j # js) =
     do {
       c \<leftarrow> (if i + j < len then do { x \<leftarrow> rd b (i + j); Some (hex2 False x @ bytes '' '') }
            else Some (bytes ''-- ''));
       r \<leftarrow> hex_columns b len i js;
       Some (c @ r)
     }"

definition hex_row :: "u8 list \<Rightarrow> nat \<Rightarrow> nat \<Rightarrow> u8 list option" where
  "hex_row b len i =
     do {
       cols \<leftarrow> hex_columns b len i [0..<16];
       s \<leftarrow> prec_s b i (if 16 > len - i then len - i else 16);
       Some (bytes ''  0x'' @ pad 3 0x30 (hex_num False i) @ bytes ''    '' @ cols @ bytes ''   '' @ s @ nl)
     }"

function hex_rows :: "u8 list \<Rightarrow> nat \<Rightarrow> nat \<Rightarrow> u8 list option" where
  "hex_rows b len i =
     (if i < len then do { x \<leftarrow> hex_row b len i; r \<leftarrow> hex_rows b len (i + 16); Some (x @ r) }
      else Some [])"
  by pat_completeness auto
termination by (relation "measure (\<lambda>(b, len, i). len - i)") auto

declare hex_rows.simps [simp del]

definition hex_dump :: "u8 list \<Rightarrow> nat \<Rightarrow> u8 list option" where
  "hex_dump b len = hex_rows b len 0"

text \<open>A row of the bytes \<open>bs\<close> at \<open>i\<close>, and all of them.\<close>

definition column_text :: "u8 list \<Rightarrow> nat \<Rightarrow> u8 list" where
  "column_text bs k = (if k < length bs then hex2 False (bs ! k) @ bytes '' '' else bytes ''-- '')"

definition printable :: "u8 list \<Rightarrow> u8 list" where
  "printable = takeWhile (\<lambda>c. c \<noteq> 0)"

definition row_text :: "u8 list \<Rightarrow> nat \<Rightarrow> u8 list" where
  "row_text bs i =
     bytes ''  0x'' @ pad 3 0x30 (hex_num False i) @ bytes ''    '' @
     concat (map (\<lambda>j. column_text bs (i + j)) [0..<16]) @ bytes ''   '' @
     printable (take 16 (drop i bs)) @ nl"

definition dump_text :: "u8 list \<Rightarrow> u8 list" where
  "dump_text bs = concat (map (\<lambda>k. row_text bs (16 * k)) [0..<(length bs + 15) div 16])"

lemma hex_columns_text:
  assumes "len \<le> length b"
  shows "hex_columns b len i js = Some (concat (map (\<lambda>j. column_text (take len b) (i + j)) js))"
  using assms by (induction js) (auto simp: column_text_def)

lemma hex_row_text:
  assumes "len \<le> length b" and "i < len"
  shows "hex_row b len i = Some (row_text (take len b) i)"
proof -
  let ?n = "if 16 > len - i then len - i else 16"
  have "prec_s b i ?n = Some (printable (take ?n (drop i b)))"
    unfolding printable_def using assms by (intro prec_s_inside) auto
  moreover have "take 16 (drop i (take len b)) = take ?n (drop i b)"
    by (simp add: drop_take min_def)
  ultimately show ?thesis
    by (simp add: hex_row_def hex_columns_text [OF assms(1)] row_text_def)
qed

lemma hex_rows_text:
  assumes "len \<le> length b"
  shows "hex_rows b len (16 * k) =
     Some (concat (map (\<lambda>k. row_text (take len b) (16 * k)) [k..<(len + 15) div 16]))"
proof (induction "len - 16 * k" arbitrary: k rule: less_induct)
  case less
  show ?case
  proof (cases "16 * k < len")
    case True
    then have u: "[k..<(len + 15) div 16] = k # [k + 1..<(len + 15) div 16]" by (simp add: upt_conv_Cons)
    have "hex_rows b len (16 * (k + 1)) =
        Some (concat (map (\<lambda>k. row_text (take len b) (16 * k)) [k + 1..<(len + 15) div 16]))"
      using True by (intro less) simp
    moreover have "16 * k + 16 = 16 * (k + 1)" by simp
    ultimately show ?thesis
      using True hex_row_text [OF assms True]
      by (simp only: hex_rows.simps [of b len "16 * k"] u) simp
  next
    case False
    then have "(len + 15) div 16 \<le> k" by simp
    with False show ?thesis by (simp add: hex_rows.simps [of b len "16 * k"])
  qed
qed

lemma hex_dump_text: "len \<le> length b \<Longrightarrow> hex_dump b len = Some (dump_text (take len b))"
  using hex_rows_text [of len b 0] by (simp add: hex_dump_def dump_text_def min_def)

subsection \<open>coap_pretty_print\<close>

text \<open>A line with \<open>%.*s\<close> and the length in brackets, printed if the value is there and not empty.\<close>

definition value_line :: "coap_pdu \<Rightarrow> u8 list \<Rightarrow> coap_option \<Rightarrow> u8 list option" where
  "value_line pdu label opt =
     (case co_val opt of
        None \<Rightarrow> Some []
      | Some v \<Rightarrow>
          if co_len opt = 0 then Some []
          else do {
            s \<leftarrow> prec_s (pdu_buf pdu) v (co_len opt);
            Some (label @ s @ bytes '' ('' @ sprintf_zi (co_len opt) @ bytes '')'' @ nl)
          })"

text \<open>The loop over the options: the text, and the \<open>opt\<close> it leaves with.\<close>

partial_function (option) pretty_options :: "coap_pdu \<Rightarrow> coap_option \<Rightarrow> (u8 list \<times> coap_option) option" where
  "pretty_options pdu opt =
     Option.bind (coap_get_option pdu (Some opt)) (\<lambda>opt'.
       if co_num opt' = 0 then Some ([], opt')
       else Option.bind (value_line pdu (bytes '' Value: '') opt') (\<lambda>l.
         Option.bind (pretty_options pdu opt') (\<lambda>(r, last).
           Some (bytes ''Option: '' @ sprintf_d (uint (co_num opt')) @ nl @ l @ r, last))))"

definition coap_pretty_print :: "coap_pdu \<Rightarrow> u8 list option" where
  "coap_pretty_print pdu =
     do {
       err \<leftarrow> coap_validate_pkt pdu;
       if err = CE_NONE then do {
         t \<leftarrow> coap_get_type pdu;
         c \<leftarrow> coap_get_code_class pdu;
         d \<leftarrow> coap_get_code_detail pdu;
         mid \<leftarrow> coap_get_mid pdu;
         tok \<leftarrow> coap_get_token pdu;
         (os, opt) \<leftarrow> pretty_options pdu no_option;
         p \<leftarrow> value_line pdu (bytes ''Payload: '') opt;
         Some (bytes '' ------ Valid CoAP Packet ('' @ sprintf_zi (pdu_len pdu) @ bytes '') ------ '' @ nl @
           bytes ''Type:  '' @ sprintf_d (uint t) @ nl @
           bytes ''Code:  '' @ sprintf_d (uint c) @ bytes ''.'' @ pad 2 0x30 (sprintf_d (uint d)) @ nl @
           bytes ''MID:   0x'' @ hex_num True (unat mid) @ nl @
           bytes ''Token: 0x'' @ hex_num True (unat tok) @ nl @ os @ p)
       }
       else do {
         h \<leftarrow> hex_dump (pdu_buf pdu) (pdu_len pdu);
         Some (bytes '' ------ Non-CoAP Message ('' @ sprintf_zi (pdu_len pdu) @ bytes '') ------ '' @ nl @ h)
       }
     }"

subsection \<open>The text of a message\<close>

definition value_text :: "u8 list \<Rightarrow> u8 list \<Rightarrow> u8 list" where
  "value_text label v =
     (if v = [] then []
      else label @ printable v @ bytes '' ('' @ sprintf_d (int (length v)) @ bytes '')'' @ nl)"

definition option_text :: "nat \<times> u8 list \<Rightarrow> u8 list" where
  "option_text nv =
     bytes ''Option: '' @ sprintf_d (int (fst nv)) @ nl @ value_text (bytes '' Value: '') (snd nv)"

definition msg_text :: "coap_msg \<Rightarrow> u8 list" where
  "msg_text msg =
     bytes '' ------ Valid CoAP Packet ('' @ sprintf_d (int (length (enc_msg msg))) @ bytes '') ------ '' @ nl @
     bytes ''Type:  '' @ sprintf_d (int (m_type msg)) @ nl @
     bytes ''Code:  '' @ sprintf_d (int (unat (m_code msg) div 32)) @ bytes ''.'' @
       pad 2 0x30 (sprintf_d (int (unat (m_code msg) mod 32))) @ nl @
     bytes ''MID:   0x'' @ hex_num True (unat (m_id0 msg) * 256 + unat (m_id1 msg)) @ nl @
     bytes ''Token: 0x'' @ hex_num True (unat (le_word (m_tok msg))) @ nl @
     concat (map option_text (m_opts msg)) @ value_text (bytes ''Payload: '') (m_pay msg)"

lemma sprintf_zi_small: "n < 2 ^ 63 \<Longrightarrow> sprintf_zi n = sprintf_d (int n)"
  by (simp add: sprintf_zi_def)

lemma value_line_text:
  assumes "rdn (pdu_buf pdu) p (co_len opt) = Some v" and "co_val opt = Some p" and "length v < 2 ^ 31"
  shows "value_line pdu label opt = Some (value_text label v)"
proof -
  have l: "p + co_len opt \<le> length (pdu_buf pdu)" and v: "v = take (co_len opt) (drop p (pdu_buf pdu))"
    using assms(1) by (auto simp: c_array)
  then have n: "co_len opt = length v" by auto
  then have "prec_s (pdu_buf pdu) p (co_len opt) = Some (printable v)"
    using l assms(3) by (simp add: v printable_def prec_s_inside)
  with assms n show ?thesis by (simp add: value_line_def value_text_def sprintf_zi_small)
qed

lemma pretty_options_text:
  assumes "in_front pdu msg prev os p opt"
  shows "pretty_options pdu opt =
     (if m_pay msg = [] then Some (concat (map option_text os), no_option)
      else if prev = 0 \<and> os = []
      then Some ([], \<lparr>co_num = 0, co_len = length (m_pay msg), co_val = Some (p + 1)\<rparr>)
      else None)"
  using assms
proof (induction prev os arbitrary: p opt rule: enc_opts.induct)
  case (1 prev)
  then show ?case
    using get_option_end [OF 1] by (simp add: pretty_options.simps [of pdu opt] no_option_def)
next
  case (2 prev n v os)
  obtain opt1 q where o: "coap_get_option pdu (Some opt) = Some opt1" "co_num opt1 = word_of_nat n"
    "co_len opt1 = length v" "co_val opt1 = Some q" "rdn (pdu_buf pdu) q (length v) = Some v"
    "in_front pdu msg n os (q + length v) opt1"
    using get_option_next [OF "2.prems"] by blast
  have n: "0 < n" "n < 65536" "length v < 65536" using "2.prems" by (auto simp: in_front_def)
  have nz: "(word_of_nat n :: u16) \<noteq> 0" using n word_of_nat_u16_inj [of n 0] by simp
  have u: "uint (word_of_nat n :: u16) = int n"
    using n(2) by (simp only: uint_nat unat_of_nat_u16)
  have "value_line pdu (bytes '' Value: '') opt1 = Some (value_text (bytes '' Value: '') v)"
    using o n by (intro value_line_text [of _ q]) auto
  with o n nz u "2.IH" [OF o(6)] show ?case
    by (simp add: pretty_options.simps [of pdu opt] option_text_def [of "(n, v)"])
qed

lemma code_parts:
  assumes "pdu_rep pdu msg"
  shows "\<exists>c d. coap_get_code_class pdu = Some c \<and> uint c = int (unat (m_code msg) div 32) \<and>
     coap_get_code_detail pdu = Some d \<and> uint d = int (unat (m_code msg) mod 32)"
proof -
  have c: "coap_get_code pdu = Some (m_code msg)" using coap_getters_rep [OF assms] by blast
  have "uint (drop_bit 5 (m_code msg)) = int (unat (m_code msg) div 32)"
    unfolding uint_nat unat_drop by simp
  moreover have "(0x1F :: u8) = mask 5" by (simp add: mask_eq_exp_minus_1)
  then have "uint (m_code msg AND 0x1F) = int (unat (m_code msg) mod 32)"
    unfolding uint_nat by (simp only: unat_and_mask) simp
  ultimately show ?thesis
    unfolding coap_get_code_class_def coap_get_code_detail_def c bind.bind_lunit by blast
qed

lemma payload_line:
  assumes "pdu_rep pdu msg" and "m_opts msg = []" and "m_pay msg \<noteq> []" and "pdu_len pdu < 2 ^ 31"
  shows "value_line pdu label \<lparr>co_num = 0, co_len = length (m_pay msg), co_val = Some (4 + length (m_tok msg) + 1)\<rparr> =
     Some (value_text label (m_pay msg))"
proof -
  obtain rest where "drop (4 + length (m_tok msg)) (pdu_buf pdu) = [0xFF] @ m_pay msg @ rest"
    using pdu_rep_drops [OF assms(1)] assms(2,3) by (auto simp: enc_pay_def)
  from drop_add_append [OF this]
  have d: "drop (4 + length (m_tok msg) + 1) (pdu_buf pdu) = m_pay msg @ rest" by simp
  have len: "pdu_len pdu = 4 + length (m_tok msg) + 1 + length (m_pay msg)"
    "pdu_len pdu \<le> length (pdu_buf pdu)"
    using pdu_rep_len [OF assms(1)] assms(1,2,3) by (auto simp: enc_pay_def pdu_rep_def)
  have "rdn (pdu_buf pdu) (4 + length (m_tok msg) + 1) (length (m_pay msg)) = Some (m_pay msg)"
    using len by (intro rdn_drop [OF d]) simp
  then show ?thesis using len assms(4) by (intro value_line_text [of _ "4 + length (m_tok msg) + 1"]) auto
qed

text \<open>
  The debug print of a message prints its fields, its options with their values and its payload,
  in this order, for every well-formed message with positive option numbers that has no options or no
  payload.  If it has both, the loop runs into the payload marker behind an option, where
  \<open>coap_get_option\<close> computes with a NULL pointer: the payload is not found as the comment in
  \<open>coap_pretty_print\<close> expects.
\<close>

lemma coap_pretty_print_text:
  assumes "pdu_rep pdu msg" and "\<forall>nv \<in> set (m_opts msg). 0 < fst nv" and "pdu_len pdu < 2 ^ 31"
  shows "coap_pretty_print pdu = (if m_opts msg = [] \<or> m_pay msg = [] then Some (msg_text msg) else None)"
proof -
  note g = coap_getters_rep [OF assms(1)] and wf = pdu_rep_wf [OF assms(1)]
  obtain c d where cd: "coap_get_code_class pdu = Some c" "uint c = int (unat (m_code msg) div 32)"
    "coap_get_code_detail pdu = Some d" "uint d = int (unat (m_code msg) mod 32)"
    using code_parts [OF assms(1)] by blast
  have t: "uint (word_of_nat (m_type msg) :: u8) = int (m_type msg)"
    using wf by (simp add: uint_nat unat_of_nat_u8 del: unat_of_nat)
  have "unat (m_id0 msg) * 256 + unat (m_id1 msg) < 65536"
    using u8_less [of "m_id0 msg"] u8_less [of "m_id1 msg"] by simp
  then have mid: "unat (word_of_nat (unat (m_id0 msg) * 256 + unat (m_id1 msg)) :: u16) =
      unat (m_id0 msg) * 256 + unat (m_id1 msg)"
    by (rule unat_of_nat_u16)
  have len: "sprintf_zi (pdu_len pdu) = sprintf_d (int (length (enc_msg msg)))"
    using assms(1,3) by (simp add: sprintf_zi_small pdu_rep_def)
  have os: "pretty_options pdu no_option =
     (if m_pay msg = [] then Some (concat (map option_text (m_opts msg)), no_option)
      else if m_opts msg = []
      then Some ([], \<lparr>co_num = 0, co_len = length (m_pay msg), co_val = Some (4 + length (m_tok msg) + 1)\<rparr>)
      else None)"
    using pretty_options_text [OF in_front_first [OF assms(1,2)], of no_option] by (simp add: no_option_def)
  have no: "value_line pdu label no_option = Some (value_text label [])" for label
    by (simp add: value_line_def no_option_def value_text_def)
  show ?thesis
    using g cd t mid len os no payload_line [OF assms(1) _ _ assms(3), of "bytes ''Payload: ''"]
      coap_validate_pkt_rep [OF assms(1)]
    by (simp add: coap_pretty_print_def msg_text_def value_text_def del: of_nat_add of_nat_mult unat_of_nat)
qed

lemma coap_pretty_print_text_witness:
  "coap_pretty_print (pdu_of (ex_msg\<lparr>m_pay := []\<rparr>)) = Some (msg_text (ex_msg\<lparr>m_pay := []\<rparr>)) \<and>
   coap_pretty_print (pdu_of ex_msg) = None"
proof -
  have "wf_msg (ex_msg\<lparr>m_pay := []\<rparr>)" "length (enc_msg (ex_msg\<lparr>m_pay := []\<rparr>)) = 11"
    by (simp_all add: wf_msg_def ex_msg_def enc_msg_def enc_opt_hdr_def opt_ext_def enc_pay_def bytes_def)
  then have "pdu_rep (pdu_of (ex_msg\<lparr>m_pay := []\<rparr>)) (ex_msg\<lparr>m_pay := []\<rparr>)"
    "pdu_len (pdu_of (ex_msg\<lparr>m_pay := []\<rparr>)) = 11"
    by (simp_all add: pdu_of_rep) (simp add: pdu_of_def)
  moreover have "pdu_len (pdu_of ex_msg) = 13" by (simp add: pdu_of_def ex_msg_length)
  moreover have "m_opts ex_msg \<noteq> []" "m_pay ex_msg \<noteq> []" "\<forall>nv \<in> set (m_opts ex_msg). 0 < fst nv"
    by (simp_all add: ex_msg_def bytes_def)
  ultimately show ?thesis
    using coap_pretty_print_text [of "pdu_of (ex_msg\<lparr>m_pay := []\<rparr>)" "ex_msg\<lparr>m_pay := []\<rparr>"]
      coap_pretty_print_text [OF ex_pdu_rep] by simp
qed

text \<open>
  A packet that validation refuses is dumped, sixteen bytes in a row, if its length is within the
  buffer; otherwise the dump reads behind the buffer.
\<close>

lemma coap_pretty_print_bad:
  assumes "coap_validate_pkt pdu = Some err" and "err \<noteq> CE_NONE"
    and "pdu_len pdu \<le> length (pdu_buf pdu)" and "pdu_len pdu < 2 ^ 63"
  shows "coap_pretty_print pdu =
     Some (bytes '' ------ Non-CoAP Message ('' @ sprintf_d (int (pdu_len pdu)) @ bytes '') ------ '' @ nl @
       dump_text (take (pdu_len pdu) (pdu_buf pdu)))"
  using assms by (simp add: coap_pretty_print_def hex_dump_text sprintf_zi_small)

end
