(* ===== verification/Microcoap_Dump.thy ===== *)
theory Microcoap_Dump
  imports Microcoap_Parse Printf
begin

section \<open>Debug dumps of the server's CoAP library\<close>

text \<open>
  The functions of coapServer/microcoap.c under \<open>MICROCOAP_DEBUG\<close> print a packet to the standard
  output: their value is the text, \<open>None\<close> if a pointer of the packet leads outside its region.
  The text of a packet that denotes a message is determined by the message, and the bytes can be
  read back from it.
\<close>

text \<open>The loop of \<open>coap_dump\<close> over the bytes: a space after each but the last.\<close>

fun dump_bytes :: "u8 list \<Rightarrow> u8 list" where
  "dump_bytes [] = []"
| "dump_bytes [b] = hex2 True b"
| "dump_bytes (b # c # bs) = hex2 True b @ bytes '' '' @ dump_bytes (c # bs)"

definition coap_dumpHeader :: "coap_header_t \<Rightarrow> u8 list" where
  "coap_dumpHeader hdr =
     bytes ''Header:'' @ nl @
     bytes ''  ver  0x'' @ hex2 True (h_ver hdr) @ nl @
     bytes ''  t    0x'' @ hex2 True (h_t hdr) @ nl @
     bytes ''  tkl  0x'' @ hex2 True (h_tkl hdr) @ nl @
     bytes ''  code 0x'' @ hex2 True (h_code hdr) @ nl @
     bytes ''  id   0x'' @ hex2 True (h_id0 hdr) @ hex2 True (h_id1 hdr) @ nl"

definition coap_dump :: "'r mem \<Rightarrow> 'r ptr \<Rightarrow> nat \<Rightarrow> bool \<Rightarrow> u8 list option" where
  "coap_dump m buf buflen bare =
     do {
       bs \<leftarrow> load_n m buf buflen;
       Some (if bare then dump_bytes bs else bytes ''Dump: '' @ dump_bytes bs @ nl)
     }"

fun dump_options :: "'r mem \<Rightarrow> 'r coap_option_t list \<Rightarrow> u8 list option" where
  "dump_options m [] = Some []"
| "dump_options m (opt # opts) =
     do {
       v \<leftarrow> coap_dump m (b_p (o_buf opt)) (b_len (o_buf opt)) True;
       r \<leftarrow> dump_options m opts;
       Some (bytes ''  0x'' @ hex2 True (o_num opt) @ bytes '' [ '' @ v @ bytes '' ]'' @ nl @ r)
     }"

definition coap_dumpOptions :: "'r mem \<Rightarrow> 'r coap_option_t list \<Rightarrow> nat \<Rightarrow> u8 list option" where
  "coap_dumpOptions m opts numopt =
     do {
       os \<leftarrow> rdn opts 0 numopt;
       r \<leftarrow> dump_options m os;
       Some (bytes '' Options:'' @ nl @ r)
     }"

definition coap_dumpPacket :: "'r mem \<Rightarrow> 'r coap_packet_t \<Rightarrow> u8 list option" where
  "coap_dumpPacket m pkt =
     do {
       os \<leftarrow> coap_dumpOptions m (p_opts pkt) (unat (p_numopts pkt));
       pl \<leftarrow> coap_dump m (b_p (p_payload pkt)) (b_len (p_payload pkt)) True;
       Some (coap_dumpHeader (p_hdr pkt) @ os @ bytes ''Payload: '' @ pl @ nl)
     }"

text \<open>The empty function at the end of the file.\<close>

definition coap_setup :: "'r mem \<Rightarrow> 'r mem" where
  "coap_setup m = m"

subsection \<open>The text of a message\<close>

definition option_dump :: "nat \<times> u8 list \<Rightarrow> u8 list" where
  "option_dump nv =
     bytes ''  0x'' @ hex2 True (word_of_nat (fst nv)) @ bytes '' [ '' @ dump_bytes (snd nv) @ bytes '' ]'' @ nl"

definition msg_dump :: "coap_msg \<Rightarrow> u8 list" where
  "msg_dump msg =
     bytes '' Options:'' @ nl @ concat (map option_dump (m_opts msg)) @
     bytes ''Payload: '' @ dump_bytes (m_pay msg) @ nl"

lemma dump_options_view:
  "those (map (opt_view m) opts) = Some nvs \<Longrightarrow> dump_options m opts = Some (concat (map option_dump nvs))"
  by (induction opts arbitrary: nvs)
    (auto simp: opt_view_def coap_dump_def option_dump_def split: option.splits bind_splits)

lemma coap_dumpPacket_msg:
  assumes "pkt_msg m pkt = Some msg" and "unat (p_numopts pkt) \<le> length (p_opts pkt)"
  shows "coap_dumpPacket m pkt = Some (coap_dumpHeader (p_hdr pkt) @ msg_dump msg)"
  using assms
  by (auto simp: pkt_msg_def coap_dumpPacket_def coap_dumpOptions_def coap_dump_def msg_dump_def
      split: bind_splits dest!: dump_options_view)

text \<open>Reading the bytes back.\<close>

fun undump :: "u8 list \<Rightarrow> u8 list" where
  "undump [x, y] = [read_hex2 x y]"
| "undump (x # y # s # rest) = read_hex2 x y # undump rest"
| "undump t = []"

lemma hex2_pair: "\<exists>x y. hex2 u b = [x, y] \<and> read_hex2 x y = b"
  using hex2_digits [of u b] read_hex2 [of u b] by blast

lemma undump_dump: "undump (dump_bytes bs) = bs"
proof (induction bs rule: dump_bytes.induct)
  case (2 b)
  from hex2_pair [of True b] show ?case by auto
next
  case (3 b c bs)
  from hex2_pair [of True b] 3 show ?case by (auto simp: bytes_def)
qed simp

text \<open>
  The debug dump of a received packet is safe and faithful: for every message with at most 16
  options, the packet the parser makes of its encoding is dumped without a read outside the
  received bytes; the text is that of the message (option numbers modulo 256), and the payload and
  the option values can be read back from their columns.
\<close>

lemma coap_dump_parsed:
  assumes "wf_msg msg" and "length (m_opts msg) \<le> 16" and "length (p_opts pkt) = 16"
    and "m r = enc_msg msg @ rest"
  shows "\<exists>pkt'. coap_parse m pkt r (length (enc_msg msg)) = Some (COAP_ERR_NONE, pkt') \<and>
     coap_dumpPacket m pkt' =
       Some (coap_dumpHeader (p_hdr pkt') @ msg_dump (msg\<lparr>m_opts := map trunc_num (m_opts msg)\<rparr>)) \<and>
     (\<forall>v \<in> insert (m_pay msg) (snd ` set (m_opts msg)). undump (dump_bytes v) = v)"
proof -
  have b: "take (length (enc_msg msg)) (m r) = enc_msg msg" "length (enc_msg msg) \<le> length (m r)"
    using assms(4) by simp_all
  obtain pkt' where p: "coap_parse m pkt r (length (enc_msg msg)) = Some (COAP_ERR_NONE, pkt')"
    "pkt_msg m pkt' = Some (msg\<lparr>m_opts := map trunc_num (m_opts msg)\<rparr>)"
    "unat (p_numopts pkt') = length (m_opts msg)"
    using coap_parse_enc [of msg pkt "length (enc_msg msg)" m r] assms(1-3) b by blast
  have "length (p_opts pkt') = 16" using coap_parse_total [of "length (enc_msg msg)" m r pkt] b(2) assms(3) p(1) by auto
  with p coap_dumpPacket_msg [OF p(2)] assms(2) undump_dump show ?thesis by auto
qed

lemma coap_dump_parsed_witness:
  "\<exists>pkt'. coap_parse (\<lambda>_ :: unit. [0x40, 1, 0, 7, 0xB1, 0x68, 0xFF, 0x31, 0xA0]) blank_pkt () 9 =
       Some (COAP_ERR_NONE, pkt') \<and>
     coap_dumpPacket (\<lambda>_. [0x40, 1, 0, 7, 0xB1, 0x68, 0xFF, 0x31, 0xA0]) pkt' =
       Some (coap_dumpHeader (p_hdr pkt') @ bytes '' Options:'' @ nl @ bytes ''  0x0B [ 68 ]'' @ nl @
         bytes ''Payload: 31 A0'' @ nl)"
proof -
  let ?msg = "\<lparr>m_type = 0, m_code = 1, m_id0 = 0, m_id1 = 7, m_tok = [], m_opts = [(11, [0x68])],
      m_pay = [0x31, 0xA0]\<rparr>"
  let ?b = "[0x40, 1, 0, 7, 0xB1, 0x68, 0xFF, 0x31, 0xA0] :: u8 list"
  have e: "enc_msg ?msg = ?b"
    by (simp add: enc_msg_def msg_first_def enc_opt_hdr_def opt_first_def opt_nib_def opt_ext_def enc_pay_def)
  have l: "length (enc_msg ?msg) = 9" by (simp add: e)
  have t: "msg_dump (?msg\<lparr>m_opts := map trunc_num (m_opts ?msg)\<rparr>) =
      bytes '' Options:'' @ nl @ bytes ''  0x0B [ 68 ]'' @ nl @ bytes ''Payload: 31 A0'' @ nl"
    by (simp add: msg_dump_def trunc_num_def option_dump_def hex2_digits hex_digit_def bytes_def of_char_def)
  show ?thesis
    using coap_dump_parsed [of ?msg blank_pkt "\<lambda>_ :: unit. ?b" "()" "[]"]
    unfolding l t unfolding e by (auto simp: wf_msg_def)
qed

end
