(* ===== verification/Spec2Isabelle.thy ===== *)
theory Spec2Isabelle
  imports Epochs Pipeline_Drains Children Client_Process Failures Tftp_Server Coap_Numbers Coap_Print Microcoap_Dump
begin

text \<open>
  \<^bold>\<open>Verification of the gateway.\<close>

  The program is an IoT gateway.  Sensor messages arrive on a serial port, are stored in a database,
  queued, and handed through fifos to one CoAP client process per device; each client sends them as
  CoAP requests to its device.  Beside that run a CoAP server with a few resources, and a TFTP server
  that receives a new device table, whereupon the main process restarts the clients.

  \<^bold>\<open>Conventions.\<close>  Undefined behaviour of C (an access outside an object, through NULL or to freed
  memory, a signed overflow, a read of an uninitialised field; not NULL + 0, which is NULL) is the value \<open>None\<close>, or \<open>Undefined\<close> for
  a step of a thread; error codes are ordinary values.  So a theorem that a result is \<open>Some\<close> is a
  theorem of memory safety.  Results of system and library calls are arguments (the records \<open>main_env\<close>,
  \<open>fork_env\<close>, \<open>client_env\<close>, \<open>client_input\<close>, \<open>tftp_env\<close>, \<open>mraa_env\<close>), and what a process does to the outside
  is a list of events.  Loops over data are recursive functions with a termination proof; the endless
  loops of the processes are functions of the sequence of their inputs; the walks along pointers and
  over options, which damaged data could make endless, are partial functions in the option type, and
  the theorems show that they return.  No function uses fuel.

  \<^bold>\<open>Theories, definitions and what the lemmas show.\<close>

  \<^item> \<open>Systems\<close>: the interfaces of the step relations below, an invariant under a guard on the history and
    coming to rest.
  \<^item> \<open>Gateway_Prelude\<close>: machine words, bounds-checked arrays, C strings; the collections \<open>c_array\<close>,
    \<open>c_string\<close>, \<open>bit_field\<close>.  \<open>Printf\<close>: the conversions of \<open>printf\<close> the program uses.
  \<^item> \<open>Comm_List\<close>, \<open>Comm_Queue\<close> (comm/list.c, queue.c): the linked list over a heap of nodes, and the
    queue on it.  Every operation computes its counterpart on sequences; the locale \<open>fifo_queue\<close>
    states what the threads rely on and \<open>cq\<close> discharges it.
  \<^item> \<open>Coap_Msg\<close>: the CoAP wire format as a function on messages, the specification both CoAP libraries
    are compared with.
  \<^item> \<open>Microcoap\<close>, \<open>Microcoap_Parse\<close>, \<open>Microcoap_Build\<close> (coapServer/microcoap.c): the parser is safe on
    all bytes and decodes every message; the builder encodes; both round trips.  \<open>Microcoap_Dump\<close>: the
    debug dumps print exactly the message, and it can be read back.
  \<^item> \<open>Coap_Server\<close>, \<open>Coap_Server_Correct\<close> (endpoints.c, coapServer.c): the endpoint table, the
    handlers, and the server process, which refines a specification on messages.
  \<^item> \<open>Picocoap\<close>, \<open>Picocoap_Decode\<close>, \<open>Picocoap_Build\<close> (coapClient/picocoap.c, picocoap.h): getters and
    setters on a packet buffer, against the same wire format; the locales \<open>option_walk\<close> and
    \<open>message_writer\<close> hold what the three search loops and the setters share.  \<open>Coap_Print\<close>: the
    debug prints at the end of coapClient.c.
  \<^item> \<open>Coap_Numbers\<close> (microcoap.h, picocoap.h): the enumerations of both headers with their values.
  \<^item> \<open>Coap_Client\<close> (coapClient.c): a turn of the client sends exactly the specified request, and the
    server decodes it as the message meant.  What a sequence of turns reads (\<open>pieces\<close>) is not all sent: a
    piece that does not fit into a request (\<open>fits\<close>) goes out with an empty payload, and its bytes are
    lost.  \<open>Client_Process\<close>: the whole process with its signals and set-up, and the
    steps in which parent and child open the fifo.
  \<^item> \<open>Iptable\<close> (iptable/coap_iptable.c): reading the device file into the list and printing it.
  \<^item> \<open>Sqlite\<close>, \<open>Uart\<close> (sqlite/sqlite.c, uart/uart.c): the statement handed to the database for
    a message, and its bound; the set-up of the port and the framing of the serial bytes.
  \<^item> \<open>Clients\<close> (user/main.c): names of fifos, starting and restarting the clients.
  \<^item> \<open>Dispatch\<close> (user/main.c, uart/uart.c): the two threads as step functions over the shared queue,
    semaphore and message blocks; the relation \<open>gw_step\<close> interleaves them.  The locales of
    \<open>Systems\<close> (\<open>guarded_system\<close>, \<open>draining\<close>) give the invariant of all reachable states: safety, delivery in order without
    loss, and that pending messages are delivered; and that the signal handler must not run while
    a message is written (there \<open>signal_step\<close> is the handler as a whole).
  \<^item> \<open>Handler\<close> (user/main.c, coap_iptable.c): the signal handler step by step, and that its steps add up
    to \<open>Tftp_Sig\<close>.  \<open>Reload\<close> (user/main.c): the life of the gateway with any number of uploads, whose
    handlers run step by step beside the threads: the messages split into epochs, each delivered to the
    clients of its table.  This is under an assumption that the code does not ensure: an upload arrives
    while no message is being written, and the dispatch thread does not look at the device table before
    the handler has returned (\<open>between_messages\<close>, \<open>away_from_table\<close>); the lemma \<open>table_seen_during_upload\<close>
    shows that it is needed.  A second signal waits until the handler has returned.
  \<^item> \<open>Startup\<close> (\<open>main\<close> in user/main.c): \<open>main\<close> ends in its loop in the state the theorems on the threads
    start from; every other way it ends; and the steps of its second half interleaved with the threads
    it has already started.  \<open>Failures\<close>: what a failed fork, a failed enqueue and an empty table lead to.
  \<^item> \<open>Pipeline\<close> (user/main.c, coapClient.c): threads, fifos and clients as one system, from the bytes on
    the serial port to the datagrams at the sockets: what each client has read, the request it has
    sent for each piece, and where; and runs in which messages are merged or lost.  \<open>Epochs\<close>: the same with
    any number of uploads, under the assumption of \<open>Reload\<close>, each of which ends the clients and starts
    others with fifos of their own.  \<open>Pipeline_Drains\<close>: the system comes to rest although the fifos are
    bounded, and then all messages have been read.
  \<^item> \<open>Children\<close> (user/main.c, coapClient.c): \<open>UpdateCoapclient\<close> among the child processes; it gets through
    in every interleaving, and which children it has then taken.
  \<^item> \<open>Tftp\<close>, \<open>Tftp_Server\<close> (TFTPServer/tftputils.c, tftpserver.c): packets, the read and write request,
    a turn of the server, and the server from its start.
  \<^item> This theory: the upload of a device table up to the restarted clients, and how a table is lost.

  \<^bold>\<open>Bounds.\<close>  Sizes of arrays are those of the code.  Lists and the queue have an \<open>int\<close> length, so the
  theorems ask for fewer than 2147483647 elements; \<open>size_t\<close> is 64 bits wide.  \<open>malloc\<close> succeeds with
  new addresses where a theorem says so (\<open>mallocs\<close>), and is an arbitrary argument in the definitions.

  \<^bold>\<open>Not modelled.\<close>  What zlog and the console are told in passing (the text a function exists to print
  is modelled), the contents of socket addresses apart from the address of a device, the setting of
  socket timeouts, and the values of \<open>errno\<close>.  The weak memory of the processor is not modelled: a step
  of a thread is atomic, and the mutex around the queue makes its operations so.  Signals arrive
  between steps and are handled by the first thread of the process, which only sleeps; a handler that
  interrupts one of the two working threads is not modelled; the actions of the default dispositions are those of the system.
\<close>

section \<open>A new device table, from upload to clients\<close>

text \<open>
  C14. Uploading a device table.  When a TFTP client writes a file of device lines (below one packet)
  to IPtable.txt, the server acknowledges it and signals the main process; the signal handler, which
  then reads the file the server left, ends with a table of exactly the uploaded devices, in order,
  each with a client process and the fifo of that process.\<close>

theorem upload_restarts_clients:
  assumes "length (tftpRecvBuffer s) = 1024" and "length mode \<le> 1000"
    and "write_env env (concat (map dev_line devs))" and "length (concat (map dev_line devs)) < 512"
    and ok: "\<forall>d \<in> set devs. dev_ok d"
    and "tab t xs es" and "l_destroy (t_list t) = Some free_ip" and "new_from f t"
    and "length buff = 128" and "length xs < 2147483647" and "\<forall>c \<in> set es. ci_pid c \<noteq> None"
    and "\<forall>j < length devs. env_ok (fenv j)"
  shows "\<exists>evs s' pevs t' xs'.
     tftpd_turn env l (Some (request TFTP_WRQ (bytes ''IPtable.txt'') mode)) s = (evs, Some ((), s')) \<and>
     Signal_parent \<in> set evs \<and>
     Tftp_Sig (mallocs f) buff (td_files s' (bytes ''IPtable.txt'')) fenv t = Some (Cont (t', pevs)) \<and>
     tab t' xs' (map2 (\<lambda>j d. client_entry (fenv j) (ip_entry d)) [0..<length devs] devs)"
proof -
  let ?name = "bytes ''IPtable.txt''" and ?file = "concat (map dev_line devs)"
  have n: "0 \<notin> set ?name" "length ?name < 30" "length (request TFTP_WRQ ?name mode) \<le> 1024"
    using assms(2) by (simp_all add: bytes_def request_def)
  obtain evs s' where s': "tftpd_turn env l (Some (request TFTP_WRQ ?name mode)) s = (evs, Some ((), s'))"
    "Signal_parent \<in> set evs" "td_files s' ?name = Some ?file"
    using tftpd_write [OF assms(1) n(3,1,2) assms(3), of l] assms(4) by auto
  have "\<forall>cs \<in> set (chunks ?file). safe_line cs" using ok by (auto simp: chunks_devs dev_line_parse)
  moreover have "\<forall>j < length (file_entries ?file). env_ok (fenv j)" using assms(12) by (simp add: file_entries_devs [OF ok])
  ultimately obtain t' xs' pevs where "Tftp_Sig (mallocs f) buff (Some ?file) fenv t = Some (Cont (t', pevs))"
    "tab t' xs' (map2 (\<lambda>j c. client_entry (fenv j) c) [0..<length devs] (map ip_entry devs))"
    using Tftp_Sig_ok [OF assms(6-9) _ assms(10) _ _ assms(11), of ?file fenv] assms(4)
    by (auto simp: file_entries_devs [OF ok])
  with s' show ?thesis by (auto simp: zip_map2 case_prod_unfold comp_def)
qed

theorem upload_restarts_clients_witness:
  "\<exists>evs s' pevs t' xs'.
     tftpd_turn (ex_tftp_env (bytes ''1/a#'' @ [10])) 3 (Some (request TFTP_WRQ (bytes ''IPtable.txt'') [])) ex_tftpd =
       (evs, Some ((), s')) \<and>
     Tftp_Sig (mallocs id) (replicate 128 7) (td_files s' (bytes ''IPtable.txt'')) ex_env empty_iptab = Some (Cont (t', pevs)) \<and>
     tab t' xs' [client_entry (ex_env 0) (ip_entry (bytes ''1'', bytes ''a''))]"
proof -
  let ?devs = "[(bytes ''1'', bytes ''a'')]"
  have d: "concat (map dev_line ?devs) = bytes ''1/a#'' @ [10]" by (simp add: dev_line_def bytes_def)
  have "dev_ok (bytes ''1'', bytes ''a'')" by (simp add: dev_ok_def bytes_def)
  moreover have "write_env (ex_tftp_env (bytes ''1/a#'' @ [10])) (concat (map dev_line ?devs))"
    unfolding d by (simp add: write_env_def ex_tftp_env_def)
  moreover have "length (concat (map dev_line ?devs)) < 512" unfolding d by simp
  moreover have "length (tftpRecvBuffer ex_tftpd) = 1024" by (simp add: ex_tftpd_def)
  moreover have "env_ok (ex_env 0)" by (simp add: ex_env_def env_ok_def)
  ultimately show ?thesis
    using upload_restarts_clients [of ex_tftpd "[]" "ex_tftp_env (bytes ''1/a#'' @ [10])" ?devs empty_iptab "[]" "[]" id
        "replicate 128 7" ex_env 3] empty_iptab
    by auto
qed

text \<open>
  C35. Losing a device table.  A write request for IPtable.txt whose first datagram is not the first data
  packet (another block number, or no data: a device file of no bytes among them) empties the file,
  and the server signals the main process all the same.  The signal handler then kills every client and
  starts none: the gateway serves no device until the next upload, and nobody is told.\<close>

theorem bad_upload_stops_clients:
  assumes "length (tftpRecvBuffer s) = 1024" and "length mode \<le> 1000" and "lost_env env bs"
    and "tab t xs es" and "l_destroy (t_list t) = Some free_ip" and "new_from f t"
    and "length buff = 128" and "length xs < 2147483647" and "\<forall>c \<in> set es. ci_pid c \<noteq> None"
  shows "\<exists>evs s' t'.
     tftpd_turn env l (Some (request TFTP_WRQ (bytes ''IPtable.txt'') mode)) s = (evs, Some ((), s')) \<and>
     Signal_parent \<in> set evs \<and> td_files s' (bytes ''IPtable.txt'') = Some [] \<and>
     Tftp_Sig (mallocs f) buff (td_files s' (bytes ''IPtable.txt'')) fenv t =
       Some (Cont (t', concat (map (\<lambda>c. [Kill_client (the (ci_pid c)), Wait_child]) es))) \<and>
     tab t' [] []"
proof -
  let ?name = "bytes ''IPtable.txt''"
  have n: "0 \<notin> set ?name" "length ?name < 30" "length (request TFTP_WRQ ?name mode) \<le> 1024"
    using assms(2) by (simp_all add: bytes_def request_def)
  obtain evs s' where s': "tftpd_turn env l (Some (request TFTP_WRQ ?name mode)) s = (evs, Some ((), s'))"
    "Signal_parent \<in> set evs" "td_files s' ?name = Some []"
    using tftpd_write_lost [OF assms(1) n(3,1,2) assms(3), of l] by auto
  have e: "file_entries [] = []" "chunks [] = []"
    by (simp_all add: file_entries_def chunks.simps)
  obtain t' xs' where t': "Tftp_Sig (mallocs f) buff (Some []) fenv t =
      Some (Cont (t', concat (map (\<lambda>c. [Kill_client (the (ci_pid c)), Wait_child]) es)))" "tab t' xs' []"
    using Tftp_Sig_ok [OF assms(4-7) _ assms(8) _ _ assms(9), of "[]" fenv] by (auto simp: e)
  then have "xs' = []" by (simp add: tab_def)
  with s' t' show ?thesis by auto
qed

theorem bad_upload_stops_clients_witness:
  "\<exists>evs s' t'.
     tftpd_turn ((ex_tftp_env [])\<lparr>te_recv := Some [0, 3, 0, 2, 0x41]\<rparr>) 3
       (Some (request TFTP_WRQ (bytes ''IPtable.txt'') [])) ex_tftpd = (evs, Some ((), s')) \<and>
     Tftp_Sig (mallocs (\<lambda>i. i + 10)) (replicate 128 7) (td_files s' (bytes ''IPtable.txt'')) ex_env ex_tab =
       Some (Cont (t', [Kill_client (the (ci_pid ex_client_ip)), Wait_child])) \<and> tab t' [] []"
proof -
  let ?env = "(ex_tftp_env [])\<lparr>te_recv := Some [0, 3, 0, 2, 0x41]\<rparr>"
  have "lost_env ?env [0, 3, 0, 2, 0x41]" by (simp add: lost_env_def no_first_block_def ex_tftp_env_def)
  moreover have "tab ex_tab [(1, 2)] [ex_client_ip]" using ex_tab_ready by (simp add: tab_ready_def)
  moreover have "l_destroy (t_list ex_tab) = Some free_ip" "new_from (\<lambda>i. i + 10) ex_tab"
    by (simp_all add: ex_tab_def new_from_def inj_on_def)
  moreover have "ci_pid ex_client_ip \<noteq> None" by (simp add: ex_client_ip_def client_entry_def)
  moreover have "length (tftpRecvBuffer ex_tftpd) = 1024" by (simp add: ex_tftpd_def)
  ultimately show ?thesis
    using bad_upload_stops_clients [of ex_tftpd "[]" ?env "[0, 3, 0, 2, 0x41]" ex_tab "[(1, 2)]" "[ex_client_ip]"
        "\<lambda>i. i + 10" "replicate 128 7" 3 ex_env] by auto
qed

end
